(* ===== verification/Prelude.thy ===== *)
theory Prelude
  imports Main "HOL-Library.Word"
begin

text \<open>
  Shared vocabulary of the development: the machine integer types of the Go and C sources, the
  error values the control plane returns, and the generic lemmas and rule collections the
  component theories use.

  \<^item> Go's \<open>uint8/16/32/64\<close> and C's \<open>__u8/16/32/64\<close> are words of that width.
  \<^item> A Go \<open>string\<close> is a \<^typ>\<open>string\<close>: a list of bytes (\<^typ>\<open>char\<close> has 256 values).
  \<^item> A Go \<open>error\<close> is a value of \<open>fw_error\<close>; an operation that returns only an error
    returns \<open>fw_error option\<close> (\<open>None\<close> is \<open>nil\<close>), one that returns a value and an error
    returns \<open>fw_error + 'a\<close>.
  \<^item> A run-time panic of the Go code is the error value \<open>PanicSliceBounds\<close>, so that its
    absence can be stated and proved.
\<close>

unbundle bit_operations_syntax

section \<open>Machine integers\<close>

type_synonym u8 = "8 word"
type_synonym u16 = "16 word"
type_synonym u32 = "32 word"
type_synonym u64 = "64 word"

section \<open>Errors\<close>

text \<open>
  Errors of the eBPF map library. \<open>WrapErr\<close> is an error wrapped by \<open>fmt.Errorf\<close> with
  \<open>%w\<close>; \<open>errors_Is\<close> unwraps as Go's \<open>errors.Is\<close> does, while \<open>==\<close> on error values
  does not.
\<close>

datatype map_err =
    ErrKeyNotExist
  | ErrIterationAborted
  | Errno nat
  | WrapErr string map_err

fun errors_Is :: "map_err \<Rightarrow> map_err \<Rightarrow> bool" where
  "errors_Is (WrapErr msg e) t = (WrapErr msg e = t \<or> errors_Is e t)"
| "errors_Is e t = (e = t)"

text \<open>Errors of the operating system and of the loader, which only pass through.\<close>

type_synonym sys_err = nat

text \<open>One constructor per \<open>fmt.Errorf\<close> of the control plane, in the order of the source files; the last one is
  an error of which only the text is known, as the client reads it from a reply.\<close>

datatype fw_error =
    EmptyAddress
  | InvalidIPAddress string
  | OnlyIPv4Supported string
  | InvalidIPOrCIDR string
  | InvalidCIDR string
  | InvalidAction string
  | InvalidDefaultPolicy string
  | UnsupportedProtocol string
  | InvalidIPv4Destination string
  | MapError map_err
  | ClockError
  | InterfaceError string sys_err
  | LoadError sys_err
  | AttachError string sys_err
  | SysError sys_err
  | Wrapped string fw_error
  | SocketError string sys_err
  | UnknownCommand string
  | MalformedRequest
  | PanicSliceBounds
  | ErrorText string

section \<open>Rule collections\<close>

named_theorems go_eval "equations that evaluate Go standard-library functions on literals"
named_theorems map_frame "how a map operation changes the contents of the maps"
named_theorems table_intro "introduction rules for the invariants of the rule tables"

section \<open>Generic lemmas\<close>

lemma case_prod_fst: "(case p of (a, b) \<Rightarrow> f a) = f (fst p)"
  by (cases p) simp

lemma map_option_eq_None_iff [simp]: "map_option f x = None \<longleftrightarrow> x = None"
  by (cases x) simp_all

lemma fun_upd_dom_subset: "dom (m(k := None)) \<subseteq> dom m"
  by auto

lemma map_le_empty_iff [simp]: "c \<subseteq>\<^sub>m Map.empty \<longleftrightarrow> c = Map.empty"
  by (auto simp: map_le_def)

lemma restrict_map_le [simp]: "m |` A \<subseteq>\<^sub>m m"
  by (auto simp: map_le_def restrict_map_def split: if_splits)

text \<open>The keys of the entries a scan over an association list selects.\<close>

lemma filtered_keys:
  assumes "distinct (map fst es)"
  shows "set (map fst (filter (\<lambda>(k, v). Q v) es)) = {k. \<exists>v. map_of es k = Some v \<and> Q v}"
    and "distinct (map fst (filter (\<lambda>(k, v). Q v) es))"
  using map_of_eq_Some_iff [OF assms] assms by (force, simp add: distinct_map_filter)

lemma length_4_iff: "length xs = 4 \<longleftrightarrow> (\<exists>a b c d. xs = [a, b, c, d])"
  by (auto simp: numeral_eq_Suc length_Suc_conv)

lemma drop_eq_Cons_length: "drop n s = x # xs \<Longrightarrow> length xs < length s"
  by (drule arg_cong [where f = length]) simp

lemma takeWhile_append_stop:
  "\<forall>c \<in> set xs. P c \<Longrightarrow> \<not> P y \<Longrightarrow> takeWhile P (xs @ y # ys) = xs"
  by (induction xs) auto

lemma dropWhile_append_stop:
  "\<forall>c \<in> set xs. P c \<Longrightarrow> \<not> P y \<Longrightarrow> dropWhile P (xs @ y # ys) = y # ys"
  by (induction xs) auto

lemma find_append_skip: "\<forall>c \<in> set xs. \<not> P c \<Longrightarrow> find P (xs @ ys) = find P ys"
  by (induction xs) auto

end
