(* ===== verification/GoStrings.thy ===== *)
theory GoStrings
  imports Prelude
begin

text \<open>
  The functions of Go's \<open>strings\<close>, \<open>strconv\<close> and \<open>fmt\<close> packages that the control plane
  calls, on byte strings: \<open>strings.TrimSpace\<close>, \<open>strings.ToLower\<close>, \<open>strings.HasPrefix\<close>,
  \<open>strings.TrimPrefix\<close>, \<open>strings.Split\<close> on one byte, \<open>strings.Cut\<close> on one byte,
  \<open>strconv.ParseUint(s, 10, bits)\<close> and the \<open>%d\<close> verb for unsigned integers.
  \<open>TrimSpace\<close> knows every character of \<open>unicode.IsSpace\<close>, in its UTF-8 encoding.
  \<open>ToLower\<close> lowers ASCII letters only: the one caller compares the result with the literals
  \<open>tcp\<close> and \<open>udp\<close>, and no non-ASCII character lowers to a letter of these.
\<close>

section \<open>White space\<close>

definition space_encodings :: "string list" where
  "space_encodings =
     [[CHR 0x09], [CHR 0x0A], [CHR 0x0B], [CHR 0x0C], [CHR 0x0D], [CHR 0x20],
      [CHR 0xC2, CHR 0x85], [CHR 0xC2, CHR 0xA0], [CHR 0xE1, CHR 0x9A, CHR 0x80],
      [CHR 0xE2, CHR 0x80, CHR 0x80], [CHR 0xE2, CHR 0x80, CHR 0x81], [CHR 0xE2, CHR 0x80, CHR 0x82],
      [CHR 0xE2, CHR 0x80, CHR 0x83], [CHR 0xE2, CHR 0x80, CHR 0x84], [CHR 0xE2, CHR 0x80, CHR 0x85],
      [CHR 0xE2, CHR 0x80, CHR 0x86], [CHR 0xE2, CHR 0x80, CHR 0x87], [CHR 0xE2, CHR 0x80, CHR 0x88],
      [CHR 0xE2, CHR 0x80, CHR 0x89], [CHR 0xE2, CHR 0x80, CHR 0x8A], [CHR 0xE2, CHR 0x80, CHR 0xA8],
      [CHR 0xE2, CHR 0x80, CHR 0xA9], [CHR 0xE2, CHR 0x80, CHR 0xAF], [CHR 0xE2, CHR 0x81, CHR 0x9F],
      [CHR 0xE3, CHR 0x80, CHR 0x80]]"

fun lead_len :: "string list \<Rightarrow> string \<Rightarrow> nat" where
  "lead_len [] s = 0"
| "lead_len (e # es) s = (if take (length e) s = e then length e else lead_len es s)"

lemma lead_len_le: "[] \<notin> set es \<Longrightarrow> lead_len es s \<le> length s"
  by (induction es) (auto simp: take_eq_Nil intro: le_trans dest!: arg_cong [where f = length])

function trim_lead :: "string list \<Rightarrow> string \<Rightarrow> string" where
  "trim_lead es s =
     (if lead_len es s = 0 \<or> s = [] then s else trim_lead es (drop (lead_len es s) s))"
  by pat_completeness auto
termination
  by (relation "measure (\<lambda>(es, s). length s)") auto

declare trim_lead.simps [simp del]

definition TrimSpace :: "string \<Rightarrow> string" where
  "TrimSpace s =
     rev (trim_lead (map rev space_encodings) (rev (trim_lead space_encodings s)))"

text \<open>A string whose first and last byte cannot belong to a white-space character is kept.\<close>

definition plain_char :: "char \<Rightarrow> bool" where
  "plain_char c \<longleftrightarrow> 0x21 \<le> (of_char c :: nat) \<and> (of_char c :: nat) \<le> 0x7E"

lemma lead_len_other_hd: "\<forall>e \<in> set es. e \<noteq> [] \<and> hd e \<noteq> c \<Longrightarrow> lead_len es (c # s) = 0"
proof (induction es)
  case (Cons e es)
  then show ?case by (cases e) auto
qed simp

lemma space_encodings_not_plain:
  "list_all (\<lambda>e. e \<noteq> [] \<and> \<not> plain_char (hd e) \<and> \<not> plain_char (last e)) space_encodings"
  by code_simp

lemma lead_len_plain: "plain_char c \<Longrightarrow> lead_len space_encodings (c # s) = 0"
  using space_encodings_not_plain by (intro lead_len_other_hd) (auto simp: list_all_iff)

lemma lead_len_rev_plain: "plain_char c \<Longrightarrow> lead_len (map rev space_encodings) (c # s) = 0"
  using space_encodings_not_plain
  by (intro lead_len_other_hd) (auto simp: list_all_iff hd_rev)

lemma TrimSpace_plain:
  assumes "s \<noteq> []" "plain_char (hd s)" "plain_char (last s)"
  shows "TrimSpace s = s"
proof -
  from assms have "lead_len space_encodings s = 0"
    by (cases s) (auto simp: lead_len_plain)
  then have l: "trim_lead space_encodings s = s"
    by (simp add: trim_lead.simps)
  from assms have "lead_len (map rev space_encodings) (rev s) = 0"
    by (cases s rule: rev_cases) (auto simp: lead_len_rev_plain)
  then have "trim_lead (map rev space_encodings) (rev s) = rev s"
    by (simp add: trim_lead.simps)
  with l show ?thesis by (simp add: TrimSpace_def)
qed

lemma TrimSpace_plain_all: "s \<noteq> [] \<Longrightarrow> \<forall>c \<in> set s. plain_char c \<Longrightarrow> TrimSpace s = s"
  by (rule TrimSpace_plain) auto

lemma TrimSpace_Nil [simp]: "TrimSpace [] = []"
  by (simp add: TrimSpace_def trim_lead.simps)

section \<open>Case, prefixes, splitting\<close>

definition lower_char :: "char \<Rightarrow> char" where
  "lower_char c =
     (if 0x41 \<le> (of_char c :: nat) \<and> (of_char c :: nat) \<le> 0x5A
      then char_of (of_char c + 32 :: nat) else c)"

definition ToLower :: "string \<Rightarrow> string" where
  "ToLower s = map lower_char s"

definition HasPrefix :: "string \<Rightarrow> string \<Rightarrow> bool" where
  "HasPrefix s p \<longleftrightarrow> take (length p) s = p"

definition TrimPrefix :: "string \<Rightarrow> string \<Rightarrow> string" where
  "TrimPrefix s p = (if HasPrefix s p then drop (length p) s else s)"

lemma HasPrefix_append [simp]: "HasPrefix (p @ s) p"
  by (simp add: HasPrefix_def)

lemma TrimPrefix_append [simp]: "TrimPrefix (p @ s) p = s"
  by (simp add: TrimPrefix_def)

fun split_on :: "char \<Rightarrow> string \<Rightarrow> string list" where
  "split_on c [] = [[]]"
| "split_on c (x # xs) =
     (if x = c then [] # split_on c xs
      else (case split_on c xs of [] \<Rightarrow> [[x]] | y # ys \<Rightarrow> (x # y) # ys))"

lemma split_on_not_Nil [simp]: "split_on c s \<noteq> []"
  by (induction s) (auto split: list.split)

lemma split_on_no_sep: "c \<notin> set s \<Longrightarrow> split_on c s = [s]"
  by (induction s) auto

lemma split_on_append: "c \<notin> set s \<Longrightarrow> split_on c (s @ c # t) = s # split_on c t"
  by (induction s) auto

text \<open>\<open>strings.Cut\<close> at the first occurrence of a byte: \<open>None\<close> when it does not occur.\<close>

definition cut_at :: "char \<Rightarrow> string \<Rightarrow> (string \<times> string) option" where
  "cut_at c s =
     (if c \<in> set s then Some (takeWhile (\<lambda>x. x \<noteq> c) s, tl (dropWhile (\<lambda>x. x \<noteq> c) s)) else None)"

lemma cut_at_append: "c \<notin> set s \<Longrightarrow> cut_at c (s @ c # t) = Some (s, t)"
proof -
  assume "c \<notin> set s"
  then have "\<forall>x \<in> set s. x \<noteq> c" by auto
  then show ?thesis by (simp add: cut_at_def takeWhile_append_stop dropWhile_append_stop)
qed

section \<open>Decimal numerals\<close>

definition is_digit :: "char \<Rightarrow> bool" where
  "is_digit c \<longleftrightarrow> 48 \<le> (of_char c :: nat) \<and> (of_char c :: nat) \<le> 57"

definition digit_val :: "char \<Rightarrow> nat" where
  "digit_val c = of_char c - 48"

definition digit_char :: "nat \<Rightarrow> char" where
  "digit_char n = char_of (48 + n)"

lemma of_char_digit_char: "n < 10 \<Longrightarrow> of_char (digit_char n) = (48 + n :: nat)"
  by (simp add: digit_char_def)

lemma digit_char_props [simp]:
  assumes "n < 10"
  shows "is_digit (digit_char n)" "digit_val (digit_char n) = n" "plain_char (digit_char n)"
  using of_char_digit_char [OF assms] assms
  by (simp_all add: is_digit_def digit_val_def plain_char_def)

lemma digit_val_less: "is_digit c \<Longrightarrow> digit_val c < 10"
  by (auto simp: is_digit_def digit_val_def)

text \<open>The \<open>%d\<close> verb.\<close>

fun nat_str :: "nat \<Rightarrow> string" where
  "nat_str n = (if n < 10 then [digit_char n] else nat_str (n div 10) @ [digit_char (n mod 10)])"

declare nat_str.simps [simp del]

lemma nat_str_not_Nil [simp]: "nat_str n \<noteq> []"
  by (subst nat_str.simps) simp

lemma nat_str_digits: "\<forall>c \<in> set (nat_str n). is_digit c \<and> plain_char c"
proof (induction n rule: nat_str.induct)
  case (1 n)
  then show ?case by (subst nat_str.simps) (auto simp: digit_char_props)
qed

lemma not_digit_not_in_nat_str: "\<not> is_digit c \<Longrightarrow> c \<notin> set (nat_str n)"
  using nat_str_digits by blast

fun digits_val :: "nat \<Rightarrow> string \<Rightarrow> nat" where
  "digits_val a [] = a"
| "digits_val a (c # s) = digits_val (a * 10 + digit_val c) s"

lemma digits_val_append: "digits_val a (s @ t) = digits_val (digits_val a s) t"
  by (induction s arbitrary: a) simp_all

lemma digits_val_nat_str: "digits_val 0 (nat_str n) = n"
proof (induction n rule: nat_str.induct)
  case (1 n)
  show ?case
  proof (cases "n < 10")
    case True
    then show ?thesis by (subst nat_str.simps) simp
  next
    case False
    with 1 show ?thesis by (subst nat_str.simps) (simp add: digits_val_append)
  qed
qed

text \<open>
  \<open>strconv.ParseUint(s, 10, bits)\<close>: a non-empty run of ASCII digits whose value fits in
  \<open>bits\<close> bits; anything else (a sign, an underscore, a blank, too large a value) is an error.
\<close>

definition ParseUint :: "string \<Rightarrow> nat \<Rightarrow> nat option" where
  "ParseUint s bits =
     (if s \<noteq> [] \<and> list_all is_digit s \<and> digits_val 0 s < 2 ^ bits then Some (digits_val 0 s)
      else None)"

lemma ParseUint_bound: "ParseUint s bits = Some n \<Longrightarrow> n < 2 ^ bits"
  by (auto simp: ParseUint_def split: if_splits)

lemma ParseUint_nat_str: "ParseUint (nat_str n) bits = (if n < 2 ^ bits then Some n else None)"
  by (auto simp: ParseUint_def digits_val_nat_str list_all_iff nat_str_digits)

end
