(* ===== verification/GoNet.thy ===== *)
theory GoNet
  imports GoStrings
begin

text \<open>
  The part of Go's \<open>net\<close>, \<open>net/netip\<close> and \<open>encoding/binary\<close> packages that the control
  plane calls: \<open>net.ParseIP\<close>, \<open>net.ParseCIDR\<close>, \<open>IP.To4\<close>, \<open>IP.Mask\<close>,
  \<open>IP.String\<close> on four-byte addresses, \<open>CIDRMask\<close>, \<open>IPMask.Size\<close>, and the
  little-endian and big-endian reads of 16 and 32 bits.
  An \<open>IP\<close> or an \<open>IPMask\<close> is a byte list of length 4 or 16; \<open>None\<close> is Go's \<open>nil\<close>.
  The textual parsers are those of \<open>net/netip\<close>, IPv4 and IPv6 (with \<open>::\<close>, embedded IPv4
  and zones), because \<open>net.ParseIP\<close> accepts both and what the callers do with an IPv6
  answer depends on its bytes.
\<close>

section \<open>IPv4 text\<close>

text \<open>
  \<open>netip.parseIPv4Fields\<close>: \<open>at_start\<close> says that the previous byte is a dot or that there is
  none, \<open>v\<close> is the value and \<open>n\<close> the number of digits of the current octet, \<open>fs\<close> the
  octets read so far.
\<close>

fun ipv4_fields :: "bool \<Rightarrow> nat \<Rightarrow> nat \<Rightarrow> u8 list \<Rightarrow> string \<Rightarrow> u8 list option" where
  "ipv4_fields at_start v n fs [] =
     (if length fs < 3 then None else Some (fs @ [of_nat v]))"
| "ipv4_fields at_start v n fs (c # s) =
     (if is_digit c then
        if n = 1 \<and> v = 0 then None
        else let v' = v * 10 + digit_val c
             in if v' > 255 then None else ipv4_fields False v' (Suc n) fs s
      else if c = CHR ''.'' then
        if at_start \<or> s = [] then None
        else if length fs = 3 then None
        else ipv4_fields True 0 0 (fs @ [of_nat v]) s
      else None)"

definition parse_ipv4 :: "string \<Rightarrow> u8 list option" where
  "parse_ipv4 s = ipv4_fields True 0 0 [] s"

lemma ipv4_fields_length:
  "ipv4_fields a v n fs s = Some b \<Longrightarrow> length fs \<le> 3 \<Longrightarrow> length b = 4"
  by (induction a v n fs s rule: ipv4_fields.induct) (auto simp: Let_def split: if_splits)

lemma parse_ipv4_length: "parse_ipv4 s = Some b \<Longrightarrow> length b = 4"
  by (auto simp: parse_ipv4_def dest: ipv4_fields_length)

section \<open>IPv6 text\<close>

definition is_hex :: "char \<Rightarrow> bool" where
  "is_hex c \<longleftrightarrow> is_digit c \<or> (97 \<le> (of_char c :: nat) \<and> (of_char c :: nat) \<le> 102)
     \<or> (65 \<le> (of_char c :: nat) \<and> (of_char c :: nat) \<le> 70)"

definition hex_val :: "char \<Rightarrow> nat" where
  "hex_val c = (if is_digit c then digit_val c
     else if 97 \<le> (of_char c :: nat) then of_char c - 87 else of_char c - 55)"

fun hex_value :: "nat \<Rightarrow> string \<Rightarrow> nat" where
  "hex_value a [] = a"
| "hex_value a (c # s) = hex_value (a * 16 + hex_val c) s"

text \<open>
  The loop of \<open>netip.parseIPv6\<close>: \<open>ip\<close> holds the bytes written so far (the source's \<open>i\<close> is its
  length) and \<open>ell\<close> the position of the ellipsis; the result is the rest of the input with the
  final \<open>ip\<close> and \<open>ell\<close>.
\<close>

function ipv6_loop ::
    "string \<Rightarrow> u8 list \<Rightarrow> nat option \<Rightarrow> (string \<times> u8 list \<times> nat option) option" where
  "ipv6_loop s ip ell =
     (if 16 \<le> length ip then Some (s, ip, ell)
      else let g = takeWhile is_hex s; r = drop (length g) s in
        if 4 < length g \<or> g = [] then None
        else if r \<noteq> [] \<and> hd r = CHR ''.'' then
          if ell = None \<and> length ip \<noteq> 12 then None
          else if 16 < length ip + 4 then None
          else (case ipv4_fields True 0 0 [] s of
                  None \<Rightarrow> None
                | Some b \<Rightarrow> Some ([], ip @ b, ell))
        else let acc = hex_value 0 g;
                 ip' = ip @ [of_nat (acc div 256), of_nat acc] in
          (case r of
             [] \<Rightarrow> Some ([], ip', ell)
           | c # r1 \<Rightarrow>
               if c \<noteq> CHR '':'' then None
               else (case r1 of
                   [] \<Rightarrow> None
                 | d # r2 \<Rightarrow>
                     if d = CHR '':'' then
                       if ell \<noteq> None then None
                       else if r2 = [] then Some ([], ip', Some (length ip'))
                       else ipv6_loop r2 ip' (Some (length ip'))
                     else ipv6_loop r1 ip' ell)))"
  by pat_completeness auto
termination
proof (relation "measure (\<lambda>(s, ip, ell). length s)", goal_cases)
  case 1
  show ?case by simp
next
  case (2 s ip ell g r acc ip' c r1 d r2)
  then have "drop (length g) s = c # r1" "r1 = d # r2" by metis+
  then show ?case by (auto dest: drop_eq_Cons_length)
next
  case (3 s ip ell g r acc ip' c r1 d r2)
  then have "drop (length g) s = c # r1" by metis
  then show ?case by (auto dest: drop_eq_Cons_length)
qed

declare ipv6_loop.simps [simp del]

definition ipv6_finish :: "string \<times> u8 list \<times> nat option \<Rightarrow> u8 list option" where
  "ipv6_finish r =
     (case r of (s, ip, ell) \<Rightarrow>
        if s \<noteq> [] then None
        else if length ip < 16 then
          (case ell of
             None \<Rightarrow> None
           | Some e \<Rightarrow> Some (take e ip @ replicate (16 - length ip) 0 @ drop e ip))
        else if ell \<noteq> None then None
        else Some ip)"

text \<open>
  An address with a zone parses in \<open>netip\<close> when its zone is not empty, but both callers,
  \<open>net.ParseIP\<close> and \<open>net.ParseCIDR\<close>, reject an address that has one: a \<open>%\<close> is a rejection
  either way.
\<close>

definition parse_ipv6 :: "string \<Rightarrow> u8 list option" where
  "parse_ipv6 s =
     (if CHR ''%'' \<in> set s then None
      else if HasPrefix s ''::'' then
        (if drop 2 s = [] then Some (replicate 16 0)
         else Option.bind (ipv6_loop (drop 2 s) [] (Some 0)) ipv6_finish)
      else Option.bind (ipv6_loop s [] None) ipv6_finish)"

section \<open>Addresses\<close>

datatype ip_addr = AddrV4 "u8 list" | AddrV6 "u8 list"

text \<open>\<open>netip.ParseAddr\<close>: the first byte among \<open>.\<close>, \<open>:\<close> and \<open>%\<close> selects the parser.\<close>

definition ParseAddr :: "string \<Rightarrow> ip_addr option" where
  "ParseAddr s =
     (case find (\<lambda>c. c \<in> {CHR ''.'', CHR '':'', CHR ''%''}) s of
        None \<Rightarrow> None
      | Some c \<Rightarrow>
          if c = CHR ''.'' then map_option AddrV4 (parse_ipv4 s)
          else if c = CHR '':'' then map_option AddrV6 (parse_ipv6 s)
          else None)"

definition v4InV6Prefix :: "u8 list" where
  "v4InV6Prefix = [0, 0, 0, 0, 0, 0, 0, 0, 0, 0, 0xFF, 0xFF]"

fun As16 :: "ip_addr \<Rightarrow> u8 list" where
  "As16 (AddrV4 b) = v4InV6Prefix @ b"
| "As16 (AddrV6 b) = b"

fun BitLen :: "ip_addr \<Rightarrow> nat" where
  "BitLen (AddrV4 b) = 32"
| "BitLen (AddrV6 b) = 128"

lemma BitLen_cases: "BitLen a = 32 \<or> BitLen a = 128"
  by (cases a) simp_all

definition ParseIP :: "string \<Rightarrow> u8 list option" where
  "ParseIP s = map_option As16 (ParseAddr s)"

definition To4 :: "u8 list \<Rightarrow> u8 list option" where
  "To4 ip =
     (if length ip = 4 then Some ip
      else if length ip = 16 \<and> take 12 ip = v4InV6Prefix then Some (drop 12 ip)
      else None)"

lemma length_v4InV6Prefix [simp]: "length v4InV6Prefix = 12"
  by (simp add: v4InV6Prefix_def)

lemma To4_length: "To4 ip = Some b \<Longrightarrow> length b = 4"
  by (auto simp: To4_def split: if_splits)

lemma To4_v4 [simp]: "length b = 4 \<Longrightarrow> To4 (v4InV6Prefix @ b) = Some b"
  by (simp add: To4_def)

lemma To4_id [simp]: "length b = 4 \<Longrightarrow> To4 b = Some b"
  by (simp add: To4_def)

section \<open>Masks and CIDR text\<close>

text \<open>\<open>net.CIDRMask\<close>: \<open>l\<close> bytes with \<open>n\<close> leading ones.\<close>

fun cidr_bytes :: "nat \<Rightarrow> nat \<Rightarrow> u8 list" where
  "cidr_bytes 0 n = []"
| "cidr_bytes (Suc l) n =
     (if 8 \<le> n then 0xFF # cidr_bytes l (n - 8) else NOT (drop_bit n 0xFF) # cidr_bytes l 0)"

definition CIDRMask :: "nat \<Rightarrow> nat \<Rightarrow> u8 list" where
  "CIDRMask ones bits = cidr_bytes (bits div 8) ones"

text \<open>
  \<open>net.simpleMaskLength\<close>: leading \<open>0xff\<close> bytes, then the leading ones of one byte, then
  zeroes; \<open>None\<close> is the source's \<open>-1\<close>. \<open>lead_ones\<close> is the bit loop on one byte: eight
  shifts empty it.
\<close>

fun lead_ones :: "nat \<Rightarrow> u8 \<Rightarrow> nat \<times> u8" where
  "lead_ones 0 v = (0, v)"
| "lead_ones (Suc k) v =
     (if v AND 0x80 \<noteq> 0 then (case lead_ones k (push_bit 1 v) of (n, w) \<Rightarrow> (Suc n, w)) else (0, v))"

fun simpleMaskLength :: "u8 list \<Rightarrow> nat option" where
  "simpleMaskLength [] = Some 0"
| "simpleMaskLength (v # m) =
     (if v = 0xFF then map_option (\<lambda>n. n + 8) (simpleMaskLength m)
      else (case lead_ones 8 v of (n, w) \<Rightarrow>
              if w \<noteq> 0 then None else if list_all (\<lambda>x. x = 0) m then Some n else None))"

definition Mask_Size :: "u8 list \<Rightarrow> nat \<times> nat" where
  "Mask_Size m = (case simpleMaskLength m of None \<Rightarrow> (0, 0) | Some n \<Rightarrow> (n, 8 * length m))"

lemma length_cidr_bytes [simp]: "length (cidr_bytes l n) = l"
  by (induction l n rule: cidr_bytes.induct) simp_all

lemma cidr_bytes_zero: "cidr_bytes l 0 = replicate l 0"
  by (induction l) simp_all

lemma lead_ones_cidr:
  "n < 8 \<Longrightarrow> NOT (drop_bit n 0xFF) \<noteq> (0xFF :: u8) \<and> lead_ones 8 (NOT (drop_bit n 0xFF)) = (n, 0)"
proof -
  have "list_all (\<lambda>n. NOT (drop_bit n 0xFF) \<noteq> (0xFF :: u8) \<and>
      lead_ones 8 (NOT (drop_bit n 0xFF)) = (n, 0)) [0..<8]"
    by code_simp
  then show "n < 8 \<Longrightarrow> ?thesis" by (auto simp: list_all_iff)
qed

lemma simpleMaskLength_cidr: "n \<le> 8 * l \<Longrightarrow> simpleMaskLength (cidr_bytes l n) = Some n"
proof (induction l arbitrary: n)
  case 0
  then show ?case by simp
next
  case (Suc l)
  then show ?case
    using lead_ones_cidr [of n] by (auto simp: cidr_bytes_zero list_all_iff)
qed

lemma Mask_Size_CIDRMask:
  "ones \<le> bits \<Longrightarrow> bits = 8 * k \<Longrightarrow> Mask_Size (CIDRMask ones bits) = (ones, bits)"
  by (simp add: Mask_Size_def CIDRMask_def simpleMaskLength_cidr)

lemma Mask_Size_32 [simp]: "n \<le> 32 \<Longrightarrow> Mask_Size (CIDRMask n 32) = (n, 32)"
  by (rule Mask_Size_CIDRMask [where k = 4]) simp_all

lemma Mask_Size_128 [simp]: "n \<le> 128 \<Longrightarrow> Mask_Size (CIDRMask n 128) = (n, 128)"
  by (rule Mask_Size_CIDRMask [where k = 16]) simp_all

text \<open>\<open>IP.Mask\<close>: a 16-byte mask of a 4-byte address, or a 4-byte mask of a mapped address, is
  cut to the last four bytes; the lengths must then agree.\<close>

definition IP_Mask :: "u8 list \<Rightarrow> u8 list \<Rightarrow> u8 list option" where
  "IP_Mask ip m =
     (let m' = (if length m = 16 \<and> length ip = 4 \<and> list_all (\<lambda>x. x = 0xFF) (take 12 m)
                then drop 12 m else m);
          ip' = (if length m' = 4 \<and> length ip = 16 \<and> take 12 ip = v4InV6Prefix
                 then drop 12 ip else ip)
      in if length ip' \<noteq> length m' then None else Some (map2 (AND) ip' m'))"

text \<open>\<open>net.dtoi\<close> on a whole string: decimal digits with a value below \<open>0xFFFFFF\<close>.\<close>

definition dtoi :: "string \<Rightarrow> nat option" where
  "dtoi s = (if s \<noteq> [] \<and> list_all is_digit s \<and> digits_val 0 s < 0xFFFFFF
             then Some (digits_val 0 s) else None)"

record IPNet =
  net_IP :: "u8 list"
  net_Mask :: "u8 list"

text \<open>\<open>net.ParseCIDR\<close>, the network it returns. \<open>IP.Mask\<close> never fails here; its \<open>nil\<close>
  would be the empty byte list.\<close>

definition ParseCIDR :: "string \<Rightarrow> IPNet option" where
  "ParseCIDR s =
     (case cut_at (CHR ''/'') s of
        None \<Rightarrow> None
      | Some (addr, msk) \<Rightarrow>
          (case ParseAddr addr of
             None \<Rightarrow> None
           | Some ip \<Rightarrow>
               (case dtoi msk of
                  None \<Rightarrow> None
                | Some n \<Rightarrow>
                    if n > BitLen ip then None
                    else let m = CIDRMask n (BitLen ip)
                         in Some \<lparr>net_IP = (case IP_Mask (As16 ip) m of None \<Rightarrow> [] | Some b \<Rightarrow> b),
                                  net_Mask = m\<rparr>)))"

text \<open>\<open>IP.String\<close> on a four-byte address.\<close>

definition ipv4_str :: "u8 \<Rightarrow> u8 \<Rightarrow> u8 \<Rightarrow> u8 \<Rightarrow> string" where
  "ipv4_str a b c d =
     nat_str (unat a) @ ''.'' @ nat_str (unat b) @ ''.'' @ nat_str (unat c) @ ''.'' @ nat_str (unat d)"

section \<open>Byte order\<close>

text \<open>\<open>binary.LittleEndian\<close> and \<open>binary.BigEndian\<close>.\<close>

definition le16 :: "u8 \<Rightarrow> u8 \<Rightarrow> u16" where
  "le16 a b = ucast a OR push_bit 8 (ucast b)"

definition be16 :: "u8 \<Rightarrow> u8 \<Rightarrow> u16" where
  "be16 a b = ucast b OR push_bit 8 (ucast a)"

definition le32 :: "u8 \<Rightarrow> u8 \<Rightarrow> u8 \<Rightarrow> u8 \<Rightarrow> u32" where
  "le32 a b c d =
     ucast a OR push_bit 8 (ucast b) OR push_bit 16 (ucast c) OR push_bit 24 (ucast d)"

definition be32 :: "u8 \<Rightarrow> u8 \<Rightarrow> u8 \<Rightarrow> u8 \<Rightarrow> u32" where
  "be32 a b c d = le32 d c b a"

text \<open>Byte \<open>i\<close> of a word, as \<open>byte(v >> (8 * i))\<close> reads it.\<close>

definition byte_of :: "nat \<Rightarrow> 'a::len word \<Rightarrow> u8" where
  "byte_of i v = ucast (drop_bit (8 * i) v)"

lemma bit_u8_high [simp]: "8 \<le> n \<Longrightarrow> \<not> bit (a :: u8) n"
  using bit_imp_le_length [of a n] by auto

lemma le32_bytes [simp]: "le32 (byte_of 0 v) (byte_of 1 v) (byte_of 2 v) (byte_of 3 v) = v"
  unfolding le32_def byte_of_def
proof (rule bit_word_eqI)
  fix n assume "n < LENGTH(32)"
  then consider "n < 8" | "8 \<le> n \<and> n < 16" | "16 \<le> n \<and> n < 24" | "24 \<le> n \<and> n < 32"
    by fastforce
  then show "bit (ucast (ucast (drop_bit (8 * 0) v) :: u8) OR
      push_bit 8 (ucast (ucast (drop_bit (8 * 1) v) :: u8)) OR
      push_bit 16 (ucast (ucast (drop_bit (8 * 2) v) :: u8)) OR
      push_bit 24 (ucast (ucast (drop_bit (8 * 3) v) :: u8)) :: u32) n = bit v n"
    by cases (auto simp: bit_simps)
qed

lemma le32_bytes_Suc [simp]:
  "le32 (byte_of 0 v) (byte_of (Suc 0) v) (byte_of 2 v) (byte_of 3 v) = v"
  using le32_bytes [of v] by simp

lemma le16_bytes [simp]: "le16 (byte_of 0 v) (byte_of 1 v) = v"
  unfolding le16_def byte_of_def by (rule bit_word_eqI) (auto simp: bit_simps)

lemma le16_bytes_Suc [simp]: "le16 (byte_of 0 v) (byte_of (Suc 0) v) = v"
  using le16_bytes [of v] by simp

lemma byte_of_le32_0 [simp]: "byte_of 0 (le32 a b c d) = a"
  unfolding le32_def byte_of_def by (rule bit_word_eqI) (auto simp: bit_simps)

lemma byte_of_le32_1 [simp]: "byte_of (Suc 0) (le32 a b c d) = b"
  unfolding le32_def byte_of_def by (rule bit_word_eqI) (auto simp: bit_simps)

lemma byte_of_le32_2 [simp]: "byte_of 2 (le32 a b c d) = c"
  unfolding le32_def byte_of_def by (rule bit_word_eqI) (auto simp: bit_simps)

lemma byte_of_le32_3 [simp]: "byte_of 3 (le32 a b c d) = d"
  unfolding le32_def byte_of_def by (rule bit_word_eqI) (auto simp: bit_simps)

lemma byte_of_le16_0 [simp]: "byte_of 0 (le16 a b) = a"
  unfolding le16_def byte_of_def by (rule bit_word_eqI) (auto simp: bit_simps)

lemma byte_of_le16_1 [simp]: "byte_of (Suc 0) (le16 a b) = b"
  unfolding le16_def byte_of_def by (rule bit_word_eqI) (auto simp: bit_simps)

lemma be16_swap: "be16 a b = le16 b a"
  by (simp add: be16_def le16_def)

section \<open>Printing and parsing IPv4\<close>

lemma ipv4_fields_nat_str:
  "n \<le> 255 \<Longrightarrow>
     ipv4_fields a 0 0 fs (nat_str n @ rest) = ipv4_fields False n (length (nat_str n)) fs rest"
proof (induction n arbitrary: rest rule: nat_str.induct)
  case (1 n)
  show ?case
  proof (cases "n < 10")
    case True
    then show ?thesis by (subst (1 2) nat_str.simps) (simp add: Let_def)
  next
    case False
    with 1 have "ipv4_fields a 0 0 fs (nat_str (n div 10) @ digit_char (n mod 10) # rest) =
        ipv4_fields False (n div 10) (length (nat_str (n div 10))) fs (digit_char (n mod 10) # rest)"
      by simp
    moreover from False have "n div 10 \<noteq> 0" by (simp add: div_eq_0_iff)
    ultimately show ?thesis
      using False "1.prems" by (subst (1 2) nat_str.simps) (simp add: Let_def)
  qed
qed

lemma dot_not_digit [simp]: "\<not> is_digit (CHR ''.'')" "\<not> is_digit (CHR '':'')"
    "\<not> is_digit (CHR ''%'')" "\<not> is_digit (CHR ''/'')"
  by (simp_all add: is_digit_def)

lemma unat_u8_le [simp]: "unat (a :: u8) \<le> 255"
proof -
  have "unat a < 2 ^ LENGTH(8)" by (rule unsigned_less)
  then show ?thesis by simp
qed

lemma parse_ipv4_str: "parse_ipv4 (ipv4_str a b c d) = Some [a, b, c, d]"
  by (simp add: parse_ipv4_def ipv4_str_def ipv4_fields_nat_str
      ipv4_fields_nat_str [where rest = "[]", simplified])

lemma ipv4_str_chars: "x \<in> set (ipv4_str a b c d) \<Longrightarrow> is_digit x \<or> x = CHR ''.''"
  using nat_str_digits by (auto simp: ipv4_str_def)

lemma ipv4_str_plain: "\<forall>x \<in> set (ipv4_str a b c d). plain_char x"
  using nat_str_digits by (auto simp: ipv4_str_def plain_char_def)

lemma ParseAddr_ipv4_str: "ParseAddr (ipv4_str a b c d) = Some (AddrV4 [a, b, c, d])"
proof -
  have "\<forall>x \<in> set (nat_str n). x \<notin> {CHR ''.'', CHR '':'', CHR ''%''}" for n
    by (auto simp: not_digit_not_in_nat_str)
  then have "find (\<lambda>x. x \<in> {CHR ''.'', CHR '':'', CHR ''%''}) (ipv4_str a b c d) = Some (CHR ''.'')"
    unfolding ipv4_str_def by (simp add: find_append_skip)
  then show ?thesis by (simp add: ParseAddr_def parse_ipv4_str)
qed

lemma ipv6_loop_length:
  "ipv6_loop s ip ell = Some (r, ip', ell') \<Longrightarrow> even (length ip) \<Longrightarrow> length ip \<le> 16 \<Longrightarrow>
     even (length ip') \<and> length ip' \<le> 16"
proof (induction "length s" arbitrary: s ip ell rule: less_induct)
  case less
  show ?case
  proof (cases "16 \<le> length ip")
    case True
    with less.prems show ?thesis by (simp add: ipv6_loop.simps)
  next
    case False
    with less.prems have room: "length ip + 2 \<le> 16" by presburger
    have IH: "ipv6_loop t (ip @ [x, y]) e = Some (r, ip', ell') \<Longrightarrow> length t < length s \<Longrightarrow>
        even (length ip') \<and> length ip' \<le> 16" for t x y e
      using less.hyps [of t "ip @ [x, y]" e] less.prems(2) room by simp
    from less.prems(1) False show ?thesis
      unfolding ipv6_loop.simps [of s ip ell] Let_def
      using room less.prems(2)
      by (auto split: if_splits option.splits list.splits
          dest!: IH ipv4_fields_length [of _ _ _ "[]", simplified] dest: drop_eq_Cons_length)
  qed
qed

section \<open>Lengths\<close>

lemma ipv6_finish_length:
  "ipv6_finish (r, ip, ell) = Some b \<Longrightarrow> length ip \<le> 16 \<Longrightarrow> length b = 16"
  by (auto simp: ipv6_finish_def split: if_splits option.splits)

lemma parse_ipv6_length: "parse_ipv6 s = Some b \<Longrightarrow> length b = 16"
  by (auto simp: parse_ipv6_def bind_eq_Some_conv split: if_splits
      dest!: ipv6_loop_length dest: ipv6_finish_length)

fun addr_ok :: "ip_addr \<Rightarrow> bool" where
  "addr_ok (AddrV4 b) = (length b = 4)"
| "addr_ok (AddrV6 b) = (length b = 16)"

lemma ParseAddr_ok: "ParseAddr s = Some a \<Longrightarrow> addr_ok a"
  by (auto simp: ParseAddr_def split: option.splits if_splits
      dest: parse_ipv4_length parse_ipv6_length)

lemma length_CIDRMask [simp]: "length (CIDRMask n bits) = bits div 8"
  by (simp add: CIDRMask_def)

lemma IP_Mask_v4:
  "length b = 4 \<Longrightarrow>
     IP_Mask (v4InV6Prefix @ b) (CIDRMask n 32) = Some (map2 (AND) b (CIDRMask n 32))"
  by (simp add: IP_Mask_def)

lemma IP_Mask_v6:
  "length b = 16 \<Longrightarrow> IP_Mask b (CIDRMask n 128) = Some (map2 (AND) b (CIDRMask n 128))"
  by (simp add: IP_Mask_def)

text \<open>What \<open>ParseCIDR\<close> returns, by the family of the address.\<close>

lemma ParseCIDR_cases:
  assumes "ParseCIDR s = Some net"
  obtains (v4) b n where "length b = 4" "n \<le> 32"
      "net = \<lparr>net_IP = map2 (AND) b (CIDRMask n 32), net_Mask = CIDRMask n 32\<rparr>"
    | (v6) b n where "length b = 16" "n \<le> 128"
      "net = \<lparr>net_IP = map2 (AND) b (CIDRMask n 128), net_Mask = CIDRMask n 128\<rparr>"
proof -
  from assms obtain addr msk where c: "cut_at (CHR ''/'') s = Some (addr, msk)"
    by (auto simp: ParseCIDR_def split: option.splits)
  with assms obtain a where a: "ParseAddr addr = Some a"
    by (auto simp: ParseCIDR_def split: option.splits)
  with assms c obtain n where d: "dtoi msk = Some n" and n: "n \<le> BitLen a"
    by (auto simp: ParseCIDR_def split: option.splits if_splits)
  from assms a c d n have
      net: "net = \<lparr>net_IP = (case IP_Mask (As16 a) (CIDRMask n (BitLen a)) of None \<Rightarrow> [] | Some b \<Rightarrow> b),
        net_Mask = CIDRMask n (BitLen a)\<rparr>"
    by (simp add: ParseCIDR_def Let_def)
  from a have "addr_ok a" by (rule ParseAddr_ok)
  with n net v4 v6 show thesis
    by (cases a) (auto simp: IP_Mask_v4 IP_Mask_v6)
qed

lemma ParseCIDR_mask:
  assumes "ParseCIDR s = Some net" "cut_at (CHR ''/'') s = Some (addr, msk)" "dtoi msk = Some k"
  shows "net_Mask net = CIDRMask k 32 \<or> net_Mask net = CIDRMask k 128"
proof -
  from assms obtain a where a: "ParseAddr addr = Some a"
    by (auto simp: ParseCIDR_def split: option.splits)
  with assms have "net_Mask net = CIDRMask k (BitLen a)"
    by (auto simp: ParseCIDR_def Let_def split: if_splits)
  then show ?thesis using BitLen_cases [of a] by auto
qed

lemma dtoi_nat_str: "n < 0xFFFFFF \<Longrightarrow> dtoi (nat_str n) = Some n"
  by (auto simp: dtoi_def digits_val_nat_str list_all_iff nat_str_digits)

lemma ParseCIDR_str:
  assumes "n \<le> 32"
  shows "ParseCIDR (ipv4_str a b c d @ CHR ''/'' # nat_str n) =
    Some \<lparr>net_IP = map2 (AND) [a, b, c, d] (CIDRMask n 32), net_Mask = CIDRMask n 32\<rparr>"
proof -
  have "CHR ''/'' \<notin> set (ipv4_str a b c d)"
    using ipv4_str_chars by fastforce
  with assms show ?thesis
    by (simp add: ParseCIDR_def cut_at_append ParseAddr_ipv4_str dtoi_nat_str IP_Mask_v4
        Let_def del: list.map zip_Cons_Cons)
qed

section \<open>Host and port\<close>

text \<open>\<open>net.SplitHostPort\<close>: the text before and after the last colon; a host with colons needs brackets,
  and brackets are allowed nowhere else. \<open>None\<close> is its error.\<close>

definition last_colon :: "string \<Rightarrow> (string \<times> string) option" where
  "last_colon s = map_option (\<lambda>(b, a). (rev a, rev b)) (cut_at (CHR '':'') (rev s))"

definition SplitHostPort :: "string \<Rightarrow> (string \<times> string) option" where
  "SplitHostPort s =
     (case last_colon s of
        None \<Rightarrow> None
      | Some (before, port) \<Rightarrow>
          if HasPrefix s ''['' then
            (case cut_at (CHR '']'') before of
               None \<Rightarrow> None
             | Some (host, rest) \<Rightarrow>
                 if rest = [] \<and> CHR ''['' \<notin> set (tl host @ port) \<and> CHR '']'' \<notin> set port
                 then Some (tl host, port) else None)
          else if CHR '':'' \<in> set before \<or> CHR ''['' \<in> set s \<or> CHR '']'' \<in> set s then None
          else Some (before, port))"

end
