(* ===== verification/Values.thy ===== *)
theory Values
  imports GoNet
begin

text \<open>
  The data both sides of the firewall share, with the layouts of \<open>bpf/maps.h\<close>,
  \<open>control/ebpf/values.go\<close> and the generated \<open>control/ebpf/firewall_bpf.go\<close>: keys and values
  of the six maps, the record of the maps' contents, and the enumerations of
  \<open>control/ebpf/action.go\<close> and \<open>control/ebpf/config.go\<close> with their parsers and names.
  Padding fields are zero on both sides (theory \<open>Layout\<close>) and are not part of the records.
\<close>

section \<open>Keys and values\<close>

record ruleValue =
  rv_Action :: u32
  rv_Priority :: u32

record firewallIpv4LpmKey =
  lk_Prefixlen :: u32
  lk_Data :: u32

record firewallPortRuleKey =
  pk_Protocol :: u8
  pk_Dport :: u16
  pk_Sport :: u16
  pk_Dst :: u32

record ctKey =
  ck_Saddr :: u32
  ck_Daddr :: u32
  ck_Sport :: u16
  ck_Dport :: u16
  ck_Protocol :: u8

record ctValue =
  cv_LastSeen :: u64
  cv_State :: u32

record counterValue =
  cnt_Packets :: u64
  cnt_Bytes :: u64

text \<open>The contents of the six maps of \<open>bpf/maps.h\<close>.\<close>

record fw_maps =
  blocked_ips :: "firewallIpv4LpmKey \<rightharpoonup> ruleValue"
  port_policy :: "firewallPortRuleKey \<rightharpoonup> ruleValue"
  conntrack :: "ctKey \<rightharpoonup> ctValue"
  counters :: "u32 \<rightharpoonup> counterValue"
  firewall_config :: "u32 \<rightharpoonup> u32"
  rule_presence :: "u32 \<rightharpoonup> u32"

section \<open>Enumerations\<close>

definition ActionPass :: u32 where "ActionPass = 0"
definition ActionDrop :: u32 where "ActionDrop = 1"

definition ParseAction :: "string \<Rightarrow> fw_error + u32" where
  "ParseAction s =
     (if s = '''' \<or> s = ''drop'' then Inr ActionDrop
      else if s = ''pass'' then Inr ActionPass
      else Inl (InvalidAction s))"

definition Action_String :: "u32 \<Rightarrow> string" where
  "Action_String a = (if a = ActionPass then ''pass'' else ''drop'')"

definition DefaultAllow :: u32 where "DefaultAllow = 0"
definition DefaultDeny :: u32 where "DefaultDeny = 1"

definition ParseDefaultPolicy :: "string \<Rightarrow> fw_error + u32" where
  "ParseDefaultPolicy s =
     (if s = '''' \<or> s = ''allow'' then Inr DefaultAllow
      else if s = ''deny'' then Inr DefaultDeny
      else Inl (InvalidDefaultPolicy s))"

definition DefaultPolicy_String :: "u32 \<Rightarrow> string" where
  "DefaultPolicy_String p = (if p = DefaultDeny then ''deny'' else ''allow'')"

definition ctStateNew :: u32 where "ctStateNew = 1"
definition ctStateEstablished :: u32 where "ctStateEstablished = 2"
definition ctStateClosed :: u32 where "ctStateClosed = 3"

definition ctStateString :: "u32 \<Rightarrow> string" where
  "ctStateString st =
     (if st = ctStateNew then ''new''
      else if st = ctStateEstablished then ''established''
      else if st = ctStateClosed then ''closed''
      else ''unknown'')"

definition portAnyProtocol :: u8 where "portAnyProtocol = 0"
definition portAnyPort :: u16 where "portAnyPort = 0"
definition protoTCP :: u8 where "protoTCP = 6"
definition protoUDP :: u8 where "protoUDP = 17"

lemmas enum_defs = ActionPass_def ActionDrop_def DefaultAllow_def DefaultDeny_def
  ctStateNew_def ctStateEstablished_def ctStateClosed_def
  portAnyProtocol_def portAnyPort_def protoTCP_def protoUDP_def

text \<open>Every accepted action is one of the two, and its name parses back to it.\<close>

lemma ParseAction_cases: "ParseAction s = Inr a \<Longrightarrow> a = ActionPass \<or> a = ActionDrop"
  by (auto simp: ParseAction_def split: if_splits)

lemma ParseAction_String: "ParseAction s = Inr a \<Longrightarrow> ParseAction (Action_String a) = Inr a"
  by (auto simp: ParseAction_def Action_String_def enum_defs split: if_splits)

lemma ParseDefaultPolicy_String:
  "ParseDefaultPolicy s = Inr p \<Longrightarrow> ParseDefaultPolicy (DefaultPolicy_String p) = Inr p"
  by (auto simp: ParseDefaultPolicy_def DefaultPolicy_String_def enum_defs split: if_splits)

section \<open>LPM keys\<close>

text \<open>
  The \<open>data\<close> field of an LPM key holds the address bytes in memory order, so byte \<open>i\<close> of
  the word is octet \<open>i\<close> of the address. \<open>prefix_mask n\<close> is the same layout of a prefix mask.
\<close>

definition data_bytes :: "u32 \<Rightarrow> u8 list" where
  "data_bytes d = [byte_of 0 d, byte_of 1 d, byte_of 2 d, byte_of 3 d]"

definition prefix_mask :: "nat \<Rightarrow> u32" where
  "prefix_mask n =
     (let m = cidr_bytes 4 n in le32 (m ! 0) (m ! 1) (m ! 2) (m ! 3))"

definition lpm_key :: "nat \<Rightarrow> u32 \<Rightarrow> firewallIpv4LpmKey" where
  "lpm_key n q = \<lparr>lk_Prefixlen = of_nat n, lk_Data = q AND prefix_mask n\<rparr>"

text \<open>A canonical key: at most 32 bits of prefix, host bits zero.\<close>

definition canon_key :: "firewallIpv4LpmKey \<Rightarrow> bool" where
  "canon_key k \<longleftrightarrow> unat (lk_Prefixlen k) \<le> 32 \<and>
     lk_Data k AND prefix_mask (unat (lk_Prefixlen k)) = lk_Data k"

text \<open>An entry covers an address when the address agrees with it on the entry's prefix.\<close>

definition covers :: "firewallIpv4LpmKey \<Rightarrow> u32 \<Rightarrow> bool" where
  "covers k q \<longleftrightarrow> q AND prefix_mask (unat (lk_Prefixlen k)) = lk_Data k"

lemma byte_of_and [simp]: "byte_of i (x AND y) = byte_of i x AND byte_of i y"
  unfolding byte_of_def by (rule bit_word_eqI) (auto simp: bit_simps)

lemma data_bytes_le32 [simp]: "data_bytes (le32 a b c d) = [a, b, c, d]"
  by (simp add: data_bytes_def)

lemma list_of_nth_4: "length m = 4 \<Longrightarrow> [m ! 0, m ! Suc 0, m ! 2, m ! 3] = m"
  by (auto simp: numeral_eq_Suc length_Suc_conv)

lemma data_bytes_prefix_mask [simp]: "data_bytes (prefix_mask n) = cidr_bytes 4 n"
  using list_of_nth_4 [of "cidr_bytes 4 n"] by (simp add: prefix_mask_def Let_def)

lemma data_bytes_eq_iff: "data_bytes x = data_bytes y \<longleftrightarrow> x = y"
  by (metis (no_types, lifting) data_bytes_def le32_bytes list.inject)

lemma data_bytes_and: "data_bytes (x AND y) = map2 (AND) (data_bytes x) (data_bytes y)"
  by (simp add: data_bytes_def)

lemma covers_bytes:
  "covers k q \<longleftrightarrow>
     map2 (AND) (data_bytes q) (cidr_bytes 4 (unat (lk_Prefixlen k))) = data_bytes (lk_Data k)"
  unfolding covers_def data_bytes_eq_iff [symmetric] data_bytes_and data_bytes_prefix_mask ..

lemma canon_key_bytes:
  "canon_key k \<longleftrightarrow> unat (lk_Prefixlen k) \<le> 32 \<and>
     map2 (AND) (data_bytes (lk_Data k)) (cidr_bytes 4 (unat (lk_Prefixlen k))) = data_bytes (lk_Data k)"
  unfolding canon_key_def data_bytes_prefix_mask [symmetric] data_bytes_and [symmetric]
    data_bytes_eq_iff ..

lemma canon_key_covers_self: "canon_key k \<Longrightarrow> covers k (lk_Data k)"
  by (simp add: canon_key_def covers_def)

lemma unat_of_nat_u32 [simp]: "n \<le> 32 \<Longrightarrow> unat (of_nat n :: u32) = n"
  by (simp add: unat_of_nat)

lemma canon_lpm_key: "n \<le> 32 \<Longrightarrow> canon_key (lpm_key n q)"
  by (simp add: canon_key_def lpm_key_def and.assoc)

lemma covers_lpm_key: "n \<le> 32 \<Longrightarrow> covers (lpm_key n q) q"
  by (simp add: covers_def lpm_key_def)

lemma covers_is_lpm_key:
  "covers k q \<Longrightarrow> unat (lk_Prefixlen k) \<le> 32 \<Longrightarrow> k = lpm_key (unat (lk_Prefixlen k)) q"
  by (cases k) (simp add: covers_def lpm_key_def)

end
