(* ===== verification/BpfMaps.thy ===== *)
theory BpfMaps
  imports Values
begin

text \<open>
  The interface of \<open>github.com/cilium/ebpf\<close> the managers use. That library and the kernel
  behind it are not part of the repository: a \<open>*ebpf.Map\<close> is a \<^emph>\<open>parameter\<close>, a record of the
  operations the managers call on a world \<open>'w\<close> of kernel state (\<open>Lookup\<close>, \<open>Put\<close>,
  \<open>Delete\<close>, \<open>Iterate\<close> and the iterator's \<open>Next\<close>/\<open>Err\<close>). The locale \<open>bpf_map\<close> below is
  what the managers rely on: each law is documented behaviour of the library or of bpf(2).
  The laws speak about the contents of the maps through \<open>view\<close>, the record of the six maps'
  contents that a world shows, so that an operation on one map says what it leaves alone.
\<close>

section \<open>Handles\<close>

text \<open>
  One call of \<open>iter.Next\<close>: \<open>Yield k v it\<close> is \<open>true\<close> with the decoded entry and the
  advanced iterator, \<open>Done e\<close> is \<open>false\<close> with \<open>iter.Err()\<close> being \<open>e\<close>.
\<close>

datatype ('i, 'k, 'v) next_result = Done "map_err option" | Yield 'k 'v 'i

record ('w, 'i, 'k, 'v) bpf_handle =
  m_max_entries :: nat
  m_lookup :: "'w \<Rightarrow> 'k \<Rightarrow> map_err + 'v"
  m_put :: "'w \<Rightarrow> 'k \<Rightarrow> 'v \<Rightarrow> 'w \<times> map_err option"
  m_delete :: "'w \<Rightarrow> 'k \<Rightarrow> 'w \<times> map_err option"
  m_iterate :: "'w \<Rightarrow> 'i"
  m_next :: "'w \<Rightarrow> 'i \<Rightarrow> ('i, 'k, 'v) next_result"
  m_close :: "'w \<Rightarrow> 'w \<times> sys_err option"

text \<open>
  The loop \<open>for iter.Next(&key, &value) { \<dots> }\<close> over a map its body does not modify: the
  entries it sees and the final \<open>iter.Err()\<close>. The bound is the library's own: an iterator
  gives up with \<open>ErrIterationAborted\<close> once it has gone past \<open>MaxEntries\<close> entries, so a
  loop makes at most \<open>Suc MaxEntries\<close> successful calls.
\<close>

fun iter_list ::
    "('w, 'i, 'k, 'v) bpf_handle \<Rightarrow> nat \<Rightarrow> 'w \<Rightarrow> 'i \<Rightarrow> ('k \<times> 'v) list \<times> map_err option" where
  "iter_list M 0 w it = ([], Some ErrIterationAborted)"
| "iter_list M (Suc n) w it =
     (case m_next M w it of
        Done e \<Rightarrow> ([], e)
      | Yield k v it' \<Rightarrow> (case iter_list M n w it' of (es, e) \<Rightarrow> ((k, v) # es, e)))"

definition iterate_all ::
    "('w, 'i, 'k, 'v) bpf_handle \<Rightarrow> 'w \<Rightarrow> ('k \<times> 'v) list \<times> map_err option" where
  "iterate_all M w = iter_list M (m_max_entries M + 2) w (m_iterate M w)"

text \<open>
  The loop \<open>for iter.Next(&key, &value) { if err := m.Delete(key); err != nil { return err } }\<close>
  of the two rule managers' \<open>Clear\<close>: each call reads the map as the deletions left it.
\<close>

fun iter_delete ::
    "('w, 'i, 'k, 'v) bpf_handle \<Rightarrow> nat \<Rightarrow> 'w \<Rightarrow> 'i \<Rightarrow> 'w \<times> map_err option" where
  "iter_delete M 0 w it = (w, Some ErrIterationAborted)"
| "iter_delete M (Suc n) w it =
     (case m_next M w it of
        Done e \<Rightarrow> (w, e)
      | Yield k v it' \<Rightarrow>
          (case m_delete M w k of
             (w', Some e) \<Rightarrow> (w', Some e)
           | (w', None) \<Rightarrow> iter_delete M n w' it'))"

definition delete_all :: "('w, 'i, 'k, 'v) bpf_handle \<Rightarrow> 'w \<Rightarrow> 'w \<times> map_err option" where
  "delete_all M w = iter_delete M (m_max_entries M + 2) w (m_iterate M w)"

text \<open>The loop \<open>for _, k := range keys { if err := m.Delete(k); err != nil \<dots> }\<close> over a snapshot
  of keys, with the number of keys deleted before it ended.\<close>

fun delete_keys ::
    "('w, 'i, 'k, 'v) bpf_handle \<Rightarrow> 'k list \<Rightarrow> 'w \<Rightarrow> 'w \<times> nat \<times> map_err option" where
  "delete_keys M [] w = (w, 0, None)"
| "delete_keys M (k # ks) w =
     (case m_delete M w k of
        (w', Some e) \<Rightarrow> (w', 0, Some e)
      | (w', None) \<Rightarrow> (case delete_keys M ks w' of (w'', n, e) \<Rightarrow> (w'', Suc n, e)))"

section \<open>What the managers rely on\<close>

text \<open>
  \<open>get\<close> and \<open>upd\<close> select the map in the view. \<open>sel\<close> is what a lookup finds in given
  contents: the entry itself for hash and array maps, a longest-prefix match for the LPM trie.
  \<open>canon\<close> says which keys the map stores as given (an LPM trie ignores the host bits of
  others) and \<open>fits\<close> which keys the kernel accepts at all. \<open>cursor\<close> is the key an iterator
  yielded last. The laws:
  \<^item> a lookup returns what \<open>sel\<close> finds, and says \<open>ErrKeyNotExist\<close> only if that is nothing;
  \<^item> a successful \<open>Put\<close> or \<open>Delete\<close> of a canonical key changes exactly that entry of that
    map, a failed one changes nothing, and keys that do not fit fail;
  \<^item> a successful \<open>Delete\<close> had something to delete;
  \<^item> \<open>Next\<close> yields entries of the map, and reports the end of the map without error only when
    its last key is still there or the map is empty (bpf(2), \<open>BPF_MAP_GET_NEXT_KEY\<close>: an unknown
    key restarts at the first key);
  \<^item> a loop over an unmodified map that ends without error saw every entry exactly once.
\<close>

locale bpf_map =
  fixes view :: "'w \<Rightarrow> fw_maps"
    and get :: "fw_maps \<Rightarrow> ('k \<rightharpoonup> 'v)"
    and upd :: "('k \<rightharpoonup> 'v) \<Rightarrow> fw_maps \<Rightarrow> fw_maps"
    and sel :: "('k \<rightharpoonup> 'v) \<Rightarrow> 'k \<Rightarrow> 'v option"
    and canon :: "'k \<Rightarrow> bool"
    and fits :: "'k \<Rightarrow> bool"
    and cursor :: "'i \<Rightarrow> 'k option"
    and M :: "('w, 'i, 'k, 'v) bpf_handle"
  assumes get_upd: "get (upd c m) = c"
    and upd_upd: "upd c (upd c' m) = upd c m"
    and upd_get: "upd (get m) m = m"
    and canon_fits: "canon k \<Longrightarrow> fits k"
    and lookup_found: "m_lookup M w k = Inr v \<Longrightarrow> sel (get (view w)) k = Some v"
    and lookup_missing:
      "m_lookup M w k = Inl e \<Longrightarrow> errors_Is e ErrKeyNotExist \<Longrightarrow> sel (get (view w)) k = None"
    and put_ok: "m_put M w k v = (w', None) \<Longrightarrow> canon k \<Longrightarrow>
      view w' = upd ((get (view w))(k \<mapsto> v)) (view w)"
    and put_fits: "m_put M w k v = (w', None) \<Longrightarrow> fits k"
    and put_err: "m_put M w k v = (w', Some e) \<Longrightarrow> view w' = view w"
    and delete_ok: "m_delete M w k = (w', None) \<Longrightarrow> canon k \<Longrightarrow>
      k \<in> dom (get (view w)) \<and> view w' = upd ((get (view w))(k := None)) (view w)"
    and delete_fits: "m_delete M w k = (w', None) \<Longrightarrow> fits k"
    and delete_err: "m_delete M w k = (w', Some e) \<Longrightarrow> view w' = view w"
    and iterate_start: "cursor (m_iterate M w) = None"
    and next_entry: "m_next M w it = Yield k v it' \<Longrightarrow>
      get (view w) k = Some v \<and> cursor it' = Some k"
    and next_end: "m_next M w it = Done None \<Longrightarrow>
      (\<And>k. cursor it = Some k \<Longrightarrow> get (view w) k = None) \<Longrightarrow> get (view w) = Map.empty"
    and iterate_all_complete: "iterate_all M w = (es, None) \<Longrightarrow>
      distinct (map fst es) \<and> (\<forall>k v. (k, v) \<in> set es \<longleftrightarrow> get (view w) k = Some v)"
begin

definition entries_canon :: "'w \<Rightarrow> bool" where
  "entries_canon w \<longleftrightarrow> (\<forall>k \<in> dom (get (view w)). canon k)"

lemma put_cases:
  assumes "canon k"
  obtains (ok) w' where "m_put M w k v = (w', None)" "view w' = upd ((get (view w))(k \<mapsto> v)) (view w)"
    | (err) w' e where "m_put M w k v = (w', Some e)" "view w' = view w"
  using assms put_ok put_err by (cases "m_put M w k v"; cases "snd (m_put M w k v)") auto

lemma delete_cases:
  assumes "canon k"
  obtains (ok) w' where "m_delete M w k = (w', None)" "k \<in> dom (get (view w))"
      "view w' = upd ((get (view w))(k := None)) (view w)"
    | (err) w' e where "m_delete M w k = (w', Some e)" "view w' = view w"
  using assms delete_ok delete_err by (cases "m_delete M w k"; cases "snd (m_delete M w k)") auto

lemma iterate_all_map_of:
  assumes "iterate_all M w = (es, None)"
  shows "distinct (map fst es) \<and> map_of es = get (view w)"
proof -
  from iterate_all_complete [OF assms] have d: "distinct (map fst es)"
    and e: "\<And>k v. (k, v) \<in> set es \<longleftrightarrow> get (view w) k = Some v" by auto
  have "map_of es k = get (view w) k" for k
    using map_of_eq_Some_iff [OF d, of k] e [of k]
    by (cases "get (view w) k"; cases "map_of es k") auto
  with d show ?thesis by auto
qed

lemma upd_same: "view w' = upd c (view w) \<Longrightarrow> get (view w') = c"
  by (simp add: get_upd)

text \<open>The deleting loop: whatever its outcome, only this map changes and only by losing entries;
  when it ends without error the map is empty.\<close>

lemma iter_delete_effect:
  assumes "iter_delete M n w it = (w', e)" "entries_canon w"
    "\<And>k. cursor it = Some k \<Longrightarrow> get (view w) k = None"
  shows "(\<exists>c. view w' = upd c (view w) \<and> c \<subseteq>\<^sub>m get (view w)) \<and>
    (e = None \<longrightarrow> get (view w') = Map.empty)"
  using assms
proof (induction n arbitrary: w it)
  case 0
  then show ?case by (auto intro!: exI [of _ "get (view w)"] simp: upd_get)
next
  case (Suc n)
  show ?case
  proof (cases "m_next M w it")
    case (Done e')
    with Suc.prems have "w' = w" "e = e'" by simp_all
    with Done Suc.prems(3) next_end [of w it] show ?thesis
      by (auto intro!: exI [of _ "get (view w)"] simp: upd_get)
  next
    case (Yield k v it')
    then have k: "get (view w) k = Some v" and c: "cursor it' = Some k"
      using next_entry by blast+
    with Suc.prems(2) have "canon k" by (auto simp: entries_canon_def)
    then show ?thesis
    proof (cases rule: delete_cases [of k w])
      case (ok w1)
      with Yield Suc.prems have r: "iter_delete M n w1 it' = (w', e)" by simp
      from ok have g: "get (view w1) = (get (view w))(k := None)" by (simp add: get_upd)
      with Suc.prems(2) have "entries_canon w1" by (auto simp: entries_canon_def)
      moreover have "get (view w1) k' = None" if "cursor it' = Some k'" for k'
        using that c g by simp
      ultimately obtain d where
          d: "view w' = upd d (view w1)" "d \<subseteq>\<^sub>m get (view w1)" "e = None \<longrightarrow> get (view w') = Map.empty"
        using Suc.IH [OF r] by blast
      have "d \<subseteq>\<^sub>m get (view w)" using d(2) g map_le_trans upd_None_map_le by metis
      with d ok show ?thesis by (auto simp: upd_upd)
    next
      case (err w1 e1)
      with Yield Suc.prems show ?thesis
        by (auto intro!: exI [of _ "get (view w)"] simp: upd_get)
    qed
  qed
qed

lemma delete_all_effect:
  assumes "delete_all M w = (w', e)" "entries_canon w"
  shows "(\<exists>c. view w' = upd c (view w) \<and> c \<subseteq>\<^sub>m get (view w)) \<and>
    (e = None \<longrightarrow> get (view w') = Map.empty)"
  using assms(1) unfolding delete_all_def
  by (rule iter_delete_effect) (simp_all add: assms(2) iterate_start)

lemma delete_keys_effect:
  assumes "delete_keys M ks w = (w', n, e)" "\<forall>k \<in> set ks. canon k"
  shows "view w' = upd (get (view w) |` (- set (take n ks))) (view w) \<and> n \<le> length ks \<and>
    (e = None \<longrightarrow> n = length ks)"
  using assms
proof (induction ks arbitrary: w n)
  case Nil
  then show ?case by (simp add: upd_get)
next
  case (Cons k ks)
  then have "canon k" by simp
  then show ?case
  proof (cases rule: delete_cases [of k w])
    case (ok w1)
    with Cons.prems obtain m where r: "delete_keys M ks w1 = (w', m, e)" and n: "n = Suc m"
      by (auto split: prod.splits)
    with Cons ok show ?thesis
      by (auto simp: get_upd upd_upd intro!: arg_cong [where f = "\<lambda>c. upd c (view w)"])
        (auto simp: restrict_map_def)
  next
    case (err w1 e1)
    with Cons.prems show ?thesis by (auto simp: upd_get)
  qed
qed

end

end
