(* ===== verification/Bindings.thy ===== *)
theory Bindings
  imports BpfMaps
begin

text \<open>
  \<open>control/ebpf/firewall_bpf.go\<close>: the bindings bpf2go generated and the repository keeps: loading
  the embedded program into the kernel, and closing what was loaded. The collection library is a
  parameter: \<open>LoadCollectionSpecFromReader\<close> of the embedded bytes, \<open>LoadAndAssign\<close> of a
  specification (named by a number) and \<open>Close\<close> of the program; a map's \<open>Close\<close> is in its handle.
\<close>

text \<open>\<open>firewallObjects\<close> embeds the structs of the program and of the maps.\<close>

record ('w, 'i) firewallObjects =
  fo_FirewallProg :: nat
  fo_BlockedIps :: "('w, 'i, firewallIpv4LpmKey, ruleValue) bpf_handle"
  fo_Conntrack :: "('w, 'i, ctKey, ctValue) bpf_handle"
  fo_Counters :: "('w, 'i, u32, counterValue) bpf_handle"
  fo_FirewallConfig :: "('w, 'i, u32, u32) bpf_handle"
  fo_PortPolicy :: "('w, 'i, firewallPortRuleKey, ruleValue) bpf_handle"
  fo_RulePresence :: "('w, 'i, u32, u32) bpf_handle"

record ('w, 'i) collection_env =
  ce_LoadCollectionSpec :: "sys_err + nat"
  ce_LoadAndAssign :: "nat \<Rightarrow> 'w \<Rightarrow> 'w \<times> (sys_err + ('w, 'i) firewallObjects)"
  ce_progClose :: "nat \<Rightarrow> 'w \<Rightarrow> 'w \<times> sys_err option"

definition loadFirewall :: "('w, 'i) collection_env \<Rightarrow> sys_err + nat" where
  "loadFirewall env =
     (case ce_LoadCollectionSpec env of Inl err \<Rightarrow> Inl err | Inr spec \<Rightarrow> Inr spec)"

definition loadFirewallObjects ::
    "('w, 'i) collection_env \<Rightarrow> 'w \<Rightarrow> 'w \<times> (sys_err + ('w, 'i) firewallObjects)" where
  "loadFirewallObjects env w =
     (case loadFirewall env of
        Inl err \<Rightarrow> (w, Inl err)
      | Inr spec \<Rightarrow> ce_LoadAndAssign env spec w)"

type_synonym 'w closer = "'w \<Rightarrow> 'w \<times> sys_err option"

fun FirewallClose :: "'w closer list \<Rightarrow> 'w closer" where
  "FirewallClose [] w = (w, None)"
| "FirewallClose (closer # closers) w =
     (case closer w of
        (w1, Some err) \<Rightarrow> (w1, Some err)
      | (w1, None) \<Rightarrow> FirewallClose closers w1)"

definition firewallPrograms_Close :: "('w, 'i) collection_env \<Rightarrow> ('w, 'i) firewallObjects \<Rightarrow> 'w closer" where
  "firewallPrograms_Close env p = FirewallClose [ce_progClose env (fo_FirewallProg p)]"

definition firewallMaps_Close :: "('w, 'i) firewallObjects \<Rightarrow> 'w closer" where
  "firewallMaps_Close m =
     FirewallClose
       [m_close (fo_BlockedIps m), m_close (fo_Conntrack m), m_close (fo_Counters m),
        m_close (fo_FirewallConfig m), m_close (fo_PortPolicy m), m_close (fo_RulePresence m)]"

definition firewallObjects_Close :: "('w, 'i) collection_env \<Rightarrow> ('w, 'i) firewallObjects \<Rightarrow> 'w closer" where
  "firewallObjects_Close env fo = FirewallClose [firewallPrograms_Close env fo, firewallMaps_Close fo]"

section \<open>What closing does\<close>

text \<open>The seven closers, in the order of the code.\<close>

definition object_closers :: "('w, 'i) collection_env \<Rightarrow> ('w, 'i) firewallObjects \<Rightarrow> 'w closer list" where
  "object_closers env fo =
     [ce_progClose env (fo_FirewallProg fo), m_close (fo_BlockedIps fo), m_close (fo_Conntrack fo),
      m_close (fo_Counters fo), m_close (fo_FirewallConfig fo), m_close (fo_PortPolicy fo),
      m_close (fo_RulePresence fo)]"

definition close_all :: "'w closer list \<Rightarrow> 'w \<Rightarrow> 'w" where
  "close_all cs w = fold (\<lambda>c w. fst (c w)) cs w"

lemma FirewallClose_append:
  "FirewallClose (xs @ ys) w =
     (case FirewallClose xs w of (w1, Some err) \<Rightarrow> (w1, Some err) | (w1, None) \<Rightarrow> FirewallClose ys w1)"
  by (induction xs arbitrary: w) (auto split: prod.splits option.splits)

lemma FirewallClose_nested: "FirewallClose [FirewallClose xs, FirewallClose ys] w = FirewallClose (xs @ ys) w"
  by (simp add: FirewallClose_append split: prod.split option.split)

lemma objects_closed: "firewallObjects_Close env fo w = FirewallClose (object_closers env fo) w"
  unfolding firewallObjects_Close_def firewallPrograms_Close_def firewallMaps_Close_def
    object_closers_def FirewallClose_nested by simp

text \<open>The calls made are a prefix of the closers; without an error it is all of them, with one it ends
  at the closer that failed: the objects behind it stay open.\<close>

lemma FirewallClose_prefix:
  assumes "FirewallClose cs w = (w', e)"
  shows "(e = None \<and> w' = close_all cs w) \<or>
    (\<exists>n < length cs. w' = close_all (take (Suc n) cs) w \<and> e \<noteq> None \<and>
       snd ((cs ! n) (close_all (take n cs) w)) = e)"
  using assms
proof (induction cs arbitrary: w)
  case (Cons c cs)
  obtain w1 e1 where c: "c w = (w1, e1)" by fastforce
  show ?case
  proof (cases e1)
    case None
    with Cons.prems c have "FirewallClose cs w1 = (w', e)" by simp
    from Cons.IH [OF this] show ?thesis
    proof
      assume "e = None \<and> w' = close_all cs w1"
      with c show ?thesis by (simp add: close_all_def)
    next
      assume "\<exists>n < length cs. w' = close_all (take (Suc n) cs) w1 \<and> e \<noteq> None \<and>
        snd ((cs ! n) (close_all (take n cs) w1)) = e"
      then obtain n where "n < length cs" "w' = close_all (take (Suc n) cs) w1" "e \<noteq> None"
        "snd ((cs ! n) (close_all (take n cs) w1)) = e" by blast
      with c show ?thesis by (intro disjI2 exI [of _ "Suc n"]) (simp add: close_all_def)
    qed
  next
    case (Some err)
    with Cons.prems c have "w' = w1" "e = Some err" by simp_all
    with c Some show ?thesis
      by (intro disjI2 exI [of _ 0]) (simp add: close_all_def)
  qed
qed (simp add: close_all_def)

end
