(* ===== verification/Rules.thy ===== *)
theory Rules
  imports GoNet
begin

text \<open>
  \<open>control/rules/parser.go\<close>: the one parser of IP rules, \<open>ParseIPOrCIDR\<close>, statement for
  statement, and what every accepted string denotes: a four-byte address with a mask, normalised
  (host bits zero) whenever the mask is an IPv4 one.
\<close>

definition ParseIPOrCIDR :: "string \<Rightarrow> fw_error + IPNet" where
  "ParseIPOrCIDR cidrStr =
     (let s = TrimSpace cidrStr in
      if s = [] then Inl EmptyAddress
      else if CHR ''/'' \<notin> set s then
        (case ParseIP s of
           None \<Rightarrow> Inl (InvalidIPAddress s)
         | Some ip \<Rightarrow>
             (case To4 ip of
                None \<Rightarrow> Inl (OnlyIPv4Supported s)
              | Some ipv4 \<Rightarrow>
                  (case ParseCIDR (s @ ''/32'') of
                     None \<Rightarrow> Inl (InvalidIPOrCIDR s)
                   | Some ipNet \<Rightarrow> Inr \<lparr>net_IP = ipv4, net_Mask = net_Mask ipNet\<rparr>)))
      else
        (case ParseCIDR s of
           None \<Rightarrow> Inl (InvalidCIDR s)
         | Some ipNet \<Rightarrow>
             (case To4 (net_IP ipNet) of
                None \<Rightarrow> Inl (OnlyIPv4Supported s)
              | Some ipv4 \<Rightarrow> Inr (ipNet\<lparr>net_IP := ipv4\<rparr>))))"

section \<open>What an accepted string denotes\<close>

lemma cidr_bytes_16_byte11: "n \<le> 128 \<Longrightarrow> cidr_bytes 16 n ! 11 = 0xFF \<Longrightarrow> 96 \<le> n"
proof -
  have "list_all (\<lambda>n. cidr_bytes 16 n ! 11 \<noteq> 0xFF) [0..<96]" by code_simp
  then show "cidr_bytes 16 n ! 11 = 0xFF \<Longrightarrow> 96 \<le> n"
    by (auto simp: list_all_iff not_le [symmetric])
qed

lemma and_eq_FF:
  assumes "x AND y = (0xFF :: u8)"
  shows "y = 0xFF"
proof (rule bit_word_eqI)
  fix n assume n: "n < LENGTH(8)"
  have ff: "bit (0xFF :: u8) n"
    using n bit_mask_iff [where 'a = u8, of 8 n] by (simp add: mask_eq_exp_minus_1 bit_simps)
  have "bit (x AND y) n = bit (0xFF :: u8) n" using assms by simp
  then show "bit y n = bit (0xFF :: u8) n" using ff by (simp add: bit_simps)
qed

lemma masked_v6_mapped:
  assumes "length b = 16" "n \<le> 128" "To4 (map2 (AND) b (CIDRMask n 128)) = Some v"
  shows "96 \<le> n"
proof -
  from assms have "take 12 (map2 (AND) b (CIDRMask n 128)) = v4InV6Prefix"
    by (auto simp: To4_def split: if_splits)
  then have "take 12 (map2 (AND) b (CIDRMask n 128)) ! 11 = v4InV6Prefix ! 11" by simp
  then have "b ! 11 AND cidr_bytes 16 n ! 11 = 0xFF"
    using assms(1) by (simp add: CIDRMask_def v4InV6Prefix_def)
  then show ?thesis
    using assms(2) and_eq_FF cidr_bytes_16_byte11 by blast
qed

text \<open>An address is normalised for a prefix length when masking it changes nothing.\<close>

definition normalized :: "u8 list \<Rightarrow> nat \<Rightarrow> bool" where
  "normalized ip n \<longleftrightarrow> map2 (AND) ip (cidr_bytes 4 n) = ip"

lemma normalized_masked: "length b = 4 \<Longrightarrow> normalized (map2 (AND) b (cidr_bytes 4 n)) n"
  by (auto simp: normalized_def list_eq_iff_nth_eq and.assoc)

lemma u8_and_255 [simp]: "x AND 255 = (x :: u8)"
proof -
  have "(255 :: u8) = - 1" by simp
  then show ?thesis by (simp only: bit.conj_one_right)
qed

lemma normalized_32: "length b = 4 \<Longrightarrow> normalized b 32"
  by (auto simp: normalized_def list_eq_iff_nth_eq numeral_eq_Suc less_Suc_eq)

lemma ParseIPOrCIDR_denotes:
  assumes "ParseIPOrCIDR s = Inr net"
  shows "length (net_IP net) = 4 \<and>
    (fst (Mask_Size (net_Mask net)) \<le> 32 \<and> normalized (net_IP net) (fst (Mask_Size (net_Mask net)))
     \<or> 96 \<le> fst (Mask_Size (net_Mask net)) \<and> length (net_Mask net) = 16)"
proof (cases "CHR ''/'' \<in> set (TrimSpace s)")
  case False
  with assms obtain ip ipv4 n where "To4 ip = Some ipv4" and
      p: "ParseCIDR (TrimSpace s @ ''/32'') = Some n" and
      net: "net = \<lparr>net_IP = ipv4, net_Mask = net_Mask n\<rparr>"
    by (auto simp: ParseIPOrCIDR_def Let_def split: if_splits option.splits)
  then have len: "length (net_IP net) = 4" by (simp add: To4_length)
  have d: "dtoi ''32'' = Some 32" by (simp add: dtoi_def is_digit_def digit_val_def)
  from False have c: "cut_at (CHR ''/'') (TrimSpace s @ ''/32'') = Some (TrimSpace s, ''32'')"
    by (rule cut_at_append)
  have "net_Mask n = CIDRMask 32 32 \<or> net_Mask n = CIDRMask 32 128"
    by (rule ParseCIDR_mask [OF p c d])
  then have "fst (Mask_Size (net_Mask net)) = 32"
    by (elim disjE) (simp_all add: net)
  with len show ?thesis by (simp add: normalized_32)
next
  case True
  with assms obtain n v where p: "ParseCIDR (TrimSpace s) = Some n" and v: "To4 (net_IP n) = Some v" and
      net: "net = n\<lparr>net_IP := v\<rparr>"
    by (auto simp: ParseIPOrCIDR_def Let_def split: if_splits option.splits)
  from v net have len: "length (net_IP net) = 4" by (simp add: To4_length)
  from p show ?thesis
  proof (cases rule: ParseCIDR_cases)
    case (v4 b k)
    then have "net_IP net = map2 (AND) b (cidr_bytes 4 k)" "net_Mask net = CIDRMask k 32"
      using v net by (simp_all add: CIDRMask_def To4_def)
    with len v4 show ?thesis
      by (simp add: normalized_masked)
  next
    case (v6 b k)
    then have "96 \<le> k" using v by (auto intro: masked_v6_mapped)
    with len v6 net show ?thesis by simp
  qed
qed

end
