(* ===== verification/Presence.thy ===== *)
theory Presence
  imports BpfMaps
begin

text \<open>
  \<open>control/ebpf/presence.go\<close>: the \<open>rule_presence\<close> flags with which the managers tell the
  datapath which rule tables it may skip, and the discipline both rule managers follow:
  \<^item> insert: set the bit, then put the entry;
  \<^item> remove: delete the entry, then make the bit match the table (\<open>syncPresence\<close>);
  \<^item> clear: delete every entry, then \<open>syncPresence\<close>.
  The locale \<open>rule_table\<close> states what a table with its flag relies on and proves once what the
  three sequences do to the maps, on success and on every failure.
\<close>

section \<open>The flag operations\<close>

definition rulePresenceIP :: u32 where "rulePresenceIP = 1"
definition rulePresencePort :: u32 where "rulePresencePort = 2"

definition presenceMapKey :: u32 where "presenceMapKey = 0"

type_synonym ('w, 'i) presence_handle = "('w, 'i, u32, u32) bpf_handle option"

definition setPresenceBit :: "('w, 'i) presence_handle \<Rightarrow> u32 \<Rightarrow> 'w \<Rightarrow> 'w \<times> map_err option" where
  "setPresenceBit presence b w =
     (case presence of
        None \<Rightarrow> (w, None)
      | Some P \<Rightarrow>
          (case m_lookup P w presenceMapKey of
             Inl err \<Rightarrow>
               if \<not> errors_Is err ErrKeyNotExist then (w, Some err)
               else m_put P w presenceMapKey (0 OR b)
           | Inr flags \<Rightarrow> m_put P w presenceMapKey (flags OR b)))"

definition clearPresenceBit :: "('w, 'i) presence_handle \<Rightarrow> u32 \<Rightarrow> 'w \<Rightarrow> 'w \<times> map_err option" where
  "clearPresenceBit presence b w =
     (case presence of
        None \<Rightarrow> (w, None)
      | Some P \<Rightarrow>
          (case m_lookup P w presenceMapKey of
             Inl err \<Rightarrow>
               if \<not> errors_Is err ErrKeyNotExist then (w, Some err)
               else m_put P w presenceMapKey (0 AND NOT b)
           | Inr flags \<Rightarrow> m_put P w presenceMapKey (flags AND NOT b)))"

definition mapHasEntries :: "('w, 'i, 'k, 'v) bpf_handle \<Rightarrow> 'w \<Rightarrow> map_err + bool" where
  "mapHasEntries M w =
     (case m_next M w (m_iterate M w) of
        Yield k v it \<Rightarrow> Inr True
      | Done (Some err) \<Rightarrow> Inl err
      | Done None \<Rightarrow> Inr False)"

text \<open>The common bodies of the two managers.\<close>

definition table_sync ::
    "('w, 'i, 'k, 'v) bpf_handle \<Rightarrow> ('w, 'i) presence_handle \<Rightarrow> u32 \<Rightarrow> 'w \<Rightarrow> 'w \<times> map_err option" where
  "table_sync M presence b w =
     (case mapHasEntries M w of
        Inl err \<Rightarrow> (w, Some err)
      | Inr has \<Rightarrow>
          if has then setPresenceBit presence b w else clearPresenceBit presence b w)"

definition table_insert ::
    "('w, 'i, 'k, 'v) bpf_handle \<Rightarrow> ('w, 'i) presence_handle \<Rightarrow> u32 \<Rightarrow> 'k \<Rightarrow> 'v \<Rightarrow> 'w
      \<Rightarrow> 'w \<times> map_err option" where
  "table_insert M presence b k v w =
     (case setPresenceBit presence b w of
        (w1, Some err) \<Rightarrow> (w1, Some err)
      | (w1, None) \<Rightarrow> m_put M w1 k v)"

definition table_remove ::
    "('w, 'i, 'k, 'v) bpf_handle \<Rightarrow> ('w, 'i) presence_handle \<Rightarrow> u32 \<Rightarrow> 'k \<Rightarrow> 'w
      \<Rightarrow> 'w \<times> map_err option" where
  "table_remove M presence b k w =
     (case m_delete M w k of
        (w1, Some err) \<Rightarrow> (w1, Some err)
      | (w1, None) \<Rightarrow> table_sync M presence b w1)"

definition table_clear ::
    "('w, 'i, 'k, 'v) bpf_handle \<Rightarrow> ('w, 'i) presence_handle \<Rightarrow> u32 \<Rightarrow> 'w
      \<Rightarrow> 'w \<times> map_err option" where
  "table_clear M presence b w =
     (case delete_all M w of
        (w1, Some err) \<Rightarrow> (w1, Some err)
      | (w1, None) \<Rightarrow> table_sync M presence b w1)"

section \<open>The flags in the maps\<close>

text \<open>The flags word as the datapath reads it: a missing entry counts as zero.\<close>

definition presence_flags :: "fw_maps \<Rightarrow> u32" where
  "presence_flags m = (case rule_presence m presenceMapKey of None \<Rightarrow> 0 | Some f \<Rightarrow> f)"

definition set_flags :: "u32 \<Rightarrow> fw_maps \<Rightarrow> fw_maps" where
  "set_flags f m = m\<lparr>rule_presence := (rule_presence m)(presenceMapKey \<mapsto> f)\<rparr>"

text \<open>The flags after \<open>syncPresence\<close>: one bit says whether its table has an entry.\<close>

definition sync_flags :: "u32 \<Rightarrow> bool \<Rightarrow> fw_maps \<Rightarrow> fw_maps" where
  "sync_flags b present m =
     set_flags (if present then presence_flags m OR b else presence_flags m AND NOT b) m"

text \<open>The maps after \<open>setPresenceBit\<close>.\<close>

definition advertise :: "u32 \<Rightarrow> fw_maps \<Rightarrow> fw_maps" where
  "advertise b m = set_flags (presence_flags m OR b) m"

definition bit_set :: "u32 \<Rightarrow> fw_maps \<Rightarrow> bool" where
  "bit_set b m \<longleftrightarrow> presence_flags m AND b \<noteq> 0"

lemma presence_flags_set [simp]: "presence_flags (set_flags f m) = f"
  by (simp add: presence_flags_def set_flags_def)

lemma or_and_self [simp]: "(f OR b) AND b = (b :: 'a::len word)"
  by (rule bit_word_eqI) (auto simp: bit_simps)

lemma and_not_and_self [simp]: "(f AND NOT b) AND b = (0 :: 'a::len word)"
  by (rule bit_word_eqI) (auto simp: bit_simps)

lemma or_and_other: "b AND c = 0 \<Longrightarrow> (f OR b) AND c = (f AND c :: 'a::len word)"
  by (simp add: bit.conj_disj_distrib2)

lemma and_not_and_other:
  assumes "b AND c = (0 :: 'a::len word)"
  shows "(f AND NOT b) AND c = f AND c"
proof (rule bit_word_eqI)
  fix n assume "n < LENGTH('a)"
  moreover have "\<not> (bit b n \<and> bit c n)"
    using arg_cong [OF assms, of "\<lambda>x. bit x n"] by (simp add: bit_simps)
  ultimately show "bit ((f AND NOT b) AND c) n = bit (f AND c) n"
    by (auto simp: bit_simps)
qed

text \<open>What a flag update may do, seen from another bit: nothing.\<close>

lemma bit_set_set_or: "b \<noteq> 0 \<Longrightarrow> bit_set b (set_flags (presence_flags m OR b) m)"
  by (simp add: bit_set_def)

lemma bit_set_clear: "\<not> bit_set b (set_flags (presence_flags m AND NOT b) m)"
  by (simp add: bit_set_def)

lemma bit_set_other_or:
  "b AND c = 0 \<Longrightarrow> bit_set c (set_flags (presence_flags m OR b) m) = bit_set c m"
  by (simp add: bit_set_def or_and_other)

lemma bit_set_other_clear:
  "b AND c = 0 \<Longrightarrow> bit_set c (set_flags (presence_flags m AND NOT b) m) = bit_set c m"
  by (simp add: bit_set_def and_not_and_other)

section \<open>A rule table and its flag\<close>

locale presence_map =
  P: bpf_map view rule_presence "\<lambda>c m. m\<lparr>rule_presence := c\<rparr>" "\<lambda>c k. c k" "\<lambda>_. True" "\<lambda>_. True"
    pcursor P
  for view :: "'w \<Rightarrow> fw_maps"
    and pcursor :: "'i \<Rightarrow> u32 option"
    and P :: "('w, 'i, u32, u32) bpf_handle"
begin

lemma lookup_flags:
  "m_lookup P w presenceMapKey = Inr f \<Longrightarrow> presence_flags (view w) = f"
  "m_lookup P w presenceMapKey = Inl e \<Longrightarrow> errors_Is e ErrKeyNotExist \<Longrightarrow> presence_flags (view w) = 0"
  using P.lookup_found [of w presenceMapKey] P.lookup_missing [of w presenceMapKey]
  by (auto simp: presence_flags_def)

lemma put_flags:
  "m_put P w presenceMapKey f = (w', None) \<Longrightarrow> view w' = set_flags f (view w)"
  "m_put P w presenceMapKey f = (w', Some e) \<Longrightarrow> view w' = view w"
  using P.put_ok P.put_err by (fastforce simp: set_flags_def)+

lemma setPresenceBit_effect:
  assumes "setPresenceBit (Some P) b w = (w', e)"
  shows "(e = None \<and> view w' = set_flags (presence_flags (view w) OR b) (view w)) \<or>
    (e \<noteq> None \<and> view w' = view w)"
  using assms
  by (cases e) (auto simp: setPresenceBit_def lookup_flags dest: put_flags
      split: sum.splits if_splits)

lemma clearPresenceBit_effect:
  assumes "clearPresenceBit (Some P) b w = (w', e)"
  shows "(e = None \<and> view w' = set_flags (presence_flags (view w) AND NOT b) (view w)) \<or>
    (e \<noteq> None \<and> view w' = view w)"
  using assms
  by (cases e) (auto simp: clearPresenceBit_def lookup_flags dest: put_flags
      split: sum.splits if_splits)

end

locale rule_table =
  T: bpf_map view get upd sel canon fits cursor M + presence_map view pcursor P
  for view :: "'w \<Rightarrow> fw_maps"
    and get :: "fw_maps \<Rightarrow> ('k \<rightharpoonup> 'v)"
    and upd :: "('k \<rightharpoonup> 'v) \<Rightarrow> fw_maps \<Rightarrow> fw_maps"
    and sel :: "('k \<rightharpoonup> 'v) \<Rightarrow> 'k \<Rightarrow> 'v option"
    and canon :: "'k \<Rightarrow> bool"
    and fits :: "'k \<Rightarrow> bool"
    and cursor :: "'i \<Rightarrow> 'k option"
    and M :: "('w, 'i, 'k, 'v) bpf_handle"
    and pcursor :: "'i \<Rightarrow> u32 option"
    and P :: "('w, 'i, u32, u32) bpf_handle" +
  fixes b :: u32
  assumes get_flags: "get (m\<lparr>rule_presence := c\<rparr>) = get m"
    and flags_upd: "rule_presence (upd d m) = rule_presence m"
    and bit_nonzero: "b \<noteq> 0"
begin

lemma get_set_flags [simp]: "get (set_flags f m) = get m"
  by (simp add: set_flags_def get_flags)

lemma presence_flags_upd [simp]: "presence_flags (upd d m) = presence_flags m"
  by (simp add: presence_flags_def flags_upd)

lemma bit_set_upd [simp]: "bit_set c (upd d m) = bit_set c m"
  by (simp add: bit_set_def)

lemma get_upd [simp]: "get (upd d m) = d"
  by (rule T.get_upd)

text \<open>The flag is conservative: a non-empty table has its bit set.\<close>

definition conservative :: "fw_maps \<Rightarrow> bool" where
  "conservative m \<longleftrightarrow> get m \<noteq> Map.empty \<longrightarrow> bit_set b m"

lemma mapHasEntries_spec:
  "mapHasEntries M w = Inr has \<Longrightarrow> has \<longleftrightarrow> get (view w) \<noteq> Map.empty"
  using T.next_entry [of w "m_iterate M w"] T.next_end [of w "m_iterate M w"]
  by (fastforce simp: mapHasEntries_def T.iterate_start split: next_result.splits option.splits)

text \<open>\<open>exact_flags m\<close> is \<open>m\<close> with the bit made to match the table, the others kept.\<close>

definition exact_flags :: "fw_maps \<Rightarrow> fw_maps" where
  "exact_flags m = sync_flags b (get m \<noteq> Map.empty) m"

lemma exact_flags_exact: "bit_set b (exact_flags m) \<longleftrightarrow> get m \<noteq> Map.empty"
  by (simp add: exact_flags_def sync_flags_def bit_set_def bit_nonzero)

lemma table_sync_effect:
  assumes "table_sync M (Some P) b w = (w', e)"
  shows "(e = None \<and> view w' = exact_flags (view w)) \<or> (e \<noteq> None \<and> view w' = view w)"
  using assms setPresenceBit_effect [of b w w' e] clearPresenceBit_effect [of b w w' e]
  by (auto simp: table_sync_def exact_flags_def sync_flags_def dest: mapHasEntries_spec split: sum.splits if_splits)

lemma table_insert_effect:
  assumes "table_insert M (Some P) b k v w = (w', e)" "canon k"
  shows "(e = None \<and> view w' = upd ((get (view w))(k \<mapsto> v))
        (set_flags (presence_flags (view w) OR b) (view w))) \<or>
    (e \<noteq> None \<and> view w' \<in> {view w, set_flags (presence_flags (view w) OR b) (view w)})"
proof -
  obtain w1 e1 where s: "setPresenceBit (Some P) b w = (w1, e1)" by fastforce
  note eff = setPresenceBit_effect [OF s]
  show ?thesis
  proof (cases e1)
    case None
    with eff have v1: "view w1 = set_flags (presence_flags (view w) OR b) (view w)" by simp
    from None s assms have "m_put M w1 k v = (w', e)" by (simp add: table_insert_def)
    with v1 show ?thesis
      using T.put_ok [of w1 k v w'] T.put_err [of w1 k v w'] assms(2) by (cases e) auto
  next
    case (Some e2)
    with eff s assms show ?thesis by (auto simp: table_insert_def)
  qed
qed

lemma table_remove_effect:
  assumes "table_remove M (Some P) b k w = (w', e)" "canon k"
  shows "(e = None \<and> k \<in> dom (get (view w)) \<and>
        view w' = exact_flags (upd ((get (view w))(k := None)) (view w))) \<or>
    (e \<noteq> None \<and> view w' \<in> {view w, upd ((get (view w))(k := None)) (view w)})"
  using assms(2)
proof (cases rule: T.delete_cases [of k w])
  case (ok w1)
  with assms have "table_sync M (Some P) b w1 = (w', e)" by (simp add: table_remove_def)
  from table_sync_effect [OF this] ok show ?thesis by auto
next
  case (err w1 e1)
  with assms show ?thesis by (auto simp: table_remove_def)
qed

text \<open>A key the kernel does not accept: the insertion fails after the flag, the removal at once.\<close>

lemma table_insert_unfit:
  assumes "table_insert M (Some P) b k v w = (w', e)" "\<not> fits k"
  shows "e \<noteq> None \<and> view w' \<in> {view w, set_flags (presence_flags (view w) OR b) (view w)}"
proof -
  obtain w1 e1 where s: "setPresenceBit (Some P) b w = (w1, e1)" by fastforce
  show ?thesis
  proof (cases e1)
    case None
    with s assms have "m_put M w1 k v = (w', e)" by (simp add: table_insert_def)
    with assms(2) have "e \<noteq> None" "view w' = view w1"
      using T.put_fits [of w1 k v w'] T.put_err [of w1 k v w'] by auto
    then show ?thesis using setPresenceBit_effect [OF s] by auto
  next
    case (Some e2)
    with s assms show ?thesis using setPresenceBit_effect [OF s] by (auto simp: table_insert_def)
  qed
qed

lemma table_remove_unfit:
  assumes "table_remove M (Some P) b k w = (w', e)" "\<not> fits k"
  shows "e \<noteq> None \<and> view w' = view w"
  using assms T.delete_fits [of w k] T.delete_err [of w k]
  by (auto simp: table_remove_def split: prod.splits option.splits)

lemma table_clear_effect:
  assumes "table_clear M (Some P) b w = (w', e)" "\<forall>k \<in> dom (get (view w)). canon k"
  shows "(e = None \<and> view w' = exact_flags (upd Map.empty (view w))) \<or>
    (e \<noteq> None \<and> (\<exists>c. c \<subseteq>\<^sub>m get (view w) \<and> view w' = upd c (view w)))"
proof -
  obtain w1 e1 where d: "delete_all M w = (w1, e1)" by fastforce
  from assms(2) have "T.entries_canon w" by (simp add: T.entries_canon_def)
  from T.delete_all_effect [OF d this] obtain c where
      c: "view w1 = upd c (view w)" "c \<subseteq>\<^sub>m get (view w)" "e1 = None \<longrightarrow> c = Map.empty"
    by auto
  show ?thesis
  proof (cases e1)
    case None
    with d assms have "table_sync M (Some P) b w1 = (w', e)" by (simp add: table_clear_def)
    from table_sync_effect [OF this] show ?thesis
    proof
      assume "e = None \<and> view w' = exact_flags (view w1)"
      with c None show ?thesis by simp
    next
      assume "e \<noteq> None \<and> view w' = view w1"
      then have "e \<noteq> None" "view w' = upd c (view w)" using c(1) by simp_all
      then show ?thesis using c(2) by blast
    qed
  next
    case (Some e2)
    with c d assms show ?thesis by (auto simp: table_clear_def)
  qed
qed

text \<open>Every sequence keeps the flag conservative, whatever fails on the way.\<close>

lemma conservative_set_or [simp]: "conservative (set_flags (f OR b) m)"
  by (simp add: conservative_def bit_set_def bit_nonzero)

lemma conservative_exact [simp]: "conservative (exact_flags m)"
  unfolding conservative_def exact_flags_exact by (simp add: exact_flags_def sync_flags_def)

lemma conservative_subset:
  "conservative m \<Longrightarrow> c \<subseteq>\<^sub>m get m \<Longrightarrow> conservative (upd c m)"
  by (cases "get m = Map.empty") (auto simp: conservative_def)

lemma conservative_upd_flags [simp]:
  "conservative (upd c (set_flags (f OR b) m))"
  by (simp add: conservative_def bit_set_def bit_nonzero)

lemma table_insert_conservative:
  "table_insert M (Some P) b k v w = (w', e) \<Longrightarrow> canon k \<Longrightarrow> conservative (view w) \<Longrightarrow>
     conservative (view w')"
  by (drule (1) table_insert_effect) auto

lemma table_remove_conservative:
  "table_remove M (Some P) b k w = (w', e) \<Longrightarrow> canon k \<Longrightarrow> conservative (view w) \<Longrightarrow>
     conservative (view w')"
  by (drule (1) table_remove_effect) (auto intro: conservative_subset [OF _ upd_None_map_le])

lemma table_clear_conservative:
  "table_clear M (Some P) b w = (w', e) \<Longrightarrow> \<forall>k \<in> dom (get (view w)). canon k \<Longrightarrow>
     conservative (view w) \<Longrightarrow> conservative (view w')"
  by (drule (1) table_clear_effect) (auto intro: conservative_subset)

end

end
