(* ===== verification/Protocol.thy ===== *)
theory Protocol
  imports Prelude
begin

text \<open>
  \<open>control/server/protocol.go\<close>: the requests and replies of the control socket. A Go slice
  that may be \<open>nil\<close> is an option: \<open>None\<close> is \<open>nil\<close> (JSON \<open>null\<close>), \<open>Some []\<close> is the empty,
  non-nil slice; the client's printer and the HTTP API distinguish them. \<open>Error\<close> carries the
  error value instead of its text. A \<open>float64\<close> is the expression it is computed by: a number of
  nanoseconds divided by \<open>time.Second\<close>, or the value of a decimal literal; rounding is not modelled.
\<close>

datatype float64 = NanosInSeconds u64 | ParsedFloat string

type_synonym 'a slice = "'a list option"

record Request =
  rq_Command :: string
  rq_Value :: string
  rq_Protocol :: string
  rq_Port :: u16
  rq_SPort :: u16
  rq_Action :: string
  rq_Priority :: u32

definition CmdBlock :: string where "CmdBlock = ''block''"
definition CmdUnblock :: string where "CmdUnblock = ''unblock''"
definition CmdList :: string where "CmdList = ''list''"
definition CmdStatus :: string where "CmdStatus = ''status''"
definition CmdClear :: string where "CmdClear = ''clear''"
definition CmdStats :: string where "CmdStats = ''stats''"
definition CmdListPorts :: string where "CmdListPorts = ''listports''"
definition CmdSetDefault :: string where "CmdSetDefault = ''setdefault''"
definition CmdDefault :: string where "CmdDefault = ''default''"
definition CmdConntrack :: string where "CmdConntrack = ''conntrack''"

lemmas cmd_defs = CmdBlock_def CmdUnblock_def CmdList_def CmdStatus_def CmdClear_def CmdStats_def
  CmdListPorts_def CmdSetDefault_def CmdDefault_def CmdConntrack_def

record PortRule =
  pr_Protocol :: string
  pr_Port :: u16
  pr_SPort :: u16
  pr_Dst :: string
  pr_Action :: string
  pr_Priority :: u32

record BlockedRule =
  br_Cidr :: string
  br_Action :: string
  br_Priority :: u32

record ConntrackEntry =
  ce_Src :: string
  ce_Dst :: string
  ce_Sport :: u16
  ce_Dport :: u16
  ce_Protocol :: string
  ce_State :: string
  ce_AgeSeconds :: float64

record Stats =
  st_TotalPackets :: u64
  st_TotalBytes :: u64
  st_DropPackets :: u64
  st_DropBytes :: u64
  st_PassPackets :: u64
  st_PassBytes :: u64

record Response =
  rs_OK :: bool
  rs_Error :: "fw_error option"
  rs_Blocked :: "string slice"
  rs_BlockedRules :: "BlockedRule slice"
  rs_Count :: int
  rs_Iface :: string
  rs_Attached :: bool
  rs_Stats :: "Stats option"
  rs_PortRules :: "PortRule slice"
  rs_Conntrack :: "ConntrackEntry slice"
  rs_Default :: string
  rs_AttachMode :: string

text \<open>\<open>len\<close> of a slice, and \<open>append\<close> in a loop that starts from a \<open>nil\<close> slice.\<close>

definition slice_len :: "'a slice \<Rightarrow> nat" where
  "slice_len s = (case s of None \<Rightarrow> 0 | Some xs \<Rightarrow> length xs)"

definition slice_list :: "'a slice \<Rightarrow> 'a list" where
  "slice_list s = (case s of None \<Rightarrow> [] | Some xs \<Rightarrow> xs)"

definition append_all :: "'a list \<Rightarrow> 'a slice" where
  "append_all xs = (if xs = [] then None else Some xs)"

lemma slice_simps [simp]:
  "slice_len None = 0" "slice_len (Some xs) = length xs"
  "slice_list None = []" "slice_list (Some xs) = xs"
  "slice_list (append_all xs) = xs" "slice_len (append_all xs) = length xs"
  by (simp_all add: slice_len_def slice_list_def append_all_def)

text \<open>The zero value with \<open>OK\<close> set, and the error reply.\<close>

definition okResponse :: Response where
  "okResponse =
     \<lparr>rs_OK = True, rs_Error = None, rs_Blocked = None, rs_BlockedRules = None, rs_Count = 0,
      rs_Iface = '''', rs_Attached = False, rs_Stats = None, rs_PortRules = None,
      rs_Conntrack = None, rs_Default = '''', rs_AttachMode = ''''\<rparr>"

definition errResponse :: "fw_error \<Rightarrow> Response" where
  "errResponse e = okResponse\<lparr>rs_OK := False, rs_Error := Some e\<rparr>"

end
