(* ===== verification/Blocklist.thy ===== *)
theory Blocklist
  imports Rules Presence Protocol
begin

text \<open>
  \<open>control/ebpf/blocklist.go\<close>: \<open>MapManager\<close>, the owner of the \<open>blocked_ips\<close> LPM trie. A
  method of the Go type is a function of the manager record and the world; it returns the new
  world and its error. The lemmas say which key a string denotes, that the key is canonical
  whenever the kernel accepts it, and (from the locale \<open>rule_table\<close>) what each method does to
  the maps on every outcome.
\<close>

definition newLpmKey :: "u8 list \<Rightarrow> nat \<Rightarrow> fw_error + firewallIpv4LpmKey" where
  "newLpmKey ipBytes prefixLen =
     (case ipBytes of
        a # b # c # d # _ \<Rightarrow>
          Inr \<lparr>lk_Prefixlen = of_nat prefixLen, lk_Data = le32 a b c d\<rparr>
      | _ \<Rightarrow> Inl PanicSliceBounds)"

record ('w, 'i) MapManager =
  mm_blockedIps :: "('w, 'i, firewallIpv4LpmKey, ruleValue) bpf_handle"
  mm_presence :: "('w, 'i) presence_handle"

definition NewMapManager ::
    "('w, 'i, firewallIpv4LpmKey, ruleValue) bpf_handle \<Rightarrow> ('w, 'i) MapManager" where
  "NewMapManager m = \<lparr>mm_blockedIps = m, mm_presence = None\<rparr>"

definition MapManager_SetPresence ::
    "('w, 'i) MapManager \<Rightarrow> ('w, 'i) presence_handle \<Rightarrow> ('w, 'i) MapManager" where
  "MapManager_SetPresence pm m = pm\<lparr>mm_presence := m\<rparr>"

definition MapManager_syncPresence :: "('w, 'i) MapManager \<Rightarrow> 'w \<Rightarrow> 'w \<times> map_err option" where
  "MapManager_syncPresence pm w =
     (case mapHasEntries (mm_blockedIps pm) w of
        Inl err \<Rightarrow> (w, Some err)
      | Inr has \<Rightarrow>
          if has then setPresenceBit (mm_presence pm) rulePresenceIP w
          else clearPresenceBit (mm_presence pm) rulePresenceIP w)"

definition MapManager_BlockIPWithActionPriority ::
    "('w, 'i) MapManager \<Rightarrow> string \<Rightarrow> u32 \<Rightarrow> u32 \<Rightarrow> 'w \<Rightarrow> 'w \<times> fw_error option" where
  "MapManager_BlockIPWithActionPriority pm cidrStr action priority w =
     (case ParseIPOrCIDR cidrStr of
        Inl err \<Rightarrow> (w, Some err)
      | Inr ipNet \<Rightarrow>
          (let ones = fst (Mask_Size (net_Mask ipNet)) in
           case newLpmKey (net_IP ipNet) ones of
             Inl panic \<Rightarrow> (w, Some panic)
           | Inr key \<Rightarrow>
               (case setPresenceBit (mm_presence pm) rulePresenceIP w of
                  (w1, Some err) \<Rightarrow> (w1, Some (MapError err))
                | (w1, None) \<Rightarrow>
                    (case m_put (mm_blockedIps pm) w1 key
                        \<lparr>rv_Action = action, rv_Priority = priority\<rparr> of
                       (w2, err) \<Rightarrow> (w2, map_option MapError err)))))"

definition MapManager_BlockIPWithAction ::
    "('w, 'i) MapManager \<Rightarrow> string \<Rightarrow> u32 \<Rightarrow> 'w \<Rightarrow> 'w \<times> fw_error option" where
  "MapManager_BlockIPWithAction pm cidrStr action w =
     MapManager_BlockIPWithActionPriority pm cidrStr action 0 w"

definition defaultBlockAction :: u32 where "defaultBlockAction = ActionDrop"

definition MapManager_BlockIP ::
    "('w, 'i) MapManager \<Rightarrow> string \<Rightarrow> 'w \<Rightarrow> 'w \<times> fw_error option" where
  "MapManager_BlockIP pm cidrStr w = MapManager_BlockIPWithAction pm cidrStr defaultBlockAction w"

definition MapManager_UnblockIP ::
    "('w, 'i) MapManager \<Rightarrow> string \<Rightarrow> 'w \<Rightarrow> 'w \<times> fw_error option" where
  "MapManager_UnblockIP pm cidrStr w =
     (case ParseIPOrCIDR cidrStr of
        Inl err \<Rightarrow> (w, Some err)
      | Inr ipNet \<Rightarrow>
          (let ones = fst (Mask_Size (net_Mask ipNet)) in
           case newLpmKey (net_IP ipNet) ones of
             Inl panic \<Rightarrow> (w, Some panic)
           | Inr key \<Rightarrow>
               (case m_delete (mm_blockedIps pm) w key of
                  (w1, Some err) \<Rightarrow> (w1, Some (MapError err))
                | (w1, None) \<Rightarrow>
                    (case MapManager_syncPresence pm w1 of
                       (w2, err) \<Rightarrow> (w2, map_option MapError err)))))"

definition ipBytesOf :: "string \<Rightarrow> fw_error + u8 list" where
  "ipBytesOf s =
     (case ParseIP s of
        Some ip \<Rightarrow>
          (case To4 ip of
             Some v4 \<Rightarrow> Inr v4
           | None \<Rightarrow> Inl (OnlyIPv4Supported s))
      | None \<Rightarrow>
          (case ParseIPOrCIDR s of
             Inl err \<Rightarrow> Inl err
           | Inr ipNet \<Rightarrow> Inr (net_IP ipNet)))"

definition ipToKey :: "string \<Rightarrow> fw_error + firewallIpv4LpmKey" where
  "ipToKey s =
     (case ipBytesOf s of
        Inl err \<Rightarrow> Inl err
      | Inr ipBytes \<Rightarrow> newLpmKey ipBytes 32)"

definition MapManager_IsBlocked ::
    "('w, 'i) MapManager \<Rightarrow> string \<Rightarrow> 'w \<Rightarrow> fw_error + bool" where
  "MapManager_IsBlocked pm s w =
     (case ipToKey s of
        Inl err \<Rightarrow> Inl err
      | Inr key \<Rightarrow>
          (case m_lookup (mm_blockedIps pm) w key of
             Inl err \<Rightarrow> if errors_Is err ErrKeyNotExist then Inr False else Inl (MapError err)
           | Inr value \<Rightarrow> Inr True))"

definition lpm_cidr :: "firewallIpv4LpmKey \<Rightarrow> string" where
  "lpm_cidr key =
     ipv4_str (byte_of 0 (lk_Data key)) (byte_of 1 (lk_Data key)) (byte_of 2 (lk_Data key))
       (byte_of 3 (lk_Data key)) @ ''/'' @ nat_str (unat (lk_Prefixlen key))"

definition blockedRuleOf :: "firewallIpv4LpmKey \<times> ruleValue \<Rightarrow> BlockedRule" where
  "blockedRuleOf e = (case e of (key, value) \<Rightarrow>
     \<lparr>br_Cidr = lpm_cidr key, br_Action = Action_String (rv_Action value),
      br_Priority = rv_Priority value\<rparr>)"

definition MapManager_ListBlockedRules ::
    "('w, 'i) MapManager \<Rightarrow> 'w \<Rightarrow> fw_error + BlockedRule slice" where
  "MapManager_ListBlockedRules pm w =
     (case iterate_all (mm_blockedIps pm) w of
        (es, Some err) \<Rightarrow> Inl (MapError err)
      | (es, None) \<Rightarrow> Inr (append_all (map blockedRuleOf es)))"

definition MapManager_ListBlockedIPs ::
    "('w, 'i) MapManager \<Rightarrow> 'w \<Rightarrow> fw_error + string slice" where
  "MapManager_ListBlockedIPs pm w =
     (case MapManager_ListBlockedRules pm w of
        Inl err \<Rightarrow> Inl err
      | Inr rules \<Rightarrow> Inr (Some (map br_Cidr (slice_list rules))))"

definition MapManager_Clear :: "('w, 'i) MapManager \<Rightarrow> 'w \<Rightarrow> 'w \<times> fw_error option" where
  "MapManager_Clear pm w =
     (case delete_all (mm_blockedIps pm) w of
        (w1, Some err) \<Rightarrow> (w1, Some (MapError err))
      | (w1, None) \<Rightarrow>
          (case MapManager_syncPresence pm w1 of
             (w2, err) \<Rightarrow> (w2, map_option MapError err)))"

section \<open>The key of a string\<close>

text \<open>The key \<open>BlockIP\<close> and \<open>UnblockIP\<close> build from their argument.\<close>

definition rule_key :: "string \<Rightarrow> fw_error + firewallIpv4LpmKey" where
  "rule_key s =
     (case ParseIPOrCIDR s of
        Inl err \<Rightarrow> Inl err
      | Inr ipNet \<Rightarrow> newLpmKey (net_IP ipNet) (fst (Mask_Size (net_Mask ipNet))))"

definition lpm_fits :: "firewallIpv4LpmKey \<Rightarrow> bool" where
  "lpm_fits k \<longleftrightarrow> unat (lk_Prefixlen k) \<le> 32"

lemma newLpmKey_4:
  "length ip = 4 \<Longrightarrow> \<exists>k. newLpmKey ip n = Inr k \<and> lk_Prefixlen k = of_nat n \<and> data_bytes (lk_Data k) = ip"
  by (auto simp: newLpmKey_def length_4_iff)

lemma Mask_Size_bound: "fst (Mask_Size m) \<le> 8 * length m"
proof -
  have lead: "fst (lead_ones k v) \<le> k" for k v
    by (induction k v rule: lead_ones.induct) (auto split: prod.splits)
  have "simpleMaskLength m = Some n \<Longrightarrow> n \<le> 8 * length m" for n
  proof (induction m arbitrary: n rule: simpleMaskLength.induct)
    case (2 v m)
    then show ?case using lead [of 8 v] by (auto split: if_splits prod.splits)
  qed simp
  then show ?thesis by (auto simp: Mask_Size_def split: option.splits)
qed

text \<open>No panic: a rule string is rejected by the parser or has a key; the key is canonical or
  too long for the trie.\<close>

lemma rule_key_cases:
  "(\<exists>err. rule_key s = Inl err \<and> ParseIPOrCIDR s = Inl err) \<or>
   (\<exists>k. rule_key s = Inr k \<and> (canon_key k \<or> \<not> lpm_fits k))"
proof (cases "ParseIPOrCIDR s")
  case (Inl e)
  then show ?thesis by (simp add: rule_key_def)
next
  case (Inr net)
  let ?n = "fst (Mask_Size (net_Mask net))"
  note den = ParseIPOrCIDR_denotes [OF Inr]
  from den newLpmKey_4 obtain k where k: "newLpmKey (net_IP net) ?n = Inr k"
    "lk_Prefixlen k = of_nat ?n" "data_bytes (lk_Data k) = net_IP net"
    by blast
  from den show ?thesis
  proof (elim conjE disjE)
    assume n: "?n \<le> 32" and norm: "normalized (net_IP net) ?n"
    then have "canon_key k"
      using k by (simp add: canon_key_bytes normalized_def)
    with Inr k show ?thesis by (auto simp: rule_key_def)
  next
    assume "96 \<le> ?n" "length (net_Mask net) = 16"
    moreover from this have "?n \<le> 128" using Mask_Size_bound [of "net_Mask net"] by simp
    ultimately have "\<not> lpm_fits k" using k by (simp add: lpm_fits_def unat_of_nat)
    with Inr k show ?thesis by (auto simp: rule_key_def)
  qed
qed

text \<open>A listed rule names its own key: the printed CIDR parses back to the entry.\<close>

lemma ParseIPOrCIDR_str:
  assumes "n \<le> 32"
  shows "ParseIPOrCIDR (ipv4_str a b c d @ ''/'' @ nat_str n) =
    Inr \<lparr>net_IP = map2 (AND) [a, b, c, d] (CIDRMask n 32), net_Mask = CIDRMask n 32\<rparr>"
proof -
  have "\<forall>x \<in> set (ipv4_str a b c d @ CHR ''/'' # nat_str n). plain_char x"
    using ipv4_str_plain nat_str_digits by (auto simp: plain_char_def)
  then have "TrimSpace (ipv4_str a b c d @ CHR ''/'' # nat_str n) = ipv4_str a b c d @ CHR ''/'' # nat_str n"
    by (intro TrimSpace_plain_all) auto
  with ParseCIDR_str [OF assms, of a b c d] show ?thesis
    by (simp add: ParseIPOrCIDR_def Let_def del: list.map zip_Cons_Cons)
qed

lemma ParseIPOrCIDR_bare:
  "ParseIPOrCIDR (ipv4_str a b c d) = Inr \<lparr>net_IP = [a, b, c, d], net_Mask = CIDRMask 32 32\<rparr>"
proof -
  have "TrimSpace (ipv4_str a b c d) = ipv4_str a b c d"
    using ipv4_str_plain by (intro TrimSpace_plain_all) (auto simp: ipv4_str_def)
  moreover have "CHR ''/'' \<notin> set (ipv4_str a b c d)" using ipv4_str_chars by fastforce
  moreover have "nat_str 32 = ''32''" by code_simp
  moreover have "ipv4_str a b c d \<noteq> []" by (simp add: ipv4_str_def)
  ultimately show ?thesis
    using ParseCIDR_str [of 32 a b c d]
    by (simp add: ParseIPOrCIDR_def Let_def ParseIP_def ParseAddr_ipv4_str del: list.map zip_Cons_Cons)
qed

lemma rule_key_lpm_cidr: "canon_key k \<Longrightarrow> rule_key (lpm_cidr k) = Inr k"
proof -
  assume k: "canon_key k"
  let ?n = "unat (lk_Prefixlen k)"
  from k have n: "?n \<le> 32" and m: "map2 (AND) (data_bytes (lk_Data k)) (cidr_bytes 4 ?n) = data_bytes (lk_Data k)"
    by (simp_all add: canon_key_bytes)
  have "ParseIPOrCIDR (lpm_cidr k) =
      Inr \<lparr>net_IP = map2 (AND) (data_bytes (lk_Data k)) (cidr_bytes 4 ?n), net_Mask = CIDRMask ?n 32\<rparr>"
    unfolding lpm_cidr_def ParseIPOrCIDR_str [OF n] by (simp add: CIDRMask_def data_bytes_def)
  then have "ParseIPOrCIDR (lpm_cidr k) =
      Inr \<lparr>net_IP = data_bytes (lk_Data k), net_Mask = CIDRMask ?n 32\<rparr>"
    unfolding m .
  with n show ?thesis
    by (cases k) (simp add: rule_key_def newLpmKey_def data_bytes_def)
qed

section \<open>The methods over the table\<close>

lemma MapManager_syncPresence_eq:
  "MapManager_syncPresence pm w = table_sync (mm_blockedIps pm) (mm_presence pm) rulePresenceIP w"
  by (simp add: MapManager_syncPresence_def table_sync_def)

lemma MapManager_Block_eq:
  "MapManager_BlockIPWithActionPriority pm s a p w =
     (case rule_key s of
        Inl err \<Rightarrow> (w, Some err)
      | Inr k \<Rightarrow> map_prod id (map_option MapError)
          (table_insert (mm_blockedIps pm) (mm_presence pm) rulePresenceIP k
             \<lparr>rv_Action = a, rv_Priority = p\<rparr> w))"
  by (auto simp: MapManager_BlockIPWithActionPriority_def rule_key_def table_insert_def Let_def
      split: sum.splits prod.splits option.splits)

lemma MapManager_Unblock_eq:
  "MapManager_UnblockIP pm s w =
     (case rule_key s of
        Inl err \<Rightarrow> (w, Some err)
      | Inr k \<Rightarrow> map_prod id (map_option MapError)
          (table_remove (mm_blockedIps pm) (mm_presence pm) rulePresenceIP k w))"
  by (auto simp: MapManager_UnblockIP_def MapManager_syncPresence_eq rule_key_def table_remove_def
      Let_def split: sum.splits prod.splits option.splits)

lemma MapManager_Clear_eq:
  "MapManager_Clear pm w =
     map_prod id (map_option MapError)
       (table_clear (mm_blockedIps pm) (mm_presence pm) rulePresenceIP w)"
  by (auto simp: MapManager_Clear_def MapManager_syncPresence_eq table_clear_def
      split: prod.splits option.splits)

section \<open>What the manager promises\<close>

text \<open>
  What an LPM lookup with a full 32-bit prefix must find (bpf(2), \<open>BPF_MAP_TYPE_LPM_TRIE\<close>): the
  entry with the longest prefix among those that cover the address.
\<close>

definition host_key :: "u32 \<Rightarrow> firewallIpv4LpmKey" where
  "host_key q = \<lparr>lk_Prefixlen = 32, lk_Data = q\<rparr>"

definition longest_prefix ::
    "((firewallIpv4LpmKey \<rightharpoonup> ruleValue) \<Rightarrow> firewallIpv4LpmKey \<Rightarrow> ruleValue option) \<Rightarrow> bool" where
  "longest_prefix lpm \<longleftrightarrow>
     (\<forall>c q. (\<forall>k \<in> dom c. canon_key k) \<longrightarrow>
        (case lpm c (host_key q) of
           None \<Rightarrow> \<forall>k \<in> dom c. \<not> covers k q
         | Some v \<Rightarrow> \<exists>k. c k = Some v \<and> covers k q \<and>
             (\<forall>k' \<in> dom c. covers k' q \<longrightarrow> unat (lk_Prefixlen k') \<le> unat (lk_Prefixlen k))))"

lemma longest_prefix_None:
  "longest_prefix lpm \<Longrightarrow> \<forall>k \<in> dom c. canon_key k \<Longrightarrow> lpm c (host_key q) = None \<Longrightarrow>
     k \<in> dom c \<Longrightarrow> \<not> covers k q"
  unfolding longest_prefix_def by (drule spec2 [of _ c q]) simp

lemma longest_prefix_Some:
  assumes "longest_prefix lpm" "\<forall>k \<in> dom c. canon_key k" "lpm c (host_key q) = Some v"
  obtains k where "c k = Some v" "covers k q"
    "\<forall>k' \<in> dom c. covers k' q \<longrightarrow> unat (lk_Prefixlen k') \<le> unat (lk_Prefixlen k)"
  using assms unfolding longest_prefix_def by (drule_tac spec2 [of _ c q]) auto

text \<open>Two canonical keys that cover an address with the same prefix length are one key, so the
  lookup is a function of the contents: a covering entry no other one is longer than wins.\<close>

lemma longest_prefix_eq:
  assumes lp: "longest_prefix lpm" and can: "\<forall>k \<in> dom c. canon_key k"
    and k: "c k = Some v" "covers k q"
    and longest: "\<forall>k' \<in> dom c. covers k' q \<longrightarrow> unat (lk_Prefixlen k') \<le> unat (lk_Prefixlen k)"
  shows "lpm c (host_key q) = Some v"
proof (cases "lpm c (host_key q)")
  case None
  with longest_prefix_None [OF lp can None] k show ?thesis by blast
next
  case (Some u)
  obtain k' where k': "c k' = Some u" "covers k' q"
    and l': "\<forall>k \<in> dom c. covers k q \<longrightarrow> unat (lk_Prefixlen k) \<le> unat (lk_Prefixlen k')"
    using longest_prefix_Some [OF lp can Some] .
  from k k' longest l' have "unat (lk_Prefixlen k) = unat (lk_Prefixlen k')"
    by (meson domI le_antisym)
  moreover from can k k' have "unat (lk_Prefixlen k) \<le> 32" "unat (lk_Prefixlen k') \<le> 32"
    by (auto simp: canon_key_def)
  ultimately have "k = k'"
    using covers_is_lpm_key [OF k(2)] covers_is_lpm_key [OF k'(2)] by simp
  with k k' Some show ?thesis by simp
qed

definition sync_ip :: "fw_maps \<Rightarrow> fw_maps" where
  "sync_ip m = sync_flags rulePresenceIP (blocked_ips m \<noteq> Map.empty) m"

text \<open>The maps after a rule is inserted or removed with its flag.\<close>

definition ip_inserted :: "firewallIpv4LpmKey \<Rightarrow> ruleValue \<Rightarrow> fw_maps \<Rightarrow> fw_maps" where
  "ip_inserted k v m =
     (advertise rulePresenceIP m)\<lparr>blocked_ips := (blocked_ips m)(k \<mapsto> v)\<rparr>"

definition ip_removed :: "firewallIpv4LpmKey \<Rightarrow> fw_maps \<Rightarrow> fw_maps" where
  "ip_removed k m = sync_ip (m\<lparr>blocked_ips := (blocked_ips m)(k := None)\<rparr>)"

lemmas ip_change_defs = ip_inserted_def ip_removed_def advertise_def

locale blocklist_env =
  rule_table view blocked_ips "\<lambda>c m. m\<lparr>blocked_ips := c\<rparr>" lpm canon_key lpm_fits cursor
    "mm_blockedIps pm" pcursor P rulePresenceIP
  for view :: "'w \<Rightarrow> fw_maps"
    and lpm :: "(firewallIpv4LpmKey \<rightharpoonup> ruleValue) \<Rightarrow> firewallIpv4LpmKey \<Rightarrow> ruleValue option"
    and cursor :: "'i \<Rightarrow> firewallIpv4LpmKey option"
    and pcursor :: "'i \<Rightarrow> u32 option"
    and pm :: "('w, 'i) MapManager"
    and P :: "('w, 'i, u32, u32) bpf_handle" +
  assumes presence_attached: "mm_presence pm = Some P"
    and lpm_lookup: "longest_prefix lpm"
begin

lemma exact_flags_ip: "exact_flags = sync_ip"
  by (simp add: fun_eq_iff exact_flags_def sync_ip_def)

lemma Block_effect:
  assumes "MapManager_BlockIPWithActionPriority pm s a p w = (w', e)"
  shows "case rule_key s of
      Inl err \<Rightarrow> w' = w \<and> e = Some err
    | Inr k \<Rightarrow>
        (e = None \<and> canon_key k \<and>
         view w' = ip_inserted k \<lparr>rv_Action = a, rv_Priority = p\<rparr> (view w)) \<or>
        (e \<noteq> None \<and> view w' \<in> {view w, advertise rulePresenceIP (view w)})"
proof (cases "rule_key s")
  case (Inl err)
  with assms show ?thesis by (simp add: MapManager_Block_eq)
next
  case (Inr k)
  with assms obtain e' where
      t: "table_insert (mm_blockedIps pm) (Some P) rulePresenceIP k
        \<lparr>rv_Action = a, rv_Priority = p\<rparr> w = (w', e')" and e: "e = map_option MapError e'"
    by (auto simp: MapManager_Block_eq presence_attached map_prod_def split: prod.splits)
  from rule_key_cases [of s] Inr consider "canon_key k" | "\<not> lpm_fits k" by auto
  then show ?thesis
  proof cases
    case 1
    with table_insert_effect [OF t 1] Inr e show ?thesis by (auto simp: ip_change_defs)
  next
    case 2
    with table_insert_unfit [OF t 2] Inr e show ?thesis by (auto simp: ip_change_defs)
  qed
qed

lemma Unblock_effect:
  assumes "MapManager_UnblockIP pm s w = (w', e)"
  shows "case rule_key s of
      Inl err \<Rightarrow> w' = w \<and> e = Some err
    | Inr k \<Rightarrow>
        (e = None \<and> k \<in> dom (blocked_ips (view w)) \<and>
         view w' = ip_removed k (view w)) \<or>
        (e \<noteq> None \<and>
         view w' \<in> {view w, (view w)\<lparr>blocked_ips := (blocked_ips (view w))(k := None)\<rparr>})"
proof (cases "rule_key s")
  case (Inl err)
  with assms show ?thesis by (simp add: MapManager_Unblock_eq)
next
  case (Inr k)
  with assms obtain e' where
      t: "table_remove (mm_blockedIps pm) (Some P) rulePresenceIP k w = (w', e')"
      and e: "e = map_option MapError e'"
    by (auto simp: MapManager_Unblock_eq presence_attached map_prod_def split: prod.splits)
  from rule_key_cases [of s] Inr consider "canon_key k" | "\<not> lpm_fits k" by auto
  then show ?thesis
  proof cases
    case 1
    with table_remove_effect [OF t 1, unfolded exact_flags_ip] Inr e show ?thesis by (auto simp: ip_change_defs)
  next
    case 2
    with table_remove_unfit [OF t 2] Inr e show ?thesis by auto
  qed
qed

lemma Clear_effect:
  assumes "MapManager_Clear pm w = (w', e)" "\<forall>k \<in> dom (blocked_ips (view w)). canon_key k"
  shows "(e = None \<and> view w' = sync_ip ((view w)\<lparr>blocked_ips := Map.empty\<rparr>)) \<or>
    (e \<noteq> None \<and> (\<exists>c. c \<subseteq>\<^sub>m blocked_ips (view w) \<and> view w' = (view w)\<lparr>blocked_ips := c\<rparr>))"
proof -
  from assms obtain e' where
      "table_clear (mm_blockedIps pm) (Some P) rulePresenceIP w = (w', e')"
      and "e = map_option MapError e'"
    by (auto simp: MapManager_Clear_eq presence_attached map_prod_def split: prod.splits)
  with table_clear_effect [OF this(1) assms(2), unfolded exact_flags_ip] show ?thesis by auto
qed

lemma List_effect:
  assumes "MapManager_ListBlockedRules pm w = Inr rules"
  shows "\<exists>es. distinct (map fst es) \<and> map_of es = blocked_ips (view w) \<and>
    rules = append_all (map blockedRuleOf es)"
proof -
  from assms obtain es where es: "iterate_all (mm_blockedIps pm) w = (es, None)"
      and r: "rules = append_all (map blockedRuleOf es)"
    by (auto simp: MapManager_ListBlockedRules_def split: prod.splits option.splits)
  from T.iterate_all_map_of [OF es] r show ?thesis by blast
qed

lemma IsBlocked_effect:
  assumes "MapManager_IsBlocked pm s w = Inr r" "ipToKey s = Inr (host_key q)"
    "\<forall>k \<in> dom (blocked_ips (view w)). canon_key k"
  shows "r \<longleftrightarrow> (\<exists>k \<in> dom (blocked_ips (view w)). covers k q)"
proof (cases "m_lookup (mm_blockedIps pm) w (host_key q)")
  case (Inl err)
  with assms T.lookup_missing [OF Inl] longest_prefix_None [OF lpm_lookup assms(3)]
  show ?thesis by (auto simp: MapManager_IsBlocked_def split: if_splits)
next
  case (Inr v)
  with assms(1,2) have "r" by (simp add: MapManager_IsBlocked_def)
  moreover have "\<exists>k \<in> dom (blocked_ips (view w)). covers k q"
    using longest_prefix_Some [OF lpm_lookup assms(3) T.lookup_found [OF Inr]] by blast
  ultimately show ?thesis by simp
qed

end

end
