(* ===== verification/PortPolicy.thy ===== *)
theory PortPolicy
  imports Presence Protocol
begin

text \<open>
  \<open>control/ebpf/portpolicy.go\<close>: \<open>PortPolicyManager\<close>, the owner of the \<open>port_policy\<close> hash map.
  Ports are stored in network byte order (\<open>portToWire\<close>), protocol and port zero stand for "any".
\<close>

definition protoToCode :: "string \<Rightarrow> fw_error + u8" where
  "protoToCode proto =
     (let p = ToLower (TrimSpace proto) in
      if p = '''' then Inr portAnyProtocol
      else if p = ''tcp'' then Inr protoTCP
      else if p = ''udp'' then Inr protoUDP
      else Inl (UnsupportedProtocol proto))"

definition codeToProto :: "u8 \<Rightarrow> string" where
  "codeToProto code =
     (if code = protoTCP then ''tcp''
      else if code = protoUDP then ''udp''
      else '''')"

definition wireToPort :: "u16 \<Rightarrow> u16" where
  "wireToPort w = be16 (byte_of 0 w) (byte_of 1 w)"

definition portToWire :: "u16 \<Rightarrow> u16" where
  "portToWire p = le16 (ucast (drop_bit 8 p)) (ucast (p AND 0xFF))"

definition PortPolicyManager_newPortKey ::
    "string \<Rightarrow> u8 \<Rightarrow> u16 \<Rightarrow> u16 \<Rightarrow> fw_error + firewallPortRuleKey" where
  "PortPolicyManager_newPortKey dst proto dport sport =
     (case Option.bind (ParseIP (TrimSpace dst)) To4 of
        Some [a, b, c, d] \<Rightarrow>
          Inr \<lparr>pk_Protocol = proto, pk_Dport = portToWire dport, pk_Sport = portToWire sport,
               pk_Dst = le32 a b c d\<rparr>
      | _ \<Rightarrow> Inl (InvalidIPv4Destination dst))"

record ('w, 'i) PortPolicyManager =
  pp_portPolicy :: "('w, 'i, firewallPortRuleKey, ruleValue) bpf_handle"
  pp_presence :: "('w, 'i) presence_handle"

definition NewPortPolicyManager ::
    "('w, 'i, firewallPortRuleKey, ruleValue) bpf_handle \<Rightarrow> ('w, 'i) PortPolicyManager" where
  "NewPortPolicyManager m = \<lparr>pp_portPolicy = m, pp_presence = None\<rparr>"

definition PortPolicyManager_SetPresence ::
    "('w, 'i) PortPolicyManager \<Rightarrow> ('w, 'i) presence_handle \<Rightarrow> ('w, 'i) PortPolicyManager" where
  "PortPolicyManager_SetPresence pm m = pm\<lparr>pp_presence := m\<rparr>"

definition PortPolicyManager_syncPresence ::
    "('w, 'i) PortPolicyManager \<Rightarrow> 'w \<Rightarrow> 'w \<times> map_err option" where
  "PortPolicyManager_syncPresence pm w =
     (case mapHasEntries (pp_portPolicy pm) w of
        Inl err \<Rightarrow> (w, Some err)
      | Inr has \<Rightarrow>
          if has then setPresenceBit (pp_presence pm) rulePresencePort w
          else clearPresenceBit (pp_presence pm) rulePresencePort w)"

definition PortPolicyManager_BlockWithActionPriority ::
    "('w, 'i) PortPolicyManager \<Rightarrow> string \<Rightarrow> string \<Rightarrow> u16 \<Rightarrow> u16 \<Rightarrow> u32 \<Rightarrow> u32 \<Rightarrow> 'w
      \<Rightarrow> 'w \<times> fw_error option" where
  "PortPolicyManager_BlockWithActionPriority pm dst protocol dport sport action priority w =
     (case protoToCode protocol of
        Inl err \<Rightarrow> (w, Some err)
      | Inr proto \<Rightarrow>
          (case PortPolicyManager_newPortKey dst proto dport sport of
             Inl err \<Rightarrow> (w, Some err)
           | Inr key \<Rightarrow>
               (case setPresenceBit (pp_presence pm) rulePresencePort w of
                  (w1, Some err) \<Rightarrow> (w1, Some (MapError err))
                | (w1, None) \<Rightarrow>
                    (case m_put (pp_portPolicy pm) w1 key
                        \<lparr>rv_Action = action, rv_Priority = priority\<rparr> of
                       (w2, err) \<Rightarrow> (w2, map_option MapError err)))))"

definition PortPolicyManager_BlockWithAction ::
    "('w, 'i) PortPolicyManager \<Rightarrow> string \<Rightarrow> string \<Rightarrow> u16 \<Rightarrow> u16 \<Rightarrow> u32 \<Rightarrow> 'w
      \<Rightarrow> 'w \<times> fw_error option" where
  "PortPolicyManager_BlockWithAction pm dst protocol dport sport action w =
     PortPolicyManager_BlockWithActionPriority pm dst protocol dport sport action 0 w"

definition PortPolicyManager_Block ::
    "('w, 'i) PortPolicyManager \<Rightarrow> string \<Rightarrow> string \<Rightarrow> u16 \<Rightarrow> 'w \<Rightarrow> 'w \<times> fw_error option" where
  "PortPolicyManager_Block pm dst protocol dport w =
     PortPolicyManager_BlockWithAction pm dst protocol dport 0 ActionDrop w"

definition PortPolicyManager_UnblockWithAction ::
    "('w, 'i) PortPolicyManager \<Rightarrow> string \<Rightarrow> string \<Rightarrow> u16 \<Rightarrow> u16 \<Rightarrow> 'w
      \<Rightarrow> 'w \<times> fw_error option" where
  "PortPolicyManager_UnblockWithAction pm dst protocol dport sport w =
     (case protoToCode protocol of
        Inl err \<Rightarrow> (w, Some err)
      | Inr proto \<Rightarrow>
          (case PortPolicyManager_newPortKey dst proto dport sport of
             Inl err \<Rightarrow> (w, Some err)
           | Inr key \<Rightarrow>
               (case m_delete (pp_portPolicy pm) w key of
                  (w1, Some err) \<Rightarrow> (w1, Some (MapError err))
                | (w1, None) \<Rightarrow>
                    (case PortPolicyManager_syncPresence pm w1 of
                       (w2, err) \<Rightarrow> (w2, map_option MapError err)))))"

definition PortPolicyManager_Unblock ::
    "('w, 'i) PortPolicyManager \<Rightarrow> string \<Rightarrow> string \<Rightarrow> u16 \<Rightarrow> 'w \<Rightarrow> 'w \<times> fw_error option" where
  "PortPolicyManager_Unblock pm dst protocol dport w =
     PortPolicyManager_UnblockWithAction pm dst protocol dport 0 w"

text \<open>\<open>net.IP.String\<close> of the four bytes written by \<open>binary.LittleEndian.PutUint32\<close>.\<close>

definition le_ip_str :: "u32 \<Rightarrow> string" where
  "le_ip_str v = ipv4_str (byte_of 0 v) (byte_of 1 v) (byte_of 2 v) (byte_of 3 v)"

definition portRuleOf :: "firewallPortRuleKey \<times> ruleValue \<Rightarrow> PortRule" where
  "portRuleOf e = (case e of (key, value) \<Rightarrow>
     \<lparr>pr_Protocol = codeToProto (pk_Protocol key),
      pr_Port = wireToPort (pk_Dport key),
      pr_SPort = wireToPort (pk_Sport key),
      pr_Dst = le_ip_str (pk_Dst key),
      pr_Action = Action_String (rv_Action value),
      pr_Priority = rv_Priority value\<rparr>)"

definition PortPolicyManager_List ::
    "('w, 'i) PortPolicyManager \<Rightarrow> 'w \<Rightarrow> fw_error + PortRule slice" where
  "PortPolicyManager_List pm w =
     (case iterate_all (pp_portPolicy pm) w of
        (es, Some err) \<Rightarrow> Inl (MapError err)
      | (es, None) \<Rightarrow> Inr (Some (map portRuleOf es)))"

definition PortPolicyManager_Clear ::
    "('w, 'i) PortPolicyManager \<Rightarrow> 'w \<Rightarrow> 'w \<times> fw_error option" where
  "PortPolicyManager_Clear pm w =
     (case delete_all (pp_portPolicy pm) w of
        (w1, Some err) \<Rightarrow> (w1, Some (MapError err))
      | (w1, None) \<Rightarrow>
          (case PortPolicyManager_syncPresence pm w1 of
             (w2, err) \<Rightarrow> (w2, map_option MapError err)))"

section \<open>Keys\<close>

text \<open>The key a rule's arguments denote, or the error they are rejected with.\<close>

definition port_key :: "string \<Rightarrow> string \<Rightarrow> u16 \<Rightarrow> u16 \<Rightarrow> fw_error + firewallPortRuleKey" where
  "port_key dst protocol dport sport =
     (case protoToCode protocol of
        Inl err \<Rightarrow> Inl err
      | Inr proto \<Rightarrow> PortPolicyManager_newPortKey dst proto dport sport)"

text \<open>The wire encoding swaps the two bytes; it is its own inverse and keeps zero.\<close>

lemma portToWire_swap: "portToWire p = le16 (byte_of 1 p) (byte_of 0 p)"
proof -
  have "p AND 0xFF = take_bit 8 p" by (simp add: take_bit_eq_mask mask_eq_exp_minus_1)
  then show ?thesis
    unfolding portToWire_def le16_def byte_of_def
    by (simp only:) (rule bit_word_eqI, auto simp: bit_simps)
qed

lemma wireToPort_swap: "wireToPort w = le16 (byte_of 1 w) (byte_of 0 w)"
  by (simp add: wireToPort_def be16_swap)

lemma wireToPort_portToWire [simp]: "wireToPort (portToWire p) = p"
  by (simp add: portToWire_swap wireToPort_swap)

lemma portToWire_wireToPort [simp]: "portToWire (wireToPort w) = w"
  by (simp add: portToWire_swap wireToPort_swap)

lemma portToWire_inj: "portToWire p = portToWire q \<longleftrightarrow> p = q"
  by (metis wireToPort_portToWire)

lemma portToWire_0 [simp]: "portToWire 0 = 0" "wireToPort 0 = 0"
  by (simp_all add: portToWire_def wireToPort_def le16_def be16_def byte_of_def)

lemma portToWire_eq_0_iff [simp]: "portToWire p = 0 \<longleftrightarrow> p = 0"
  using portToWire_inj [of p 0] by simp

lemma protoToCode_cases:
  "protoToCode s = Inr c \<Longrightarrow> c = portAnyProtocol \<or> c = protoTCP \<or> c = protoUDP"
  by (auto simp: protoToCode_def Let_def split: if_splits)

lemma protoToCode_names [simp]:
  "protoToCode ''tcp'' = Inr protoTCP" "protoToCode ''udp'' = Inr protoUDP"
  "protoToCode '''' = Inr portAnyProtocol"
  by code_simp+

lemma protoToCode_codeToProto: "protoToCode s = Inr c \<Longrightarrow> protoToCode (codeToProto c) = Inr c"
  by (drule protoToCode_cases) (auto simp: codeToProto_def enum_defs simp flip: enum_defs)

lemma newPortKey_cases:
  "PortPolicyManager_newPortKey dst proto dport sport = Inl (InvalidIPv4Destination dst) \<or>
   (\<exists>v. PortPolicyManager_newPortKey dst proto dport sport =
      Inr \<lparr>pk_Protocol = proto, pk_Dport = portToWire dport, pk_Sport = portToWire sport, pk_Dst = v\<rparr>)"
  by (auto simp: PortPolicyManager_newPortKey_def split: option.splits list.splits)

lemma newPortKey_str:
  "PortPolicyManager_newPortKey (le_ip_str v) proto dport sport =
     Inr \<lparr>pk_Protocol = proto, pk_Dport = portToWire dport, pk_Sport = portToWire sport, pk_Dst = v\<rparr>"
proof -
  have "TrimSpace (ipv4_str a b c d) = ipv4_str a b c d" for a b c d
    using ipv4_str_plain by (intro TrimSpace_plain_all) (auto simp: ipv4_str_def)
  then show ?thesis
    by (simp add: PortPolicyManager_newPortKey_def le_ip_str_def ParseIP_def ParseAddr_ipv4_str)
qed

text \<open>A listed rule names its own key again, for the protocols a rule can be stored with.\<close>

lemma port_key_portRuleOf:
  assumes "pk_Protocol k \<in> {portAnyProtocol, protoTCP, protoUDP}"
  shows "port_key (pr_Dst (portRuleOf (k, v))) (pr_Protocol (portRuleOf (k, v)))
    (pr_Port (portRuleOf (k, v))) (pr_SPort (portRuleOf (k, v))) = Inr k"
proof -
  from assms have "protoToCode (codeToProto (pk_Protocol k)) = Inr (pk_Protocol k)"
    by (auto simp: codeToProto_def enum_defs simp flip: enum_defs)
  then show ?thesis by (simp add: port_key_def portRuleOf_def newPortKey_str)
qed

section \<open>The methods over the table\<close>

lemma PortPolicyManager_syncPresence_eq:
  "PortPolicyManager_syncPresence pm w =
     table_sync (pp_portPolicy pm) (pp_presence pm) rulePresencePort w"
  by (simp add: PortPolicyManager_syncPresence_def table_sync_def)

lemma PortPolicyManager_Block_eq:
  "PortPolicyManager_BlockWithActionPriority pm dst proto dport sport a p w =
     (case port_key dst proto dport sport of
        Inl err \<Rightarrow> (w, Some err)
      | Inr k \<Rightarrow> map_prod id (map_option MapError)
          (table_insert (pp_portPolicy pm) (pp_presence pm) rulePresencePort k
             \<lparr>rv_Action = a, rv_Priority = p\<rparr> w))"
  by (auto simp: PortPolicyManager_BlockWithActionPriority_def port_key_def table_insert_def
      split: sum.splits prod.splits option.splits)

lemma PortPolicyManager_Unblock_eq:
  "PortPolicyManager_UnblockWithAction pm dst proto dport sport w =
     (case port_key dst proto dport sport of
        Inl err \<Rightarrow> (w, Some err)
      | Inr k \<Rightarrow> map_prod id (map_option MapError)
          (table_remove (pp_portPolicy pm) (pp_presence pm) rulePresencePort k w))"
  by (auto simp: PortPolicyManager_UnblockWithAction_def PortPolicyManager_syncPresence_eq
      port_key_def table_remove_def split: sum.splits prod.splits option.splits)

lemma PortPolicyManager_Clear_eq:
  "PortPolicyManager_Clear pm w =
     map_prod id (map_option MapError)
       (table_clear (pp_portPolicy pm) (pp_presence pm) rulePresencePort w)"
  by (auto simp: PortPolicyManager_Clear_def PortPolicyManager_syncPresence_eq table_clear_def
      split: prod.splits option.splits)

section \<open>What the manager promises\<close>

definition sync_port :: "fw_maps \<Rightarrow> fw_maps" where
  "sync_port m = sync_flags rulePresencePort (port_policy m \<noteq> Map.empty) m"

text \<open>The maps after a rule is inserted or removed with its flag.\<close>

definition port_inserted :: "firewallPortRuleKey \<Rightarrow> ruleValue \<Rightarrow> fw_maps \<Rightarrow> fw_maps" where
  "port_inserted k v m =
     (advertise rulePresencePort m)\<lparr>port_policy := (port_policy m)(k \<mapsto> v)\<rparr>"

definition port_removed :: "firewallPortRuleKey \<Rightarrow> fw_maps \<Rightarrow> fw_maps" where
  "port_removed k m = sync_port (m\<lparr>port_policy := (port_policy m)(k := None)\<rparr>)"

lemmas port_change_defs = port_inserted_def port_removed_def advertise_def

locale port_env =
  rule_table view port_policy "\<lambda>c m. m\<lparr>port_policy := c\<rparr>" "\<lambda>c k. c k" "\<lambda>_. True" "\<lambda>_. True"
    cursor "pp_portPolicy pm" pcursor P rulePresencePort
  for view :: "'w \<Rightarrow> fw_maps"
    and cursor :: "'i \<Rightarrow> firewallPortRuleKey option"
    and pcursor :: "'i \<Rightarrow> u32 option"
    and pm :: "('w, 'i) PortPolicyManager"
    and P :: "('w, 'i, u32, u32) bpf_handle" +
  assumes presence_attached: "pp_presence pm = Some P"
begin

lemma exact_flags_port: "exact_flags = sync_port"
  by (simp add: fun_eq_iff exact_flags_def sync_port_def)

lemma Block_effect:
  assumes "PortPolicyManager_BlockWithActionPriority pm dst proto dport sport a p w = (w', e)"
  shows "case port_key dst proto dport sport of
      Inl err \<Rightarrow> w' = w \<and> e = Some err
    | Inr k \<Rightarrow>
        (e = None \<and> view w' = port_inserted k \<lparr>rv_Action = a, rv_Priority = p\<rparr> (view w)) \<or>
        (e \<noteq> None \<and> view w' \<in> {view w, advertise rulePresencePort (view w)})"
proof (cases "port_key dst proto dport sport")
  case (Inl err)
  with assms show ?thesis by (simp add: PortPolicyManager_Block_eq)
next
  case (Inr k)
  with assms obtain e' where
      t: "table_insert (pp_portPolicy pm) (Some P) rulePresencePort k
        \<lparr>rv_Action = a, rv_Priority = p\<rparr> w = (w', e')" and e: "e = map_option MapError e'"
    by (auto simp: PortPolicyManager_Block_eq presence_attached map_prod_def split: prod.splits)
  from table_insert_effect [OF t] Inr e show ?thesis by (auto simp: port_change_defs)
qed

lemma Unblock_effect:
  assumes "PortPolicyManager_UnblockWithAction pm dst proto dport sport w = (w', e)"
  shows "case port_key dst proto dport sport of
      Inl err \<Rightarrow> w' = w \<and> e = Some err
    | Inr k \<Rightarrow>
        (e = None \<and> k \<in> dom (port_policy (view w)) \<and>
         view w' = port_removed k (view w)) \<or>
        (e \<noteq> None \<and>
         view w' \<in> {view w, (view w)\<lparr>port_policy := (port_policy (view w))(k := None)\<rparr>})"
proof (cases "port_key dst proto dport sport")
  case (Inl err)
  with assms show ?thesis by (simp add: PortPolicyManager_Unblock_eq)
next
  case (Inr k)
  with assms obtain e' where
      t: "table_remove (pp_portPolicy pm) (Some P) rulePresencePort k w = (w', e')"
      and e: "e = map_option MapError e'"
    by (auto simp: PortPolicyManager_Unblock_eq presence_attached map_prod_def split: prod.splits)
  from table_remove_effect [OF t, unfolded exact_flags_port] Inr e show ?thesis by (auto simp: port_change_defs)
qed

lemma Clear_effect:
  assumes "PortPolicyManager_Clear pm w = (w', e)"
  shows "(e = None \<and> view w' = sync_port ((view w)\<lparr>port_policy := Map.empty\<rparr>)) \<or>
    (e \<noteq> None \<and> (\<exists>c. c \<subseteq>\<^sub>m port_policy (view w) \<and> view w' = (view w)\<lparr>port_policy := c\<rparr>))"
proof -
  from assms obtain e' where
      "table_clear (pp_portPolicy pm) (Some P) rulePresencePort w = (w', e')"
      and "e = map_option MapError e'"
    by (auto simp: PortPolicyManager_Clear_eq presence_attached map_prod_def split: prod.splits)
  with table_clear_effect [OF this(1), unfolded exact_flags_port] show ?thesis by auto
qed

lemma List_effect:
  assumes "PortPolicyManager_List pm w = Inr rules"
  shows "\<exists>es. distinct (map fst es) \<and> map_of es = port_policy (view w) \<and>
    rules = Some (map portRuleOf es)"
proof -
  from assms obtain es where es: "iterate_all (pp_portPolicy pm) w = (es, None)"
      and r: "rules = Some (map portRuleOf es)"
    by (auto simp: PortPolicyManager_List_def split: prod.splits option.splits)
  from T.iterate_all_map_of [OF es] r show ?thesis by blast
qed

end

end
