(* ===== verification/Conntrack.thy ===== *)
theory Conntrack
  imports PortPolicy
begin

text \<open>
  \<open>control/ebpf/conntrack.go\<close>: \<open>ConntrackManager\<close>, which lists, clears and ages out the flows
  the datapath records. The monotonic clock is a parameter: \<open>ClockGettime\<close> of a world is the
  \<open>Timespec\<close> read (seconds and nanoseconds), or \<open>None\<close> when the call fails. A
  \<open>time.Duration\<close> is a signed 64-bit word, as in Go.
\<close>

type_synonym 'w clock = "'w \<Rightarrow> (u64 \<times> u64) option"

record ('w, 'i) ConntrackManager =
  ct_conntrack :: "('w, 'i, ctKey, ctValue) bpf_handle"
  ct_clock :: "'w clock"

definition NewConntrackManager ::
    "('w, 'i, ctKey, ctValue) bpf_handle \<Rightarrow> 'w clock \<Rightarrow> ('w, 'i) ConntrackManager" where
  "NewConntrackManager m clk = \<lparr>ct_conntrack = m, ct_clock = clk\<rparr>"

definition monotonicNanos :: "'w clock \<Rightarrow> 'w \<Rightarrow> fw_error + u64" where
  "monotonicNanos ClockGettime w =
     (case ClockGettime w of
        None \<Rightarrow> Inl ClockError
      | Some (sec, nsec) \<Rightarrow> Inr (sec * 1000000000 + nsec))"

definition ctEntry :: "ctKey \<Rightarrow> ctValue \<Rightarrow> u64 \<Rightarrow> ConntrackEntry" where
  "ctEntry key value nowNs =
     \<lparr>ce_Src = le_ip_str (ck_Saddr key),
      ce_Dst = le_ip_str (ck_Daddr key),
      ce_Sport = wireToPort (ck_Sport key),
      ce_Dport = wireToPort (ck_Dport key),
      ce_Protocol = codeToProto (ck_Protocol key),
      ce_State = ctStateString (cv_State value),
      ce_AgeSeconds = NanosInSeconds (if nowNs > cv_LastSeen value then nowNs - cv_LastSeen value else 0)\<rparr>"

definition ConntrackManager_keys :: "('w, 'i) ConntrackManager \<Rightarrow> 'w \<Rightarrow> fw_error + ctKey slice" where
  "ConntrackManager_keys cm w =
     (case iterate_all (ct_conntrack cm) w of
        (es, Some err) \<Rightarrow> Inl (MapError err)
      | (es, None) \<Rightarrow> Inr (append_all (map fst es)))"

definition ConntrackManager_List ::
    "('w, 'i) ConntrackManager \<Rightarrow> 'w \<Rightarrow> fw_error + ConntrackEntry slice" where
  "ConntrackManager_List cm w =
     (case monotonicNanos (ct_clock cm) w of
        Inl err \<Rightarrow> Inl err
      | Inr nowNs \<Rightarrow>
          (case iterate_all (ct_conntrack cm) w of
             (es, Some err) \<Rightarrow> Inl (MapError err)
           | (es, None) \<Rightarrow> Inr (Some (map (\<lambda>(key, value). ctEntry key value nowNs) es))))"

definition ConntrackManager_Clear :: "('w, 'i) ConntrackManager \<Rightarrow> 'w \<Rightarrow> 'w \<times> fw_error option" where
  "ConntrackManager_Clear cm w =
     (case ConntrackManager_keys cm w of
        Inl err \<Rightarrow> (w, Some err)
      | Inr keys \<Rightarrow>
          (case delete_keys (ct_conntrack cm) (slice_list keys) w of
             (w', n, err) \<Rightarrow> (w', map_option MapError err)))"

definition reap_cutoff :: "u64 \<Rightarrow> u64 \<Rightarrow> u64" where
  "reap_cutoff idle nowNs = (if idle < nowNs then nowNs - idle else 0)"

text \<open>The condition under which the scan of \<open>Reap\<close> collects an entry.\<close>

definition reap_stale :: "u64 \<Rightarrow> u64 \<Rightarrow> ctValue \<Rightarrow> bool" where
  "reap_stale idle nowNs value \<longleftrightarrow>
     (let reapAll = (sint idle \<le> 0);
          cutoff = (if reapAll then 0 else reap_cutoff idle nowNs)
      in reapAll \<or> cv_LastSeen value \<le> cutoff)"

definition ConntrackManager_Reap ::
    "('w, 'i) ConntrackManager \<Rightarrow> u64 \<Rightarrow> 'w \<Rightarrow> 'w \<times> nat \<times> fw_error option" where
  "ConntrackManager_Reap cm idle w =
     (case monotonicNanos (ct_clock cm) w of
        Inl err \<Rightarrow> (w, 0, Some err)
      | Inr nowNs \<Rightarrow>
          (case iterate_all (ct_conntrack cm) w of
             (es, Some err) \<Rightarrow> (w, 0, Some (MapError err))
           | (es, None) \<Rightarrow>
               (let stale = map fst (filter (\<lambda>(key, value). reap_stale idle nowNs value) es) in
                case delete_keys (ct_conntrack cm) stale w of
                  (w', reaped, err) \<Rightarrow> (w', reaped, map_option MapError err))))"

section \<open>Which entries are stale\<close>

text \<open>The word arithmetic of the cutoff means what the comment says, an entry idle for at least
  \<open>idle\<close>, as long as the entry was seen after boot time zero or the machine is up that long.\<close>

lemma reap_stale_age:
  assumes "0 < sint idle" "cv_LastSeen v \<noteq> 0 \<or> idle \<le> now"
  shows "reap_stale idle now v \<longleftrightarrow> unat (cv_LastSeen v) + unat idle \<le> unat now"
proof (cases "idle < now")
  case True
  then have "unat (now - idle) = unat now - unat idle" by (simp add: unat_sub order.strict_implies_order)
  with True assms show ?thesis
    by (auto simp: reap_stale_def reap_cutoff_def Let_def word_le_nat_alt word_less_nat_alt)
next
  case False
  have "unat (cv_LastSeen v) = 0 \<longleftrightarrow> cv_LastSeen v = 0" by (simp add: unat_eq_0)
  with False assms show ?thesis
    by (auto simp: reap_stale_def reap_cutoff_def Let_def word_le_nat_alt word_less_nat_alt)
qed

lemma reap_stale_all: "sint idle \<le> 0 \<Longrightarrow> reap_stale idle now v"
  by (simp add: reap_stale_def Let_def)

section \<open>What the manager promises\<close>

locale conntrack_env =
  T: bpf_map view conntrack "\<lambda>c m. m\<lparr>conntrack := c\<rparr>" "\<lambda>c k. c k" "\<lambda>_. True" "\<lambda>_. True"
    cursor "ct_conntrack cm"
  for view :: "'w \<Rightarrow> fw_maps"
    and cursor :: "'i \<Rightarrow> ctKey option"
    and cm :: "('w, 'i) ConntrackManager"
begin

lemma List_effect:
  assumes "ConntrackManager_List cm w = Inr flows"
  shows "\<exists>es now. monotonicNanos (ct_clock cm) w = Inr now \<and> distinct (map fst es) \<and>
    map_of es = conntrack (view w) \<and> flows = Some (map (\<lambda>(k, v). ctEntry k v now) es)"
proof -
  from assms obtain now es where "monotonicNanos (ct_clock cm) w = Inr now"
      and es: "iterate_all (ct_conntrack cm) w = (es, None)"
      and "flows = Some (map (\<lambda>(k, v). ctEntry k v now) es)"
    by (auto simp: ConntrackManager_List_def split: sum.splits prod.splits option.splits)
  with T.iterate_all_map_of [OF es] show ?thesis by blast
qed

lemma Clear_effect:
  assumes "ConntrackManager_Clear cm w = (w', e)"
  shows "(e = None \<and> view w' = (view w)\<lparr>conntrack := Map.empty\<rparr>) \<or>
    (e \<noteq> None \<and> (\<exists>c. c \<subseteq>\<^sub>m conntrack (view w) \<and> view w' = (view w)\<lparr>conntrack := c\<rparr>))"
proof (cases "iterate_all (ct_conntrack cm) w")
  case (Pair es ie)
  show ?thesis
  proof (cases ie)
    case None
    then have es: "iterate_all (ct_conntrack cm) w = (es, None)" using Pair by simp
    obtain n de where d: "delete_keys (ct_conntrack cm) (map fst es) w = (w', n, de)"
        and e: "e = map_option MapError de"
      using assms es by (auto simp: ConntrackManager_Clear_def ConntrackManager_keys_def split: prod.splits)
    from T.delete_keys_effect [OF d] have
        v: "view w' = (view w)\<lparr>conntrack := conntrack (view w) |` (- set (take n (map fst es)))\<rparr>"
        and n: "de = None \<longrightarrow> n = length (map fst es)" by simp_all
    from T.iterate_all_map_of [OF es] have m: "map_of es = conntrack (view w)" by simp
    have "dom (conntrack (view w)) = fst ` set es" unfolding m [symmetric] by (rule dom_map_of_conv_image_fst)
    then have "conntrack (view w) |` (- set (map fst es)) = Map.empty"
      by (auto simp: restrict_map_def fun_eq_iff dom_def)
    with v n e show ?thesis
      by (cases de) (simp_all, metis restrict_map_le)
  next
    case (Some e1)
    with Pair assms have "w' = w" "e = Some (MapError e1)"
      by (simp_all add: ConntrackManager_Clear_def ConntrackManager_keys_def)
    then show ?thesis by (auto intro!: exI [of _ "conntrack (view w)"])
  qed
qed

text \<open>The deletions of a reap: on success exactly the stale entries are gone and counted, on a
  failure some of them.\<close>

lemma reap_deletions:
  assumes d: "delete_keys (ct_conntrack cm) (map fst (filter (\<lambda>(k, v). Q v) es)) w = (w', n, e)"
    and es: "distinct (map fst es)" "map_of es = conntrack (view w)"
  shows "e = None \<and>
      view w' = (view w)\<lparr>conntrack := conntrack (view w) |`
        {k. \<exists>v. conntrack (view w) k = Some v \<and> \<not> Q v}\<rparr> \<and>
      n = card {k. \<exists>v. conntrack (view w) k = Some v \<and> Q v} \<or>
    e \<noteq> None \<and> (\<exists>c. c \<subseteq>\<^sub>m conntrack (view w) \<and> view w' = (view w)\<lparr>conntrack := c\<rparr> \<and>
      (\<forall>k v. conntrack (view w) k = Some v \<longrightarrow> \<not> Q v \<longrightarrow> c k = Some v))"
proof -
  let ?st = "map fst (filter (\<lambda>(k, v). Q v) es)"
  from T.delete_keys_effect [OF d] have
      v: "view w' = (view w)\<lparr>conntrack := conntrack (view w) |` (- set (take n ?st))\<rparr>"
      and n: "n \<le> length ?st" "e = None \<longrightarrow> n = length ?st" by simp_all
  note st = filtered_keys [OF es(1), of Q, unfolded es(2)]
  show ?thesis
  proof (cases e)
    case None
    have "n = card (set ?st)" using None n(2) distinct_card [OF st(2)] by simp
    moreover have "view w' = (view w)\<lparr>conntrack := conntrack (view w) |` (- set ?st)\<rparr>"
      using v None n(2) by simp
    moreover have "conntrack (view w) |` (- set ?st) =
        conntrack (view w) |` {k. \<exists>v. conntrack (view w) k = Some v \<and> \<not> Q v}"
      unfolding st(1) by (auto simp: restrict_map_def fun_eq_iff)
    ultimately show ?thesis using None unfolding st(1) by simp
  next
    case (Some e2)
    have "k \<notin> set (take n ?st)" if "conntrack (view w) k = Some u" "\<not> Q u" for k u
    proof -
      from that have "k \<notin> set ?st" unfolding st(1) by simp
      then show ?thesis using set_take_subset [of n ?st] by blast
    qed
    with Some v show ?thesis
      by (intro disjI2 conjI exI [of _ "conntrack (view w) |` (- set (take n ?st))"])
        (auto simp: restrict_map_def map_le_def split: if_splits)
  qed
qed

lemma Reap_effect:
  assumes "ConntrackManager_Reap cm idle w = (w', n, e)"
  shows "(e \<noteq> None \<and> w' = w \<and> n = 0) \<or>
    (\<exists>now. monotonicNanos (ct_clock cm) w = Inr now \<and>
      (e = None \<and>
        view w' = (view w)\<lparr>conntrack := conntrack (view w) |`
          {k. \<exists>v. conntrack (view w) k = Some v \<and> \<not> reap_stale idle now v}\<rparr> \<and>
        n = card {k. \<exists>v. conntrack (view w) k = Some v \<and> reap_stale idle now v} \<or>
       e \<noteq> None \<and> (\<exists>c. c \<subseteq>\<^sub>m conntrack (view w) \<and> view w' = (view w)\<lparr>conntrack := c\<rparr> \<and>
        (\<forall>k v. conntrack (view w) k = Some v \<longrightarrow> \<not> reap_stale idle now v \<longrightarrow> c k = Some v))))"
proof (cases "monotonicNanos (ct_clock cm) w")
  case (Inl err)
  with assms show ?thesis by (auto simp: ConntrackManager_Reap_def)
next
  case (Inr now)
  obtain es ie where it: "iterate_all (ct_conntrack cm) w = (es, ie)" by fastforce
  show ?thesis
  proof (cases ie)
    case (Some e1)
    with assms it Inr show ?thesis by (auto simp: ConntrackManager_Reap_def)
  next
    case None
    then have it: "iterate_all (ct_conntrack cm) w = (es, None)" using it by simp
    then obtain de where
        d: "delete_keys (ct_conntrack cm) (map fst (filter (\<lambda>(k, v). reap_stale idle now v) es)) w =
          (w', n, de)" and e: "e = map_option MapError de"
      using assms Inr by (auto simp: ConntrackManager_Reap_def Let_def split: prod.splits)
    from T.iterate_all_map_of [OF it] have "distinct (map fst es)" "map_of es = conntrack (view w)"
      by simp_all
    from reap_deletions [OF d this] e Inr show ?thesis
      by (cases de) simp_all
  qed
qed

end

end
