(* ===== verification/Counters.thy ===== *)
theory Counters
  imports BpfMaps Protocol
begin

text \<open>
  \<open>control/ebpf/counters.go\<close> and the \<open>ConfigManager\<close> of \<open>control/ebpf/config.go\<close>: the two
  managers over array maps, one reading the global packet counters, one reading and writing the
  default policy.
\<close>

section \<open>CounterManager\<close>

definition counterTotal :: u32 where "counterTotal = 0"
definition counterDrop :: u32 where "counterDrop = 1"
definition counterPass :: u32 where "counterPass = 2"
definition counterMax :: nat where "counterMax = 3"

record ('w, 'i) CounterManager =
  cm_counters :: "('w, 'i, u32, counterValue) bpf_handle"

definition NewCounterManager :: "('w, 'i, u32, counterValue) bpf_handle \<Rightarrow> ('w, 'i) CounterManager" where
  "NewCounterManager m = \<lparr>cm_counters = m\<rparr>"

definition zeroStats :: Stats where
  "zeroStats = \<lparr>st_TotalPackets = 0, st_TotalBytes = 0, st_DropPackets = 0, st_DropBytes = 0,
     st_PassPackets = 0, st_PassBytes = 0\<rparr>"

text \<open>The \<open>switch\<close> of the loop body: which fields of the reply slot \<open>i\<close> fills.\<close>

definition store_slot :: "u32 \<Rightarrow> counterValue \<Rightarrow> Stats \<Rightarrow> Stats" where
  "store_slot i val stats =
     (if i = counterTotal then
        stats\<lparr>st_TotalPackets := cnt_Packets val, st_TotalBytes := cnt_Bytes val\<rparr>
      else if i = counterDrop then
        stats\<lparr>st_DropPackets := cnt_Packets val, st_DropBytes := cnt_Bytes val\<rparr>
      else if i = counterPass then
        stats\<lparr>st_PassPackets := cnt_Packets val, st_PassBytes := cnt_Bytes val\<rparr>
      else stats)"

text \<open>The loop \<open>for i := uint32(0); i < counterMax; i++\<close> from index \<open>i\<close>, \<open>n\<close> turns left.\<close>

fun read_slots ::
    "('w, 'i) CounterManager \<Rightarrow> 'w \<Rightarrow> nat \<Rightarrow> u32 \<Rightarrow> Stats \<Rightarrow> fw_error + Stats" where
  "read_slots cm w 0 i stats = Inr stats"
| "read_slots cm w (Suc n) i stats =
     (case m_lookup (cm_counters cm) w i of
        Inl err \<Rightarrow>
          if errors_Is err ErrKeyNotExist then read_slots cm w n (i + 1) stats
          else Inl (MapError err)
      | Inr val \<Rightarrow> read_slots cm w n (i + 1) (store_slot i val stats))"

definition CounterManager_GetCounters :: "('w, 'i) CounterManager \<Rightarrow> 'w \<Rightarrow> fw_error + Stats" where
  "CounterManager_GetCounters cm w = read_slots cm w counterMax 0 zeroStats"

section \<open>ConfigManager\<close>

definition configKey :: u32 where "configKey = 0"

record ('w, 'i) ConfigManager =
  cf_config :: "('w, 'i, u32, u32) bpf_handle"

definition NewConfigManager :: "('w, 'i, u32, u32) bpf_handle \<Rightarrow> ('w, 'i) ConfigManager" where
  "NewConfigManager m = \<lparr>cf_config = m\<rparr>"

definition ConfigManager_SetDefaultPolicy ::
    "('w, 'i) ConfigManager \<Rightarrow> u32 \<Rightarrow> 'w \<Rightarrow> 'w \<times> fw_error option" where
  "ConfigManager_SetDefaultPolicy cm p w =
     (case m_put (cf_config cm) w configKey p of
        (w', err) \<Rightarrow> (w', map_option MapError err))"

text \<open>The comparison is \<open>err == ebpf.ErrKeyNotExist\<close>, not \<open>errors.Is\<close>.\<close>

definition ConfigManager_DefaultPolicy :: "('w, 'i) ConfigManager \<Rightarrow> 'w \<Rightarrow> fw_error + u32" where
  "ConfigManager_DefaultPolicy cm w =
     (case m_lookup (cf_config cm) w configKey of
        Inl err \<Rightarrow> if err = ErrKeyNotExist then Inr DefaultAllow else Inl (MapError err)
      | Inr value \<Rightarrow> Inr value)"

section \<open>What the managers promise\<close>

text \<open>The counters and the default policy as the datapath sees them.\<close>

definition slot :: "u32 \<Rightarrow> fw_maps \<Rightarrow> counterValue" where
  "slot i m = (case counters m i of None \<Rightarrow> \<lparr>cnt_Packets = 0, cnt_Bytes = 0\<rparr> | Some v \<Rightarrow> v)"

definition stats_of :: "fw_maps \<Rightarrow> Stats" where
  "stats_of m =
     \<lparr>st_TotalPackets = cnt_Packets (slot counterTotal m), st_TotalBytes = cnt_Bytes (slot counterTotal m),
      st_DropPackets = cnt_Packets (slot counterDrop m), st_DropBytes = cnt_Bytes (slot counterDrop m),
      st_PassPackets = cnt_Packets (slot counterPass m), st_PassBytes = cnt_Bytes (slot counterPass m)\<rparr>"

definition config_policy :: "fw_maps \<Rightarrow> u32" where
  "config_policy m = (case firewall_config m configKey of None \<Rightarrow> DefaultAllow | Some p \<Rightarrow> p)"

locale counter_env =
  T: bpf_map view counters "\<lambda>c m. m\<lparr>counters := c\<rparr>" "\<lambda>c k. c k" "\<lambda>_. True" "\<lambda>_. True" cursor
    "cm_counters cm"
  for view :: "'w \<Rightarrow> fw_maps"
    and cursor :: "'i \<Rightarrow> u32 option"
    and cm :: "('w, 'i) CounterManager"
begin

lemma read_slot:
  "read_slots cm w (Suc n) i s = Inr r \<Longrightarrow>
     read_slots cm w n (i + 1) (if i \<in> dom (counters (view w)) then store_slot i (slot i (view w)) s else s)
       = Inr r"
  using T.lookup_found [of w i] T.lookup_missing [of w i]
  by (auto simp: slot_def domIff split: sum.splits if_splits)

lemma GetCounters_effect:
  assumes "CounterManager_GetCounters cm w = Inr s"
  shows "s = stats_of (view w)"
proof -
  note slots = counterTotal_def counterDrop_def counterPass_def
  from assms have "read_slots cm w 3 0 zeroStats = Inr s"
    by (simp add: CounterManager_GetCounters_def counterMax_def)
  note 1 = read_slot [OF this [unfolded numeral_3_eq_3]]
  note 2 = read_slot [OF 1]
  note 3 = read_slot [OF 2]
  have "slot i (view w) = \<lparr>cnt_Packets = 0, cnt_Bytes = 0\<rparr>" if "i \<notin> dom (counters (view w))" for i
    using that by (auto simp: slot_def split: option.splits)
  with 3 show ?thesis
    by (auto simp: stats_of_def store_slot_def zeroStats_def slots split: if_splits)
qed

end

locale config_env =
  T: bpf_map view firewall_config "\<lambda>c m. m\<lparr>firewall_config := c\<rparr>" "\<lambda>c k. c k" "\<lambda>_. True"
    "\<lambda>_. True" cursor "cf_config cm"
  for view :: "'w \<Rightarrow> fw_maps"
    and cursor :: "'i \<Rightarrow> u32 option"
    and cm :: "('w, 'i) ConfigManager"
begin

lemma SetDefaultPolicy_effect:
  assumes "ConfigManager_SetDefaultPolicy cm p w = (w', e)"
  shows "(e = None \<and>
      view w' = (view w)\<lparr>firewall_config := (firewall_config (view w))(configKey \<mapsto> p)\<rparr>) \<or>
    (e \<noteq> None \<and> view w' = view w)"
  using assms T.put_ok [of w configKey p] T.put_err [of w configKey p]
  by (auto simp: ConfigManager_SetDefaultPolicy_def split: prod.splits) (metis option.exhaust)+

lemma DefaultPolicy_effect:
  assumes "ConfigManager_DefaultPolicy cm w = Inr p"
  shows "p = config_policy (view w)"
  using assms T.lookup_found [of w configKey] T.lookup_missing [of w configKey]
  by (auto simp: ConfigManager_DefaultPolicy_def config_policy_def split: sum.splits if_splits)

end

end
