(* ===== verification/Xdp.thy ===== *)
theory Xdp
  imports Bindings Blocklist Conntrack Counters
begin

text \<open>
  \<open>control/ebpf/xdp.go\<close>: \<open>XDPProgram\<close>, the life cycle (load, attach, detach, close) of the
  program and its maps. The collection library, the \<open>link\<close> package and the interface
  lookup are parameters, the record \<open>xdp_env\<close>; a link is a value of \<open>'l\<close>. A method with a
  pointer receiver returns the receiver as it left it.
\<close>

datatype xdp_mode = XDPDriverMode | XDPGenericMode

definition AttachModeDriver :: string where "AttachModeDriver = ''xdpDriver''"
definition AttachModeGeneric :: string where "AttachModeGeneric = ''xdpGeneric''"

record ('w, 'i, 'l) xdp_env =
  xe_InterfaceByName :: "string \<Rightarrow> 'w \<Rightarrow> sys_err + nat"
  xe_collection :: "('w, 'i) collection_env"
  xe_AttachXDP :: "nat \<Rightarrow> nat \<Rightarrow> xdp_mode \<Rightarrow> 'w \<Rightarrow> 'w \<times> (sys_err + 'l)"
  xe_linkClose :: "'l \<Rightarrow> 'w \<Rightarrow> 'w \<times> sys_err option"
  xe_ClockGettime :: "'w clock"

record ('w, 'i, 'l) XDPProgram =
  x_ifaceName :: string
  x_ifaceIndex :: nat
  x_prog :: nat
  x_link :: "'l option"
  x_objs :: "('w, 'i) firewallObjects"
  x_attachMode :: string

definition LoadXDP ::
    "('w, 'i, 'l) xdp_env \<Rightarrow> string \<Rightarrow> 'w \<Rightarrow> 'w \<times> (fw_error + ('w, 'i, 'l) XDPProgram)" where
  "LoadXDP env ifaceName w =
     (case xe_InterfaceByName env ifaceName w of
        Inl err \<Rightarrow> (w, Inl (InterfaceError ifaceName err))
      | Inr idx \<Rightarrow>
          (case loadFirewallObjects (xe_collection env) w of
             (w1, Inl err) \<Rightarrow> (w1, Inl (LoadError err))
           | (w1, Inr objs) \<Rightarrow>
               (w1, Inr \<lparr>x_ifaceName = ifaceName, x_ifaceIndex = idx, x_prog = fo_FirewallProg objs,
                  x_link = None, x_objs = objs, x_attachMode = ''''\<rparr>)))"

definition XDPProgram_attach ::
    "('w, 'i, 'l) xdp_env \<Rightarrow> ('w, 'i, 'l) XDPProgram \<Rightarrow> xdp_mode \<Rightarrow> 'w
      \<Rightarrow> 'w \<times> (sys_err + string \<times> 'l)" where
  "XDPProgram_attach env x flags w =
     (case xe_AttachXDP env (x_prog x) (x_ifaceIndex x) flags w of
        (w1, Inl err) \<Rightarrow> (w1, Inl err)
      | (w1, Inr l) \<Rightarrow>
          (w1, Inr (if flags = XDPGenericMode then AttachModeGeneric else AttachModeDriver, l)))"

definition XDPProgram_Start ::
    "('w, 'i, 'l) xdp_env \<Rightarrow> ('w, 'i, 'l) XDPProgram \<Rightarrow> 'w
      \<Rightarrow> 'w \<times> ('w, 'i, 'l) XDPProgram \<times> fw_error option" where
  "XDPProgram_Start env x w =
     (if x_link x \<noteq> None then (w, x, None)
      else
        (let attached =
           (case XDPProgram_attach env x XDPDriverMode w of
              (w1, Inl err) \<Rightarrow> XDPProgram_attach env x XDPGenericMode w1
            | ok \<Rightarrow> ok)
         in case attached of
              (w1, Inl err) \<Rightarrow>
                (case firewallObjects_Close (xe_collection env) (x_objs x) w1 of
                   (w2, _) \<Rightarrow> (w2, x, Some (AttachError (x_ifaceName x) err)))
            | (w1, Inr (mode, l)) \<Rightarrow> (w1, x\<lparr>x_attachMode := mode, x_link := Some l\<rparr>, None)))"

definition XDPProgram_AttachMode :: "('w, 'i, 'l) XDPProgram \<Rightarrow> string" where
  "XDPProgram_AttachMode x = x_attachMode x"

definition XDPProgram_BlockedIps :: "('w, 'i, 'l) XDPProgram \<Rightarrow> ('w, 'i, firewallIpv4LpmKey, ruleValue) bpf_handle" where
  "XDPProgram_BlockedIps x = fo_BlockedIps (x_objs x)"

definition XDPProgram_Counters :: "('w, 'i, 'l) XDPProgram \<Rightarrow> ('w, 'i, u32, counterValue) bpf_handle" where
  "XDPProgram_Counters x = fo_Counters (x_objs x)"

definition XDPProgram_PortPolicy :: "('w, 'i, 'l) XDPProgram \<Rightarrow> ('w, 'i, firewallPortRuleKey, ruleValue) bpf_handle" where
  "XDPProgram_PortPolicy x = fo_PortPolicy (x_objs x)"

definition XDPProgram_Config :: "('w, 'i, 'l) XDPProgram \<Rightarrow> ('w, 'i, u32, u32) bpf_handle" where
  "XDPProgram_Config x = fo_FirewallConfig (x_objs x)"

definition XDPProgram_RulePresence :: "('w, 'i, 'l) XDPProgram \<Rightarrow> ('w, 'i, u32, u32) bpf_handle" where
  "XDPProgram_RulePresence x = fo_RulePresence (x_objs x)"

definition XDPProgram_Conntrack :: "('w, 'i, 'l) XDPProgram \<Rightarrow> ('w, 'i, ctKey, ctValue) bpf_handle" where
  "XDPProgram_Conntrack x = fo_Conntrack (x_objs x)"

lemmas XDPProgram_maps = XDPProgram_BlockedIps_def XDPProgram_Counters_def XDPProgram_PortPolicy_def
  XDPProgram_Config_def XDPProgram_RulePresence_def XDPProgram_Conntrack_def

definition XDPProgram_Close ::
    "('w, 'i, 'l) xdp_env \<Rightarrow> ('w, 'i, 'l) XDPProgram \<Rightarrow> 'w
      \<Rightarrow> 'w \<times> ('w, 'i, 'l) XDPProgram \<times> fw_error option" where
  "XDPProgram_Close env x w =
     (let (w1, x1, firstErr) =
        (case x_link x of
           None \<Rightarrow> (w, x, None)
         | Some l \<Rightarrow> (case xe_linkClose env l w of (w1, err) \<Rightarrow> (w1, x\<lparr>x_link := None\<rparr>, err)))
      in case firewallObjects_Close (xe_collection env) (x_objs x1) w1 of
           (w2, err) \<Rightarrow>
             (w2, x1, map_option SysError
               (if err \<noteq> None \<and> firstErr = None then err else firstErr)))"

section \<open>The life cycle\<close>

text \<open>A program object is fresh, attached in one of the two modes, or closed.\<close>

definition xdp_attached :: "('w, 'i, 'l) XDPProgram \<Rightarrow> bool" where
  "xdp_attached x \<longleftrightarrow> x_link x \<noteq> None"

definition xdp_ok :: "('w, 'i, 'l) XDPProgram \<Rightarrow> bool" where
  "xdp_ok x \<longleftrightarrow> x_prog x = fo_FirewallProg (x_objs x) \<and>
     (xdp_attached x \<longrightarrow> x_attachMode x = AttachModeDriver \<or> x_attachMode x = AttachModeGeneric)"

lemma LoadXDP_ok:
  "LoadXDP env i w = (w', Inr x) \<Longrightarrow>
     xdp_ok x \<and> \<not> xdp_attached x \<and> x_attachMode x = '''' \<and> x_ifaceName x = i \<and>
     loadFirewallObjects (xe_collection env) w = (w', Inr (x_objs x))"
  by (auto simp: LoadXDP_def xdp_ok_def xdp_attached_def split: sum.splits prod.splits)

lemma Start_attached: "xdp_attached x \<Longrightarrow> XDPProgram_Start env x w = (w, x, None)"
  by (simp add: XDPProgram_Start_def xdp_attached_def)

lemma Start_spec:
  assumes "XDPProgram_Start env x w = (w', x', e)" "xdp_ok x" "\<not> xdp_attached x"
  shows "(e = None \<and> xdp_ok x' \<and> xdp_attached x' \<and> x_objs x' = x_objs x \<and>
        (x_attachMode x' = AttachModeDriver \<longleftrightarrow>
           (\<exists>l. snd (xe_AttachXDP env (x_prog x) (x_ifaceIndex x) XDPDriverMode w) = Inr l))) \<or>
    (\<exists>err w1. e = Some (AttachError (x_ifaceName x) err) \<and> x' = x \<and>
        w' = fst (firewallObjects_Close (xe_collection env) (x_objs x) w1))"
  using assms
  by (auto simp: XDPProgram_Start_def XDPProgram_attach_def Let_def xdp_ok_def xdp_attached_def
      AttachModeDriver_def AttachModeGeneric_def split: prod.splits sum.splits) (metis fst_conv)+

lemma Close_spec:
  assumes "XDPProgram_Close env x w = (w', x', e)"
  shows "\<not> xdp_attached x' \<and> x_objs x' = x_objs x \<and>
    (\<exists>w1 le oe. (case x_link x of
           None \<Rightarrow> w1 = w \<and> le = None
         | Some l \<Rightarrow> xe_linkClose env l w = (w1, le)) \<and>
       firewallObjects_Close (xe_collection env) (x_objs x) w1 = (w', oe) \<and>
       e = map_option SysError (case le of None \<Rightarrow> oe | Some _ \<Rightarrow> le))"
  using assms
  by (cases "x_link x")
    (auto simp: XDPProgram_Close_def xdp_attached_def Let_def split: prod.splits option.splits if_splits)

end
