(* ===== verification/Facade.thy ===== *)
theory Facade
  imports Xdp
begin

text \<open>
  \<open>control/ebpf/facade.go\<close>: \<open>Firewall\<close>, the one handle the daemon and the control server use.
  \<open>NewFirewall\<close> wires the managers to the maps of the loaded program; the methods parse the
  action or policy name, call the manager and wrap its error (\<open>Wrapped\<close>; the text of the
  \<open>%w\<close>-wrapping message is reduced to its first words).
\<close>

record ('w, 'i, 'l) Firewall =
  fw_prog :: "('w, 'i, 'l) XDPProgram"
  fw_mgr :: "('w, 'i) MapManager"
  fw_counterMgr :: "('w, 'i) CounterManager"
  fw_portPolicyMgr :: "('w, 'i) PortPolicyManager"
  fw_configMgr :: "('w, 'i) ConfigManager"
  fw_ctMgr :: "('w, 'i) ConntrackManager"

text \<open>The wiring of \<open>NewFirewall\<close> once the program is loaded; the clock of the conntrack manager
  comes from the environment.\<close>

definition wire_firewall :: "'w clock \<Rightarrow> ('w, 'i, 'l) XDPProgram \<Rightarrow> ('w, 'i, 'l) Firewall" where
  "wire_firewall clk prog =
     (let presence = Some (XDPProgram_RulePresence prog);
          mgr = MapManager_SetPresence (NewMapManager (XDPProgram_BlockedIps prog)) presence;
          portPolicyMgr =
            PortPolicyManager_SetPresence (NewPortPolicyManager (XDPProgram_PortPolicy prog)) presence
      in \<lparr>fw_prog = prog, fw_mgr = mgr,
          fw_counterMgr = NewCounterManager (XDPProgram_Counters prog),
          fw_portPolicyMgr = portPolicyMgr,
          fw_configMgr = NewConfigManager (XDPProgram_Config prog),
          fw_ctMgr = NewConntrackManager (XDPProgram_Conntrack prog) clk\<rparr>)"

definition NewFirewall ::
    "('w, 'i, 'l) xdp_env \<Rightarrow> string \<Rightarrow> 'w \<Rightarrow> 'w \<times> (fw_error + ('w, 'i, 'l) Firewall)" where
  "NewFirewall env ifaceName w =
     (case LoadXDP env ifaceName w of
        (w1, Inl err) \<Rightarrow> (w1, Inl err)
      | (w1, Inr prog) \<Rightarrow> (w1, Inr (wire_firewall (xe_ClockGettime env) prog)))"

definition Firewall_Start ::
    "('w, 'i, 'l) xdp_env \<Rightarrow> ('w, 'i, 'l) Firewall \<Rightarrow> 'w
      \<Rightarrow> 'w \<times> ('w, 'i, 'l) Firewall \<times> fw_error option" where
  "Firewall_Start env f w =
     (case XDPProgram_Start env (fw_prog f) w of (w1, x, err) \<Rightarrow> (w1, f\<lparr>fw_prog := x\<rparr>, err))"

definition Firewall_Stop ::
    "('w, 'i, 'l) xdp_env \<Rightarrow> ('w, 'i, 'l) Firewall \<Rightarrow> 'w
      \<Rightarrow> 'w \<times> ('w, 'i, 'l) Firewall \<times> fw_error option" where
  "Firewall_Stop env f w =
     (case XDPProgram_Close env (fw_prog f) w of (w1, x, err) \<Rightarrow> (w1, f\<lparr>fw_prog := x\<rparr>, err))"

definition Firewall_Interface :: "('w, 'i, 'l) Firewall \<Rightarrow> string" where
  "Firewall_Interface f = x_ifaceName (fw_prog f)"

definition Firewall_AttachMode :: "('w, 'i, 'l) Firewall \<Rightarrow> string" where
  "Firewall_AttachMode f = XDPProgram_AttachMode (fw_prog f)"

definition wrap_err :: "string \<Rightarrow> 'w \<times> fw_error option \<Rightarrow> 'w \<times> fw_error option" where
  "wrap_err msg r = (fst r, map_option (Wrapped msg) (snd r))"

section \<open>IP rules\<close>

definition Firewall_BlockIP :: "('w, 'i, 'l) Firewall \<Rightarrow> string \<Rightarrow> 'w \<Rightarrow> 'w \<times> fw_error option" where
  "Firewall_BlockIP f cidr w = wrap_err ''blocking'' (MapManager_BlockIP (fw_mgr f) cidr w)"

definition Firewall_BlockIPWithActionPriority ::
    "('w, 'i, 'l) Firewall \<Rightarrow> string \<Rightarrow> string \<Rightarrow> u32 \<Rightarrow> 'w \<Rightarrow> 'w \<times> fw_error option" where
  "Firewall_BlockIPWithActionPriority f cidr actionStr priority w =
     (case ParseAction actionStr of
        Inl err \<Rightarrow> (w, Some err)
      | Inr action \<Rightarrow>
          wrap_err ''adding'' (MapManager_BlockIPWithActionPriority (fw_mgr f) cidr action priority w))"

definition Firewall_BlockIPWithAction ::
    "('w, 'i, 'l) Firewall \<Rightarrow> string \<Rightarrow> string \<Rightarrow> 'w \<Rightarrow> 'w \<times> fw_error option" where
  "Firewall_BlockIPWithAction f cidr actionStr w =
     Firewall_BlockIPWithActionPriority f cidr actionStr 0 w"

definition Firewall_UnblockIP :: "('w, 'i, 'l) Firewall \<Rightarrow> string \<Rightarrow> 'w \<Rightarrow> 'w \<times> fw_error option" where
  "Firewall_UnblockIP f cidr w = wrap_err ''unblocking'' (MapManager_UnblockIP (fw_mgr f) cidr w)"

definition Firewall_IsBlocked :: "('w, 'i, 'l) Firewall \<Rightarrow> string \<Rightarrow> 'w \<Rightarrow> fw_error + bool" where
  "Firewall_IsBlocked f ip w = MapManager_IsBlocked (fw_mgr f) ip w"

definition Firewall_ListBlockedIPs :: "('w, 'i, 'l) Firewall \<Rightarrow> 'w \<Rightarrow> fw_error + string slice" where
  "Firewall_ListBlockedIPs f w = MapManager_ListBlockedIPs (fw_mgr f) w"

definition Firewall_ListBlockedRules ::
    "('w, 'i, 'l) Firewall \<Rightarrow> 'w \<Rightarrow> fw_error + BlockedRule slice" where
  "Firewall_ListBlockedRules f w = MapManager_ListBlockedRules (fw_mgr f) w"

definition Firewall_Clear :: "('w, 'i, 'l) Firewall \<Rightarrow> 'w \<Rightarrow> 'w \<times> fw_error option" where
  "Firewall_Clear f w = MapManager_Clear (fw_mgr f) w"

definition Firewall_Stats :: "('w, 'i, 'l) Firewall \<Rightarrow> 'w \<Rightarrow> fw_error + Stats" where
  "Firewall_Stats f w = CounterManager_GetCounters (fw_counterMgr f) w"

section \<open>Port rules\<close>

definition Firewall_BlockPortRule ::
    "('w, 'i, 'l) Firewall \<Rightarrow> string \<Rightarrow> string \<Rightarrow> u16 \<Rightarrow> u16 \<Rightarrow> 'w \<Rightarrow> 'w \<times> fw_error option" where
  "Firewall_BlockPortRule f dst protocol dport sport w =
     wrap_err ''blocking port rule''
       (PortPolicyManager_BlockWithAction (fw_portPolicyMgr f) dst protocol dport sport ActionDrop w)"

definition Firewall_BlockPortRuleWithActionPriority ::
    "('w, 'i, 'l) Firewall \<Rightarrow> string \<Rightarrow> string \<Rightarrow> u16 \<Rightarrow> u16 \<Rightarrow> string \<Rightarrow> u32 \<Rightarrow> 'w
      \<Rightarrow> 'w \<times> fw_error option" where
  "Firewall_BlockPortRuleWithActionPriority f dst protocol dport sport actionStr priority w =
     (case ParseAction actionStr of
        Inl err \<Rightarrow> (w, Some err)
      | Inr action \<Rightarrow>
          wrap_err ''adding port rule''
            (PortPolicyManager_BlockWithActionPriority (fw_portPolicyMgr f) dst protocol dport sport
               action priority w))"

definition Firewall_BlockPortRuleWithAction ::
    "('w, 'i, 'l) Firewall \<Rightarrow> string \<Rightarrow> string \<Rightarrow> u16 \<Rightarrow> u16 \<Rightarrow> string \<Rightarrow> 'w
      \<Rightarrow> 'w \<times> fw_error option" where
  "Firewall_BlockPortRuleWithAction f dst protocol dport sport actionStr w =
     Firewall_BlockPortRuleWithActionPriority f dst protocol dport sport actionStr 0 w"

definition Firewall_UnblockPortRule ::
    "('w, 'i, 'l) Firewall \<Rightarrow> string \<Rightarrow> string \<Rightarrow> u16 \<Rightarrow> u16 \<Rightarrow> 'w \<Rightarrow> 'w \<times> fw_error option" where
  "Firewall_UnblockPortRule f dst protocol dport sport w =
     wrap_err ''unblocking port rule''
       (PortPolicyManager_UnblockWithAction (fw_portPolicyMgr f) dst protocol dport sport w)"

definition Firewall_ListPortRules ::
    "('w, 'i, 'l) Firewall \<Rightarrow> 'w \<Rightarrow> fw_error + PortRule slice" where
  "Firewall_ListPortRules f w = PortPolicyManager_List (fw_portPolicyMgr f) w"

definition Firewall_ClearPortRules :: "('w, 'i, 'l) Firewall \<Rightarrow> 'w \<Rightarrow> 'w \<times> fw_error option" where
  "Firewall_ClearPortRules f w = PortPolicyManager_Clear (fw_portPolicyMgr f) w"

section \<open>Flows and default policy\<close>

definition Firewall_ListConntrack ::
    "('w, 'i, 'l) Firewall \<Rightarrow> 'w \<Rightarrow> fw_error + ConntrackEntry slice" where
  "Firewall_ListConntrack f w = ConntrackManager_List (fw_ctMgr f) w"

definition Firewall_ClearConntrack :: "('w, 'i, 'l) Firewall \<Rightarrow> 'w \<Rightarrow> 'w \<times> fw_error option" where
  "Firewall_ClearConntrack f w = ConntrackManager_Clear (fw_ctMgr f) w"

definition Firewall_ReapConntrack ::
    "('w, 'i, 'l) Firewall \<Rightarrow> u64 \<Rightarrow> 'w \<Rightarrow> 'w \<times> nat \<times> fw_error option" where
  "Firewall_ReapConntrack f idle w = ConntrackManager_Reap (fw_ctMgr f) idle w"

definition Firewall_SetDefaultPolicy ::
    "('w, 'i, 'l) Firewall \<Rightarrow> string \<Rightarrow> 'w \<Rightarrow> 'w \<times> fw_error option" where
  "Firewall_SetDefaultPolicy f s w =
     (case ParseDefaultPolicy s of
        Inl err \<Rightarrow> (w, Some err)
      | Inr policy \<Rightarrow>
          wrap_err ''setting default policy''
            (ConfigManager_SetDefaultPolicy (fw_configMgr f) policy w))"

definition Firewall_DefaultPolicy :: "('w, 'i, 'l) Firewall \<Rightarrow> 'w \<Rightarrow> fw_error + string" where
  "Firewall_DefaultPolicy f w =
     (case ConfigManager_DefaultPolicy (fw_configMgr f) w of
        Inl err \<Rightarrow> Inl err
      | Inr p \<Rightarrow> Inr (DefaultPolicy_String p))"

end
