(* ===== verification/Datapath.thy ===== *)
theory Datapath
  imports Blocklist PortPolicy Counters
begin

text \<open>
  The XDP program, \<open>bpf/firewall.c\<close> with \<open>bpf/helpers.h\<close> and \<open>bpf/maps.h\<close>. A packet is the list
  of its bytes between \<open>data\<close> and \<open>data_end\<close>; \<open>hdr_cursor\<close> is an offset into it. Multi-byte
  fields are loaded little-endian, as on the hosts the control plane is written for. The state is
  the record of the six maps. Hash and array lookups are the map itself; what the kernel adds is a
  parameter, the record \<open>dp_env\<close>: the LPM lookup, the clock, and an insertion into the conntrack
  map, which may be refused (a full map).
  Debug output (\<open>debug_packet\<close>, compiled out) is in Debug.
\<close>

section \<open>Parsing (helpers.h, parse_packet)\<close>

definition load16 :: "u8 list \<Rightarrow> nat \<Rightarrow> u16" where
  "load16 p o' = le16 (p ! o') (p ! (o' + 1))"

definition load32 :: "u8 list \<Rightarrow> nat \<Rightarrow> u32" where
  "load32 p o' = le32 (p ! o') (p ! (o' + 1)) (p ! (o' + 2)) (p ! (o' + 3))"

text \<open>Each parser takes the cursor and returns the new cursor with what the C function returns
  through its result and its pointer argument, \<open>None\<close> for its \<open>-1\<close>.\<close>

definition parse_ethhdr :: "u8 list \<Rightarrow> nat \<Rightarrow> (nat \<times> u16) option" where
  "parse_ethhdr p pos =
     (if length p < pos + 14 then None else Some (pos + 14, load16 p (pos + 12)))"

definition ip_ihl :: "u8 list \<Rightarrow> nat \<Rightarrow> nat" where
  "ip_ihl p pos = unat (p ! pos AND 0x0F)"

definition parse_iphdr :: "u8 list \<Rightarrow> nat \<Rightarrow> (nat \<times> nat \<times> u8) option" where
  "parse_iphdr p pos =
     (if length p < pos + 20 then None
      else
        (let hdrsize = ip_ihl p pos * 4 in
         if hdrsize < 20 then None
         else if length p < pos + hdrsize then None
         else Some (pos + hdrsize, pos, p ! (pos + 9))))"

definition parse_tcphdr :: "u8 list \<Rightarrow> nat \<Rightarrow> (nat \<times> nat) option" where
  "parse_tcphdr p pos = (if length p < pos + 20 then None else Some (pos + 20, pos))"

definition parse_udphdr :: "u8 list \<Rightarrow> nat \<Rightarrow> (nat \<times> nat) option" where
  "parse_udphdr p pos = (if length p < pos + 8 then None else Some (pos + 8, pos))"

definition TCP_FIN :: u8 where "TCP_FIN = 0x01"
definition TCP_SYN :: u8 where "TCP_SYN = 0x02"
definition TCP_RST :: u8 where "TCP_RST = 0x04"
definition TCP_ACK :: u8 where "TCP_ACK = 0x10"

definition ETH_P_IP_be :: u16 where "ETH_P_IP_be = be16 0x00 0x08"
definition IPPROTO_TCP :: u8 where "IPPROTO_TCP = 6"
definition IPPROTO_UDP :: u8 where "IPPROTO_UDP = 17"

record packet_info =
  pi_saddr :: u32
  pi_daddr :: u32
  pi_protocol :: u8
  pi_dport :: u16
  pi_sport :: u16
  pi_tcp_flags :: u8

text \<open>The bit fields of \<open>struct tcphdr\<close> are bits of byte 13.\<close>

definition tcp_flag_bits :: "u8 \<Rightarrow> u8" where
  "tcp_flag_bits b =
     (if b AND 0x01 \<noteq> 0 then TCP_FIN else 0) OR (if b AND 0x02 \<noteq> 0 then TCP_SYN else 0) OR
     (if b AND 0x04 \<noteq> 0 then TCP_RST else 0) OR (if b AND 0x10 \<noteq> 0 then TCP_ACK else 0)"

definition parse_packet :: "u8 list \<Rightarrow> packet_info option" where
  "parse_packet p =
     (case parse_ethhdr p 0 of
        None \<Rightarrow> None
      | Some (nh, eth_type) \<Rightarrow>
          if eth_type \<noteq> ETH_P_IP_be then None
          else
            (case parse_iphdr p nh of
               None \<Rightarrow> None
             | Some (nh, ip, protocol) \<Rightarrow>
                 (let info = \<lparr>pi_saddr = load32 p (ip + 12), pi_daddr = load32 p (ip + 16),
                     pi_protocol = protocol, pi_dport = 0, pi_sport = 0, pi_tcp_flags = 0\<rparr> in
                  if protocol = IPPROTO_TCP then
                    (case parse_tcphdr p nh of
                       None \<Rightarrow> Some info
                     | Some (_, tcp) \<Rightarrow>
                         Some (info\<lparr>pi_dport := load16 p (tcp + 2), pi_sport := load16 p tcp,
                           pi_tcp_flags := tcp_flag_bits (p ! (tcp + 13))\<rparr>))
                  else if protocol = IPPROTO_UDP then
                    (case parse_udphdr p nh of
                       None \<Rightarrow> Some info
                     | Some (_, udp) \<Rightarrow>
                         Some (info\<lparr>pi_dport := load16 p (udp + 2), pi_sport := load16 p udp\<rparr>))
                  else Some info)))"

section \<open>Policy lookups\<close>

record dp_env =
  dp_lpm :: "(firewallIpv4LpmKey \<rightharpoonup> ruleValue) \<Rightarrow> firewallIpv4LpmKey \<Rightarrow> ruleValue option"
  dp_ktime :: u64
  dp_update_ct :: "(ctKey \<rightharpoonup> ctValue) \<Rightarrow> ctKey \<Rightarrow> ctValue \<Rightarrow> (ctKey \<rightharpoonup> ctValue)"

definition ip_block_action :: "dp_env \<Rightarrow> fw_maps \<Rightarrow> packet_info \<Rightarrow> ruleValue option" where
  "ip_block_action env m info =
     (case dp_lpm env (blocked_ips m) \<lparr>lk_Prefixlen = 32, lk_Data = pi_saddr info\<rparr> of
        Some elem \<Rightarrow> Some elem
      | None \<Rightarrow> dp_lpm env (blocked_ips m) \<lparr>lk_Prefixlen = 32, lk_Data = pi_daddr info\<rparr>)"

definition port_probe :: "fw_maps \<Rightarrow> packet_info \<Rightarrow> u16 \<Rightarrow> u16 \<Rightarrow> ruleValue option" where
  "port_probe m info d s =
     port_policy m \<lparr>pk_Protocol = pi_protocol info, pk_Dport = d, pk_Sport = s, pk_Dst = pi_daddr info\<rparr>"

text \<open>One \<open>TRY_LOOKUP\<close>: the best match so far (\<open>None\<close> while \<open>matched\<close> is 0) and the probe.\<close>

definition try_lookup ::
    "fw_maps \<Rightarrow> packet_info \<Rightarrow> u16 \<Rightarrow> u16 \<Rightarrow> ruleValue option \<Rightarrow> ruleValue option" where
  "try_lookup m info d s best =
     (case port_probe m info d s of
        None \<Rightarrow> best
      | Some elem \<Rightarrow>
          (case best of
             None \<Rightarrow> Some elem
           | Some b \<Rightarrow> if rv_Priority elem > rv_Priority b then Some elem else Some b))"

definition port_rule_action :: "fw_maps \<Rightarrow> packet_info \<Rightarrow> ruleValue option" where
  "port_rule_action m info =
     (let best = try_lookup m info (pi_dport info) (pi_sport info) None;
          best = try_lookup m info (pi_dport info) 0 best;
          best = try_lookup m info 0 (pi_sport info) best
      in try_lookup m info 0 0 best)"

section \<open>The decision\<close>

datatype xdp_action = XDP_PASS | XDP_DROP

text \<open>The verdicts ordered by strictness: a tie between rules is resolved to the maximum.\<close>

instantiation xdp_action :: linorder
begin

definition less_eq_xdp_action :: "xdp_action \<Rightarrow> xdp_action \<Rightarrow> bool" where
  "less_eq_xdp_action a b \<longleftrightarrow> a = XDP_PASS \<or> b = XDP_DROP"

definition less_xdp_action :: "xdp_action \<Rightarrow> xdp_action \<Rightarrow> bool" where
  "less_xdp_action a b \<longleftrightarrow> a = XDP_PASS \<and> b = XDP_DROP"

instance
  by standard (metis less_eq_xdp_action_def less_xdp_action_def xdp_action.exhaust xdp_action.distinct(1))+

end

definition default_policy :: "fw_maps \<Rightarrow> u32" where
  "default_policy m = (case firewall_config m 0 of None \<Rightarrow> DefaultAllow | Some p \<Rightarrow> p)"

definition default_verdict :: "u32 \<Rightarrow> xdp_action" where
  "default_verdict def = (if def = DefaultDeny then XDP_DROP else XDP_PASS)"

definition rule_verdict :: "ruleValue \<Rightarrow> xdp_action" where
  "rule_verdict r = (if rv_Action r = ActionDrop then XDP_DROP else XDP_PASS)"

definition decide :: "fw_maps \<Rightarrow> ruleValue option \<Rightarrow> ruleValue option \<Rightarrow> xdp_action" where
  "decide m ip port =
     (case (ip, port) of
        (Some i, Some p) \<Rightarrow>
          if rv_Priority i \<noteq> rv_Priority p then
            (let winner = (if rv_Priority i > rv_Priority p then i else p) in rule_verdict winner)
          else if rv_Action i = ActionDrop \<or> rv_Action p = ActionDrop then XDP_DROP
          else XDP_PASS
      | (Some i, None) \<Rightarrow> rule_verdict i
      | (None, Some p) \<Rightarrow> rule_verdict p
      | (None, None) \<Rightarrow> default_verdict (default_policy m))"

section \<open>Connection tracking\<close>

definition ct_build_key :: "packet_info \<Rightarrow> ctKey" where
  "ct_build_key info =
     \<lparr>ck_Saddr = pi_saddr info, ck_Daddr = pi_daddr info, ck_Sport = pi_sport info,
      ck_Dport = pi_dport info, ck_Protocol = pi_protocol info\<rparr>"

definition ct_is_established :: "fw_maps \<Rightarrow> packet_info \<Rightarrow> bool" where
  "ct_is_established m info =
     (case conntrack m (ct_build_key info) of
        None \<Rightarrow> False
      | Some v \<Rightarrow> cv_State v = ctStateEstablished)"

definition ct_next :: "u32 \<Rightarrow> u8 \<Rightarrow> u32" where
  "ct_next state flags =
     (if flags AND (TCP_FIN OR TCP_RST) \<noteq> 0 then ctStateClosed
      else if state = ctStateNew \<and> flags AND TCP_ACK \<noteq> 0 then ctStateEstablished
      else state)"

definition ct_first :: "u8 \<Rightarrow> u32" where
  "ct_first flags =
     (if flags AND (TCP_FIN OR TCP_RST) \<noteq> 0 then ctStateClosed
      else if flags AND TCP_SYN \<noteq> 0 then ctStateNew
      else ctStateEstablished)"

definition ct_update :: "dp_env \<Rightarrow> packet_info \<Rightarrow> fw_maps \<Rightarrow> fw_maps" where
  "ct_update env info m =
     (let key = ct_build_key info; now = dp_ktime env in
      case conntrack m key of
        Some v \<Rightarrow>
          m\<lparr>conntrack := (conntrack m)(key \<mapsto>
            v\<lparr>cv_LastSeen := now, cv_State := ct_next (cv_State v) (pi_tcp_flags info)\<rparr>)\<rparr>
      | None \<Rightarrow>
          m\<lparr>conntrack := dp_update_ct env (conntrack m) key
            \<lparr>cv_LastSeen = now, cv_State = ct_first (pi_tcp_flags info)\<rparr>\<rparr>)"

section \<open>Counters and the program\<close>

definition incr_counter :: "u32 \<Rightarrow> u64 \<Rightarrow> fw_maps \<Rightarrow> fw_maps" where
  "incr_counter idx bytes m =
     (case counters m idx of
        None \<Rightarrow> m
      | Some val \<Rightarrow>
          m\<lparr>counters := (counters m)(idx \<mapsto>
            \<lparr>cnt_Packets = cnt_Packets val + 1, cnt_Bytes = cnt_Bytes val + bytes\<rparr>)\<rparr>)"

definition RULE_IP_PRESENT :: u32 where "RULE_IP_PRESENT = 1"
definition RULE_PORT_PRESENT :: u32 where "RULE_PORT_PRESENT = 2"

definition firewall_prog :: "dp_env \<Rightarrow> u8 list \<Rightarrow> fw_maps \<Rightarrow> fw_maps \<times> xdp_action" where
  "firewall_prog env pkt m =
     (let pkt_len = of_nat (length pkt) in
      case parse_packet pkt of
        None \<Rightarrow>
          (let verdict = default_verdict (default_policy m);
               m1 = incr_counter counterTotal pkt_len m
           in (incr_counter (if verdict = XDP_DROP then counterDrop else counterPass) pkt_len m1,
               verdict))
      | Some info \<Rightarrow>
          (let flags = (case rule_presence m 0 of None \<Rightarrow> 0 | Some f \<Rightarrow> f);
               ip_rule = (if flags AND RULE_IP_PRESENT \<noteq> 0 then ip_block_action env m info else None);
               port_rule = (if flags AND RULE_PORT_PRESENT \<noteq> 0 then port_rule_action m info else None);
               def = default_policy m;
               verdict =
                 (if ip_rule \<noteq> None \<or> port_rule \<noteq> None then decide m ip_rule port_rule
                  else if def = DefaultDeny \<and> pi_protocol info = IPPROTO_TCP \<and> ct_is_established m info
                  then XDP_PASS
                  else default_verdict def)
           in
           if verdict = XDP_DROP then
             (incr_counter counterDrop pkt_len (incr_counter counterTotal pkt_len m), XDP_DROP)
           else
             (let m1 = (if def = DefaultDeny \<and> pi_protocol info = IPPROTO_TCP
                        then ct_update env info m else m)
              in (incr_counter counterPass pkt_len (incr_counter counterTotal pkt_len m1), XDP_PASS))))"

end
