(* ===== verification/Decision.thy ===== *)
theory Decision
  imports Datapath
begin

text \<open>
  What the datapath decides. \<open>port_rule_action\<close> is shown to return the first rule of highest
  priority among the four probes, \<open>decide\<close> to be the maximum (\<open>XDP_DROP\<close> above \<open>XDP_PASS\<close>) of
  the verdicts of the highest-priority matches, and the program with its \<open>rule_presence\<close>
  fast path to behave as the one that always looks both tables up, provided the flags are
  conservative (\<open>presence_ok\<close>).
\<close>

section \<open>The best of the probed port rules\<close>

text \<open>The probes that hit, most specific first.\<close>

definition port_candidates :: "fw_maps \<Rightarrow> packet_info \<Rightarrow> ruleValue list" where
  "port_candidates m info =
     List.map_filter (\<lambda>(d, s). port_probe m info d s)
       [(pi_dport info, pi_sport info), (pi_dport info, 0), (0, pi_sport info), (0, 0)]"

definition first_best :: "ruleValue \<Rightarrow> ruleValue list \<Rightarrow> bool" where
  "first_best v rs \<longleftrightarrow>
     (\<exists>xs ys. rs = xs @ v # ys \<and> (\<forall>x \<in> set xs. rv_Priority x < rv_Priority v) \<and>
        (\<forall>y \<in> set ys. rv_Priority y \<le> rv_Priority v))"

definition pick :: "ruleValue \<Rightarrow> ruleValue option \<Rightarrow> ruleValue option" where
  "pick elem best =
     (case best of
        None \<Rightarrow> Some elem
      | Some b \<Rightarrow> if rv_Priority elem > rv_Priority b then Some elem else Some b)"

lemma try_lookup_pick:
  "try_lookup m info d s best =
     (case port_probe m info d s of None \<Rightarrow> best | Some e \<Rightarrow> pick e best)"
  by (simp add: try_lookup_def pick_def split: option.splits)

lemma port_rule_action_fold: "port_rule_action m info = fold pick (port_candidates m info) None"
  by (auto simp: port_rule_action_def port_candidates_def try_lookup_pick Let_def
      List.map_filter_def split: option.splits)

lemma snoc_eq_split:
  "rs @ [r] = xs @ v # ys \<longleftrightarrow>
     ys = [] \<and> v = r \<and> xs = rs \<or> (\<exists>ys'. ys = ys' @ [r] \<and> rs = xs @ v # ys')"
  by (cases ys rule: rev_cases) auto

lemma first_best_snoc:
  "first_best v (rs @ [r]) \<longleftrightarrow>
     v = r \<and> (\<forall>x \<in> set rs. rv_Priority x < rv_Priority r) \<or>
     first_best v rs \<and> rv_Priority r \<le> rv_Priority v"
proof
  assume "first_best v (rs @ [r])"
  then obtain xs ys where e: "ys = [] \<and> v = r \<and> xs = rs \<or> (\<exists>ys'. ys = ys' @ [r] \<and> rs = xs @ v # ys')"
    and p: "\<forall>x \<in> set xs. rv_Priority x < rv_Priority v" "\<forall>y \<in> set ys. rv_Priority y \<le> rv_Priority v"
    unfolding first_best_def snoc_eq_split by blast
  from e show "v = r \<and> (\<forall>x \<in> set rs. rv_Priority x < rv_Priority r) \<or>
     first_best v rs \<and> rv_Priority r \<le> rv_Priority v"
  proof
    assume "\<exists>ys'. ys = ys' @ [r] \<and> rs = xs @ v # ys'"
    then obtain ys' where "ys = ys' @ [r]" "rs = xs @ v # ys'" by blast
    with p have "rv_Priority r \<le> rv_Priority v" "\<forall>y \<in> set ys'. rv_Priority y \<le> rv_Priority v"
      by simp_all
    with p(1) \<open>rs = xs @ v # ys'\<close> have "first_best v rs" "rv_Priority r \<le> rv_Priority v"
      unfolding first_best_def by blast+
    then show ?thesis by blast
  qed (use p in simp)
next
  assume "v = r \<and> (\<forall>x \<in> set rs. rv_Priority x < rv_Priority r) \<or>
     first_best v rs \<and> rv_Priority r \<le> rv_Priority v"
  then show "first_best v (rs @ [r])"
  proof (elim disjE conjE)
    assume "first_best v rs" "rv_Priority r \<le> rv_Priority v"
    then obtain xs ys where "rs = xs @ v # ys" "\<forall>x \<in> set xs. rv_Priority x < rv_Priority v"
        "\<forall>y \<in> set (ys @ [r]). rv_Priority y \<le> rv_Priority v"
      by (auto simp: first_best_def)
    then show ?thesis unfolding first_best_def by (intro exI [of _ xs] exI [of _ "ys @ [r]"]) simp
  next
    assume "v = r" "\<forall>x \<in> set rs. rv_Priority x < rv_Priority r"
    then show ?thesis unfolding first_best_def by (intro exI [of _ rs] exI [of _ "[]"]) simp
  qed
qed

lemma first_best_greatest:
  "first_best v rs \<Longrightarrow> v \<in> set rs \<and> (\<forall>x \<in> set rs. rv_Priority x \<le> rv_Priority v)"
  by (fastforce simp: first_best_def)

lemma pick_Some:
  "pick elem (Some b) = (if rv_Priority b < rv_Priority elem then Some elem else Some b)"
  by (simp add: pick_def)

lemma fold_pick_snoc: "fold pick (rs @ [r]) None = pick r (fold pick rs None)"
  by simp

lemma fold_pick_None: "fold pick rs None = None \<longleftrightarrow> rs = []"
  by (induction rs rule: rev_induct) (auto simp: pick_def split: option.splits)

lemma fold_pick_best: "fold pick rs None = Some v \<longleftrightarrow> first_best v rs"
proof (induction rs arbitrary: v rule: rev_induct)
  case Nil
  then show ?case by (simp add: first_best_def)
next
  case (snoc r rs)
  show ?case
  proof (cases "fold pick rs None")
    case None
    then have "rs = []" by (simp add: fold_pick_None)
    then show ?thesis using first_best_snoc [of v "[]" r] by (auto simp: first_best_def pick_def)
  next
    case (Some b)
    with snoc.IH have "first_best b rs" by blast
    from first_best_greatest [OF this]
    have "(\<forall>x \<in> set rs. rv_Priority x < rv_Priority r) \<longleftrightarrow> rv_Priority b < rv_Priority r"
      by (meson le_less_trans)
    moreover have u: "first_best v rs \<longleftrightarrow> v = b" using snoc.IH [of v] Some by auto
    ultimately show ?thesis
      unfolding fold_pick_snoc Some pick_Some first_best_snoc by (auto simp: not_less)
  qed
qed

lemma port_rule_action_Some: "port_rule_action m info = Some v \<longleftrightarrow> first_best v (port_candidates m info)"
  by (simp add: port_rule_action_fold fold_pick_best)

lemma port_rule_action_None: "port_rule_action m info = None \<longleftrightarrow> port_candidates m info = []"
  by (simp add: port_rule_action_fold fold_pick_None)

section \<open>The decision table\<close>

text \<open>The reference: among the matches of highest priority, the strictest verdict.\<close>

definition matches_verdict :: "ruleValue set \<Rightarrow> xdp_action" where
  "matches_verdict R = Max (rule_verdict ` {r \<in> R. rv_Priority r = Max (rv_Priority ` R)})"

lemma matches_verdict_single [simp]: "matches_verdict {r} = rule_verdict r"
proof -
  have "{x \<in> {r}. rv_Priority x = rv_Priority r} = {r}" by auto
  then show ?thesis by (simp add: matches_verdict_def)
qed

lemma matches_verdict_pair:
  "matches_verdict {i, p} =
     (if rv_Priority i > rv_Priority p then rule_verdict i
      else if rv_Priority p > rv_Priority i then rule_verdict p
      else max (rule_verdict i) (rule_verdict p))"
proof -
  have "{r \<in> {i, p}. rv_Priority r = max (rv_Priority i) (rv_Priority p)} =
      (if rv_Priority i > rv_Priority p then {i}
       else if rv_Priority p > rv_Priority i then {p} else {i, p})"
    by (auto simp: max_def)
  then show ?thesis by (simp add: matches_verdict_def)
qed

lemma max_rule_verdict:
  "max (rule_verdict i) (rule_verdict p) =
     (if rv_Action i = ActionDrop \<or> rv_Action p = ActionDrop then XDP_DROP else XDP_PASS)"
  by (simp add: rule_verdict_def max_def less_eq_xdp_action_def)

lemma decide_matches:
  "decide m ip port =
     (let R = set_option ip \<union> set_option port in
      if R = {} then default_verdict (default_policy m) else matches_verdict R)"
proof (cases ip; cases port)
  fix i p assume "ip = Some i" "port = Some p"
  moreover have "{i} \<union> {p} = {i, p}" by auto
  ultimately show ?thesis
    by (auto simp: decide_def Let_def matches_verdict_pair max_rule_verdict insert_commute)
qed (simp_all add: decide_def)

section \<open>The rule-presence fast path\<close>

text \<open>The flags are conservative: a table that holds a rule has its bit set.\<close>

definition presence_ok :: "fw_maps \<Rightarrow> bool" where
  "presence_ok m \<longleftrightarrow>
     (blocked_ips m \<noteq> Map.empty \<longrightarrow> bit_set rulePresenceIP m) \<and>
     (port_policy m \<noteq> Map.empty \<longrightarrow> bit_set rulePresencePort m)"

text \<open>The rules that match a packet, and the verdict on it, from the tables alone.\<close>

definition matched_rules :: "dp_env \<Rightarrow> fw_maps \<Rightarrow> packet_info \<Rightarrow> ruleValue set" where
  "matched_rules env m info =
     set_option (ip_block_action env m info) \<union> set_option (port_rule_action m info)"

definition stateful_pass :: "fw_maps \<Rightarrow> packet_info \<Rightarrow> bool" where
  "stateful_pass m info \<longleftrightarrow>
     default_policy m = DefaultDeny \<and> pi_protocol info = IPPROTO_TCP \<and> ct_is_established m info"

definition packet_verdict :: "dp_env \<Rightarrow> fw_maps \<Rightarrow> packet_info \<Rightarrow> xdp_action" where
  "packet_verdict env m info =
     (if matched_rules env m info \<noteq> {} then matches_verdict (matched_rules env m info)
      else if stateful_pass m info then XDP_PASS
      else default_verdict (default_policy m))"

definition verdict_of :: "dp_env \<Rightarrow> fw_maps \<Rightarrow> u8 list \<Rightarrow> xdp_action" where
  "verdict_of env m pkt =
     (case parse_packet pkt of
        None \<Rightarrow> default_verdict (default_policy m)
      | Some info \<Rightarrow> packet_verdict env m info)"

text \<open>What a packet changes besides the counters.\<close>

definition tracks :: "dp_env \<Rightarrow> fw_maps \<Rightarrow> u8 list \<Rightarrow> packet_info option" where
  "tracks env m pkt =
     (case parse_packet pkt of
        None \<Rightarrow> None
      | Some info \<Rightarrow>
          if default_policy m = DefaultDeny \<and> pi_protocol info = IPPROTO_TCP \<and>
             packet_verdict env m info = XDP_PASS then Some info else None)"

definition count_packet :: "xdp_action \<Rightarrow> u64 \<Rightarrow> fw_maps \<Rightarrow> fw_maps" where
  "count_packet v n m =
     incr_counter (if v = XDP_DROP then counterDrop else counterPass) n (incr_counter counterTotal n m)"

definition prog_spec :: "dp_env \<Rightarrow> u8 list \<Rightarrow> fw_maps \<Rightarrow> fw_maps \<times> xdp_action" where
  "prog_spec env pkt m =
     (count_packet (verdict_of env m pkt) (of_nat (length pkt))
        (case tracks env m pkt of None \<Rightarrow> m | Some info \<Rightarrow> ct_update env info m),
      verdict_of env m pkt)"

text \<open>An LPM lookup in an empty trie and a probe of an empty hash map miss.\<close>

lemma longest_prefix_empty: "longest_prefix lpm \<Longrightarrow> lpm Map.empty (host_key q) = None"
  unfolding longest_prefix_def by (drule spec2 [of _ Map.empty q]) (simp split: option.splits)

lemma ip_block_action_empty:
  "longest_prefix (dp_lpm env) \<Longrightarrow> blocked_ips m = Map.empty \<Longrightarrow> ip_block_action env m info = None"
  by (simp add: ip_block_action_def longest_prefix_empty flip: host_key_def)

lemma port_rule_action_empty: "port_policy m = Map.empty \<Longrightarrow> port_rule_action m info = None"
  by (simp add: port_rule_action_def try_lookup_def port_probe_def)

lemma presence_bits: "rulePresenceIP = RULE_IP_PRESENT" "rulePresencePort = RULE_PORT_PRESENT"
    "presenceMapKey = 0"
  by (simp_all add: rulePresenceIP_def rulePresencePort_def RULE_IP_PRESENT_def RULE_PORT_PRESENT_def
      presenceMapKey_def)

lemma fast_path_lookups:
  assumes "presence_ok m" "longest_prefix (dp_lpm env)"
  shows "(if (case rule_presence m 0 of None \<Rightarrow> 0 | Some f \<Rightarrow> f) AND RULE_IP_PRESENT \<noteq> 0
      then ip_block_action env m info else None) = ip_block_action env m info"
    and "(if (case rule_presence m 0 of None \<Rightarrow> 0 | Some f \<Rightarrow> f) AND RULE_PORT_PRESENT \<noteq> 0
      then port_rule_action m info else None) = port_rule_action m info"
  using assms ip_block_action_empty [of env m info] port_rule_action_empty [of m info]
  unfolding presence_ok_def bit_set_def presence_flags_def presence_bits by auto

lemma packet_verdict_code:
  "packet_verdict env m info =
     (let ip = ip_block_action env m info; port = port_rule_action m info in
      if ip \<noteq> None \<or> port \<noteq> None then decide m ip port
      else if default_policy m = DefaultDeny \<and> pi_protocol info = IPPROTO_TCP \<and> ct_is_established m info
      then XDP_PASS
      else default_verdict (default_policy m))"
  by (auto simp: packet_verdict_def matched_rules_def stateful_pass_def decide_matches Let_def)

lemma firewall_prog_refines:
  assumes "presence_ok m" "longest_prefix (dp_lpm env)"
  shows "firewall_prog env pkt m = prog_spec env pkt m"
proof (cases "parse_packet pkt")
  case None
  then show ?thesis
    by (simp add: firewall_prog_def prog_spec_def verdict_of_def tracks_def count_packet_def Let_def)
next
  case (Some info)
  have v: "XDP_PASS \<noteq> v \<Longrightarrow> v = XDP_DROP" for v by (cases v) simp_all
  show ?thesis
    using fast_path_lookups [OF assms, of info] Some v [of "packet_verdict env m info"]
    unfolding firewall_prog_def prog_spec_def verdict_of_def tracks_def count_packet_def
    by (simp only: Let_def option.case packet_verdict_code [unfolded Let_def, symmetric])
      auto
qed

end
