(* ===== verification/Flows.thy ===== *)
theory Flows
  imports Decision
begin

text \<open>
  What packets do to the state: the frame of one packet, its counting, the life of a conntrack
  entry as an abstract automaton (\<open>flow_step\<close>) the program simulates, and properties of runs of
  packets proved over it.
\<close>

section \<open>Frame and counting\<close>

lemma incr_counter_frame [simp]:
  "blocked_ips (incr_counter i n m) = blocked_ips m"
  "port_policy (incr_counter i n m) = port_policy m"
  "conntrack (incr_counter i n m) = conntrack m"
  "firewall_config (incr_counter i n m) = firewall_config m"
  "rule_presence (incr_counter i n m) = rule_presence m"
  by (simp_all add: incr_counter_def split: option.splits)

lemma count_packet_frame [simp]:
  "blocked_ips (count_packet v n m) = blocked_ips m"
  "port_policy (count_packet v n m) = port_policy m"
  "conntrack (count_packet v n m) = conntrack m"
  "firewall_config (count_packet v n m) = firewall_config m"
  "rule_presence (count_packet v n m) = rule_presence m"
  by (simp_all add: count_packet_def)

lemma ct_update_frame [simp]:
  "blocked_ips (ct_update env info m) = blocked_ips m"
  "port_policy (ct_update env info m) = port_policy m"
  "counters (ct_update env info m) = counters m"
  "firewall_config (ct_update env info m) = firewall_config m"
  "rule_presence (ct_update env info m) = rule_presence m"
  by (simp_all add: ct_update_def Let_def split: option.splits)

lemma prog_spec_frame [simp]:
  "blocked_ips (fst (prog_spec env pkt m)) = blocked_ips m"
  "port_policy (fst (prog_spec env pkt m)) = port_policy m"
  "firewall_config (fst (prog_spec env pkt m)) = firewall_config m"
  "rule_presence (fst (prog_spec env pkt m)) = rule_presence m"
  by (simp_all add: prog_spec_def split: option.splits)

lemma snd_prog_spec [simp]: "snd (prog_spec env pkt m) = verdict_of env m pkt"
  by (simp add: prog_spec_def)

lemma conntrack_prog_spec:
  "conntrack (fst (prog_spec env pkt m)) =
     (case tracks env m pkt of None \<Rightarrow> conntrack m | Some info \<Rightarrow> conntrack (ct_update env info m))"
  by (simp add: prog_spec_def split: option.splits)

text \<open>All three counters of the array are there from the start (an array map has every index).\<close>

definition counters_ready :: "fw_maps \<Rightarrow> bool" where
  "counters_ready m \<longleftrightarrow> {counterTotal, counterDrop, counterPass} \<subseteq> dom (counters m)"

lemmas counter_idx_defs = counterTotal_def counterDrop_def counterPass_def

lemma slot_incr:
  "i \<in> dom (counters m) \<Longrightarrow> slot j (incr_counter i n m) =
     (if j = i then \<lparr>cnt_Packets = cnt_Packets (slot i m) + 1, cnt_Bytes = cnt_Bytes (slot i m) + n\<rparr>
      else slot j m)"
  by (auto simp: slot_def incr_counter_def split: option.splits)

lemma dom_incr [simp]: "dom (counters (incr_counter i n m)) = dom (counters m)"
  by (auto simp: incr_counter_def split: option.splits)

lemma counters_ready_incr [simp]: "counters_ready (incr_counter i n m) = counters_ready m"
  by (simp add: counters_ready_def)

lemma counters_ready_prog_spec: "counters_ready (fst (prog_spec env pkt m)) = counters_ready m"
  by (simp add: prog_spec_def count_packet_def counters_ready_def split: option.splits)

text \<open>One packet is counted once in total and once under its verdict.\<close>

definition counted :: "xdp_action \<Rightarrow> u64 \<Rightarrow> Stats \<Rightarrow> Stats" where
  "counted v n s =
     (let s = s\<lparr>st_TotalPackets := st_TotalPackets s + 1, st_TotalBytes := st_TotalBytes s + n\<rparr> in
      case v of
        XDP_DROP \<Rightarrow> s\<lparr>st_DropPackets := st_DropPackets s + 1, st_DropBytes := st_DropBytes s + n\<rparr>
      | XDP_PASS \<Rightarrow> s\<lparr>st_PassPackets := st_PassPackets s + 1, st_PassBytes := st_PassBytes s + n\<rparr>)"

lemma stats_of_count:
  assumes "counters_ready m"
  shows "stats_of (count_packet v n m) = counted v n (stats_of m)"
proof -
  have "counterTotal \<in> dom (counters m)" "counterDrop \<in> dom (counters m)" "counterPass \<in> dom (counters m)"
    using assms by (auto simp: counters_ready_def)
  moreover have "counterTotal \<noteq> counterDrop" "counterTotal \<noteq> counterPass" "counterDrop \<noteq> counterPass"
    by (simp_all add: counter_idx_defs)
  ultimately show ?thesis
    by (cases v) (simp_all add: stats_of_def count_packet_def counted_def Let_def slot_incr)
qed

lemma stats_of_ct_update [simp]: "stats_of (ct_update env info m) = stats_of m"
  by (simp add: stats_of_def slot_def)

lemma stats_of_prog_spec:
  assumes "counters_ready m"
  shows "stats_of (fst (prog_spec env pkt m)) =
    counted (verdict_of env m pkt) (of_nat (length pkt)) (stats_of m)"
proof (cases "tracks env m pkt")
  case None
  with assms show ?thesis by (simp add: prog_spec_def stats_of_count)
next
  case (Some info)
  have "counters_ready (ct_update env info m)" using assms by (simp add: counters_ready_def)
  with Some show ?thesis by (simp add: prog_spec_def stats_of_count)
qed

text \<open>The books balance: every packet counted in total was counted as dropped or as passed.\<close>

definition balanced :: "Stats \<Rightarrow> bool" where
  "balanced s \<longleftrightarrow>
     st_TotalPackets s = st_DropPackets s + st_PassPackets s \<and>
     st_TotalBytes s = st_DropBytes s + st_PassBytes s"

lemma balanced_counted: "balanced s \<Longrightarrow> balanced (counted v n s)"
  by (cases v) (simp_all add: balanced_def counted_def Let_def)

section \<open>The life of a flow\<close>

definition flow_state :: "fw_maps \<Rightarrow> ctKey \<Rightarrow> u32 option" where
  "flow_state m k = map_option cv_State (conntrack m k)"

definition closing :: "u8 \<Rightarrow> bool" where "closing f \<longleftrightarrow> f AND (TCP_FIN OR TCP_RST) \<noteq> 0"
definition has_syn :: "u8 \<Rightarrow> bool" where "has_syn f \<longleftrightarrow> f AND TCP_SYN \<noteq> 0"
definition has_ack :: "u8 \<Rightarrow> bool" where "has_ack f \<longleftrightarrow> f AND TCP_ACK \<noteq> 0"

text \<open>The transitions an accepted packet with the given flags makes.\<close>

inductive flow_step :: "u32 option \<Rightarrow> u8 \<Rightarrow> u32 option \<Rightarrow> bool" where
  refused: "flow_step None f None"
| first_closing: "closing f \<Longrightarrow> flow_step None f (Some ctStateClosed)"
| first_syn: "\<not> closing f \<Longrightarrow> has_syn f \<Longrightarrow> flow_step None f (Some ctStateNew)"
| midstream: "\<not> closing f \<Longrightarrow> \<not> has_syn f \<Longrightarrow> flow_step None f (Some ctStateEstablished)"
| close: "closing f \<Longrightarrow> flow_step (Some s) f (Some ctStateClosed)"
| handshake: "\<not> closing f \<Longrightarrow> has_ack f \<Longrightarrow> flow_step (Some ctStateNew) f (Some ctStateEstablished)"
| refresh: "\<not> closing f \<Longrightarrow> s \<noteq> ctStateNew \<or> \<not> has_ack f \<Longrightarrow> flow_step (Some s) f (Some s)"

inductive_cases flow_step_SomeE: "flow_step (Some s) f t"
inductive_cases flow_step_NoneE: "flow_step None f t"
inductive_simps flow_step_Some_simp: "flow_step (Some s) f t"

definition dp_env_ok :: "dp_env \<Rightarrow> bool" where
  "dp_env_ok env \<longleftrightarrow> longest_prefix (dp_lpm env) \<and>
     (\<forall>c k v. dp_update_ct env c k v = c \<or> dp_update_ct env c k v = c(k \<mapsto> v))"

lemma ct_first_step: "flow_step None f (Some (ct_first f))"
  by (auto simp: ct_first_def closing_def has_syn_def intro: flow_step.intros)

lemma ct_next_step: "flow_step (Some s) f (Some (ct_next s f))"
  by (auto simp: ct_next_def closing_def has_ack_def flow_step_Some_simp)

lemma ct_update_step:
  assumes "dp_env_ok env"
  shows "flow_step (flow_state m (ct_build_key info)) (pi_tcp_flags info)
      (flow_state (ct_update env info m) (ct_build_key info))"
    and "k \<noteq> ct_build_key info \<Longrightarrow> conntrack (ct_update env info m) k = conntrack m k"
proof -
  let ?c = "conntrack m" and ?k = "ct_build_key info"
  let ?nv = "\<lparr>cv_LastSeen = dp_ktime env, cv_State = ct_first (pi_tcp_flags info)\<rparr>"
  have "dp_update_ct env ?c ?k ?nv = ?c \<or> dp_update_ct env ?c ?k ?nv = ?c(?k \<mapsto> ?nv)"
    using assms by (simp add: dp_env_ok_def)
  then show "flow_step (flow_state m ?k) (pi_tcp_flags info) (flow_state (ct_update env info m) ?k)"
    by (cases "?c ?k")
      (auto simp: ct_update_def flow_state_def Let_def intro: ct_first_step ct_next_step refused)
  from \<open>dp_update_ct env ?c ?k ?nv = ?c \<or> _\<close>
  show "k \<noteq> ?k \<Longrightarrow> conntrack (ct_update env info m) k = conntrack m k"
    by (auto simp: ct_update_def Let_def split: option.splits)
qed

text \<open>The simulation: a packet leaves every flow alone, or makes one transition of its own flow.\<close>

lemma prog_spec_flow:
  assumes "dp_env_ok env"
  shows "conntrack (fst (prog_spec env pkt m)) k = conntrack m k \<or>
    (\<exists>info. tracks env m pkt = Some info \<and> ct_build_key info = k \<and>
       flow_step (flow_state m k) (pi_tcp_flags info) (flow_state (fst (prog_spec env pkt m)) k))"
proof (cases "tracks env m pkt")
  case None
  then show ?thesis by (simp add: conntrack_prog_spec)
next
  case (Some info)
  then have c: "conntrack (fst (prog_spec env pkt m)) = conntrack (ct_update env info m)"
    by (simp add: conntrack_prog_spec)
  show ?thesis
  proof (cases "ct_build_key info = k")
    case True
    with ct_update_step(1) [OF assms, of m info] Some c show ?thesis
      by (simp add: flow_state_def)
  next
    case False
    with ct_update_step(2) [OF assms, of k info m] c show ?thesis by simp
  qed
qed

section \<open>Runs of packets\<close>

text \<open>Packets that arrive one after the other, each with the kernel environment of its time.\<close>

fun run_packets :: "(dp_env \<times> u8 list) list \<Rightarrow> fw_maps \<Rightarrow> fw_maps \<times> xdp_action list" where
  "run_packets [] m = (m, [])"
| "run_packets ((env, pkt) # ps) m =
     (case firewall_prog env pkt m of
        (m1, v) \<Rightarrow> (case run_packets ps m1 of (m2, vs) \<Rightarrow> (m2, v # vs)))"

definition envs_ok :: "(dp_env \<times> u8 list) list \<Rightarrow> bool" where
  "envs_ok ps \<longleftrightarrow> (\<forall>p \<in> set ps. dp_env_ok (fst p))"

lemma envs_ok_Nil [simp]: "envs_ok []"
  by (simp add: envs_ok_def)

lemma envs_ok_Cons [simp]: "envs_ok ((env, pkt) # ps) \<longleftrightarrow> dp_env_ok env \<and> envs_ok ps"
  by (auto simp: envs_ok_def)

lemma prog_refines:
  "presence_ok m \<Longrightarrow> dp_env_ok env \<Longrightarrow> firewall_prog env pkt m = prog_spec env pkt m"
  by (simp add: firewall_prog_refines dp_env_ok_def)

text \<open>The tables a packet is judged by: everything but the counters and the flows.\<close>

definition same_tables :: "fw_maps \<Rightarrow> fw_maps \<Rightarrow> bool" where
  "same_tables m m' \<longleftrightarrow> blocked_ips m' = blocked_ips m \<and> port_policy m' = port_policy m \<and>
     firewall_config m' = firewall_config m \<and> rule_presence m' = rule_presence m"

lemma same_tables_prog_spec: "same_tables m (fst (prog_spec env pkt m))"
  by (simp add: same_tables_def)

lemma same_tables_judge:
  assumes "same_tables m m'"
  shows "matched_rules env m' info = matched_rules env m info"
    and "default_policy m' = default_policy m"
    and "presence_ok m' = presence_ok m"
proof -
  from assms have eqs: "blocked_ips m' = blocked_ips m" "port_policy m' = port_policy m"
      "firewall_config m' = firewall_config m" "rule_presence m' = rule_presence m"
    by (simp_all add: same_tables_def)
  show "matched_rules env m' info = matched_rules env m info"
    unfolding matched_rules_def ip_block_action_def port_rule_action_def try_lookup_def
      port_probe_def eqs ..
  show "default_policy m' = default_policy m" unfolding default_policy_def eqs ..
  show "presence_ok m' = presence_ok m"
    unfolding presence_ok_def bit_set_def presence_flags_def eqs ..
qed

lemma same_tables_trans: "same_tables a b \<Longrightarrow> same_tables b c \<Longrightarrow> same_tables a c"
  by (simp add: same_tables_def)

text \<open>Induction over a run: a property of the state that each packet keeps.\<close>

lemma run_packets_invariant:
  assumes "presence_ok m" "envs_ok ps" "I m"
    "\<And>m env pkt. (env, pkt) \<in> set ps \<Longrightarrow> presence_ok m \<Longrightarrow> dp_env_ok env \<Longrightarrow> I m \<Longrightarrow>
       I (fst (prog_spec env pkt m))"
  shows "I (fst (run_packets ps m)) \<and> same_tables m (fst (run_packets ps m))"
  using assms
proof (induction ps arbitrary: m)
  case Nil
  then show ?case by (simp add: same_tables_def)
next
  case (Cons ep ps)
  obtain env pkt where [simp]: "ep = (env, pkt)" by fastforce
  obtain m1 where m1: "m1 = fst (prog_spec env pkt m)" by blast
  have p: "firewall_prog env pkt m = (m1, verdict_of env m pkt)"
    using Cons.prems by (simp add: prog_refines m1 prod_eq_iff)
  have s: "same_tables m m1" unfolding m1 by (rule same_tables_prog_spec)
  have "I (fst (run_packets ps m1)) \<and> same_tables m1 (fst (run_packets ps m1))"
    using Cons.prems s by (intro Cons.IH) (simp_all add: m1 same_tables_judge)
  with p s show ?case by (auto simp: split_def intro: same_tables_trans)
qed

lemma length_run_packets [simp]: "length (snd (run_packets ps m)) = length ps"
  by (induction ps arbitrary: m) (auto simp: split_def)

text \<open>A packet of flow \<open>k\<close> that no rule matches.\<close>

definition unmatched_packet :: "ctKey \<Rightarrow> dp_env \<Rightarrow> fw_maps \<Rightarrow> u8 list \<Rightarrow> bool" where
  "unmatched_packet k env m pkt \<longleftrightarrow>
     (\<exists>info. parse_packet pkt = Some info \<and> ct_build_key info = k \<and> matched_rules env m info = {})"

definition of_flow :: "ctKey \<Rightarrow> u8 list \<Rightarrow> bool" where
  "of_flow k pkt \<longleftrightarrow> (\<exists>info. parse_packet pkt = Some info \<and> ct_build_key info = k)"

text \<open>Under default deny a packet of an untracked flow that no rule matches is dropped and
  leaves the flow untracked.\<close>

lemma unmatched_dropped:
  assumes "default_policy m = DefaultDeny" "conntrack m k = None" "unmatched_packet k env m pkt"
  shows "verdict_of env m pkt = XDP_DROP \<and> tracks env m pkt = None"
  using assms
  by (auto simp: unmatched_packet_def verdict_of_def tracks_def packet_verdict_def stateful_pass_def
      ct_is_established_def default_verdict_def)

lemma untracked_kept:
  assumes "default_policy m = DefaultDeny" "conntrack m k = None" "dp_env_ok env"
    "of_flow k pkt \<longrightarrow> unmatched_packet k env m pkt"
  shows "conntrack (fst (prog_spec env pkt m)) k = None"
proof (cases "of_flow k pkt")
  case True
  with assms unmatched_dropped [of m k env pkt] show ?thesis by (simp add: conntrack_prog_spec)
next
  case False
  then have "\<not> (\<exists>info. tracks env m pkt = Some info \<and> ct_build_key info = k)"
    by (auto simp: of_flow_def tracks_def split: option.splits if_splits)
  with prog_spec_flow [OF assms(3), of pkt m k] assms(2) show ?thesis by auto
qed

lemma unmatched_same_tables:
  "same_tables m m' \<Longrightarrow> unmatched_packet k env m' pkt = unmatched_packet k env m pkt"
  by (simp add: unmatched_packet_def same_tables_judge)

lemma run_unmatched:
  assumes "presence_ok m" "envs_ok ps" "default_policy m = DefaultDeny" "conntrack m k = None"
    "\<forall>(env, pkt) \<in> set ps. of_flow k pkt \<longrightarrow> unmatched_packet k env m pkt"
  shows "conntrack (fst (run_packets ps m)) k = None \<and>
    (\<forall>i < length ps. of_flow k (snd (ps ! i)) \<longrightarrow> snd (run_packets ps m) ! i = XDP_DROP)"
  using assms
proof (induction ps arbitrary: m)
  case (Cons ep ps)
  obtain env pkt where [simp]: "ep = (env, pkt)" by fastforce
  obtain m1 where m1: "m1 = fst (prog_spec env pkt m)" by blast
  have p: "firewall_prog env pkt m = (m1, verdict_of env m pkt)"
    using Cons.prems by (simp add: prog_refines m1 prod_eq_iff)
  have s: "same_tables m m1" unfolding m1 by (rule same_tables_prog_spec)
  have k: "conntrack m1 k = None" using Cons.prems unfolding m1 by (intro untracked_kept) auto
  have v: "of_flow k pkt \<longrightarrow> verdict_of env m pkt = XDP_DROP"
    using Cons.prems unmatched_dropped [of m k env pkt] by auto
  have "conntrack (fst (run_packets ps m1)) k = None \<and>
    (\<forall>i < length ps. of_flow k (snd (ps ! i)) \<longrightarrow> snd (run_packets ps m1) ! i = XDP_DROP)"
    using Cons.prems s k by (intro Cons.IH) (auto simp: same_tables_judge unmatched_same_tables)
  with p v show ?case by (auto simp: split_def nth_Cons split: nat.splits)
qed simp

text \<open>A closed flow stays closed, whatever packets arrive.\<close>

lemma closed_kept:
  assumes "dp_env_ok env" "flow_state m k = Some ctStateClosed"
  shows "flow_state (fst (prog_spec env pkt m)) k = Some ctStateClosed"
  using prog_spec_flow [OF assms(1), of pkt m k]
proof
  assume "conntrack (fst (prog_spec env pkt m)) k = conntrack m k"
  with assms show ?thesis by (simp add: flow_state_def)
next
  assume "\<exists>info. tracks env m pkt = Some info \<and> ct_build_key info = k \<and>
       flow_step (flow_state m k) (pi_tcp_flags info) (flow_state (fst (prog_spec env pkt m)) k)"
  then show ?thesis unfolding assms(2)
    by (auto elim!: flow_step_SomeE simp: enum_defs)
qed

section \<open>Well-formed TCP frames\<close>

text \<open>An Ethernet frame with an IPv4 header, its options (a whole number of 32-bit words), a TCP
  header and a payload; \<open>mac\<close> are the twelve address bytes, \<open>h1\<close> the IPv4 header from
  \<open>tos\<close> to \<open>ttl\<close>, \<open>sa\<close> the sequence and acknowledgement numbers.\<close>

definition tcp_frame ::
    "u8 list \<Rightarrow> u8 list \<Rightarrow> u8 list \<Rightarrow> u32 \<Rightarrow> u32 \<Rightarrow> u8 list \<Rightarrow> u16 \<Rightarrow> u16 \<Rightarrow> u8 list \<Rightarrow> u8 \<Rightarrow> u8 \<Rightarrow> u8 list
      \<Rightarrow> u8 list" where
  "tcp_frame mac h1 csum src dst opts sport dport sa off flags rest =
     mac @ [0x08, 0x00] @ [0x40 OR of_nat (5 + length opts div 4)] @ h1 @ [6] @ csum @
     data_bytes src @ data_bytes dst @ opts @
     [byte_of 0 sport, byte_of 1 sport, byte_of 0 dport, byte_of 1 dport] @ sa @ [off, flags] @ rest"

lemma ihl_nibble: "n \<le> 10 \<Longrightarrow> unat ((0x40 OR of_nat (5 + n)) AND (0x0F :: u8)) = 5 + n"
proof -
  have "list_all (\<lambda>n. unat ((0x40 OR of_nat (5 + n)) AND (0x0F :: u8)) = 5 + n) [0..<11]"
    by code_simp
  then show "n \<le> 10 \<Longrightarrow> ?thesis" by (auto simp: list_all_iff)
qed

lemma nth_append_at: "length xs = n \<Longrightarrow> (xs @ y # ys) ! n = y"
  by auto

lemma nth_append_skip: "length xs \<le> n \<Longrightarrow> (xs @ ys) ! n = ys ! (n - length xs)"
  by (simp add: nth_append)

lemma tcp_frame_headers:
  fixes src dst :: u32 and sport dport :: u16 and off flags :: u8
  assumes "length mac = 12" "length h1 = 8" "length csum = 2" "length opts = 4 * n" "n \<le> 10"
    "length sa = 8" "6 \<le> length rest"
  defines "p \<equiv> tcp_frame mac h1 csum src dst opts sport dport sa off flags rest"
  shows "parse_ethhdr p 0 = Some (14, ETH_P_IP_be)" "parse_iphdr p 14 = Some (34 + 4 * n, 14, 6)"
    "parse_tcphdr p (34 + 4 * n) = Some (54 + 4 * n, 34 + 4 * n)"
    "load32 p 26 = src" "load32 p 30 = dst" "load16 p (34 + 4 * n) = sport" "load16 p (36 + 4 * n) = dport"
    "p ! (47 + 4 * n) = flags"
proof -
  have len: "length p = 54 + 4 * n + (length rest - 6)"
    using assms by (simp add: p_def tcp_frame_def data_bytes_def)
  show "parse_ethhdr p 0 = Some (14, ETH_P_IP_be)"
    using assms(1-7) len
    by (simp add: p_def parse_ethhdr_def load16_def tcp_frame_def nth_append ETH_P_IP_be_def be16_swap)
  have "p ! 14 = 0x40 OR of_nat (5 + n)"
    using assms(1-7) by (simp add: p_def tcp_frame_def nth_append)
  then have ihl: "ip_ihl p 14 = 5 + n"
    using ihl_nibble [OF assms(5)] by (simp only: ip_ihl_def)
  have "p ! 23 = 6" using assms(1-7) by (simp add: p_def tcp_frame_def nth_append)
  with ihl len show "parse_iphdr p 14 = Some (34 + 4 * n, 14, 6)"
    by (simp add: parse_iphdr_def Let_def)
  show "load32 p 26 = src" "load32 p 30 = dst"
    using assms(1-7) by (simp_all add: p_def load32_def tcp_frame_def nth_append data_bytes_def)
  show "parse_tcphdr p (34 + 4 * n) = Some (54 + 4 * n, 34 + 4 * n)"
    using len by (simp add: parse_tcphdr_def)
  show "load16 p (34 + 4 * n) = sport" "load16 p (36 + 4 * n) = dport" "p ! (47 + 4 * n) = flags"
    using assms(1-7) by (simp_all add: p_def load16_def tcp_frame_def nth_append data_bytes_def)
qed

lemma parse_tcp_frame:
  assumes "length mac = 12" "length h1 = 8" "length csum = 2" "length opts = 4 * n" "n \<le> 10"
    "length sa = 8" "6 \<le> length rest"
  shows "parse_packet (tcp_frame mac h1 csum src dst opts sport dport sa off flags rest) =
    Some \<lparr>pi_saddr = src, pi_daddr = dst, pi_protocol = 6, pi_dport = dport, pi_sport = sport,
      pi_tcp_flags = tcp_flag_bits flags\<rparr>"
  by (simp add: parse_packet_def tcp_frame_headers [OF assms] Let_def IPPROTO_TCP_def)

end
