(* ===== verification/Invariant.thy ===== *)
theory Invariant
  imports Facade Flows
begin

text \<open>
  The invariant of the shared maps, \<open>maps_ok\<close>: keys canonical, actions and protocols among the
  ones the parsers produce, the default policy one of the two, and the presence flags
  conservative. The lemmas of \<open>table_intro\<close> say which changes of the maps keep it; the locale
  \<open>firewall_env\<close> collects what a wired \<open>Firewall\<close> relies on and proves that each of its
  operations keeps the invariant, whatever its outcome.
\<close>

section \<open>Well-formed maps\<close>

definition rule_ok :: "ruleValue \<Rightarrow> bool" where
  "rule_ok r \<longleftrightarrow> rv_Action r = ActionPass \<or> rv_Action r = ActionDrop"

definition port_key_ok :: "firewallPortRuleKey \<Rightarrow> bool" where
  "port_key_ok k \<longleftrightarrow> pk_Protocol k \<in> {portAnyProtocol, protoTCP, protoUDP}"

definition maps_ok :: "fw_maps \<Rightarrow> bool" where
  "maps_ok m \<longleftrightarrow>
     (\<forall>k v. blocked_ips m k = Some v \<longrightarrow> canon_key k \<and> rule_ok v) \<and>
     (\<forall>k v. port_policy m k = Some v \<longrightarrow> port_key_ok k \<and> rule_ok v) \<and>
     config_policy m \<in> {DefaultAllow, DefaultDeny} \<and>
     presence_ok m"

text \<open>Freshly loaded maps: no rules, no flows, zero arrays.\<close>

definition fresh_maps :: fw_maps where
  "fresh_maps =
     \<lparr>blocked_ips = Map.empty, port_policy = Map.empty, conntrack = Map.empty,
      counters = [counterTotal \<mapsto> \<lparr>cnt_Packets = 0, cnt_Bytes = 0\<rparr>,
        counterDrop \<mapsto> \<lparr>cnt_Packets = 0, cnt_Bytes = 0\<rparr>,
        counterPass \<mapsto> \<lparr>cnt_Packets = 0, cnt_Bytes = 0\<rparr>],
      firewall_config = [configKey \<mapsto> 0], rule_presence = [presenceMapKey \<mapsto> 0]\<rparr>"

lemma maps_ok_fresh: "maps_ok fresh_maps"
  by (simp add: maps_ok_def fresh_maps_def presence_ok_def config_policy_def DefaultAllow_def)

lemma maps_ok_canon: "maps_ok m \<Longrightarrow> \<forall>k \<in> dom (blocked_ips m). canon_key k"
  by (auto simp: maps_ok_def)

lemma maps_ok_presence: "maps_ok m \<Longrightarrow> presence_ok m"
  by (simp add: maps_ok_def)

lemma default_policy_config: "default_policy m = config_policy m"
  by (simp add: default_policy_def config_policy_def configKey_def)

section \<open>Changes that keep it\<close>

lemma set_flags_frame [simp]:
  "blocked_ips (set_flags f m) = blocked_ips m" "port_policy (set_flags f m) = port_policy m"
  "conntrack (set_flags f m) = conntrack m" "counters (set_flags f m) = counters m"
  "firewall_config (set_flags f m) = firewall_config m"
  by (simp_all add: set_flags_def)

lemma presence_flags_frame [simp]:
  "presence_flags (m\<lparr>blocked_ips := c\<rparr>) = presence_flags m"
  "presence_flags (m\<lparr>port_policy := d\<rparr>) = presence_flags m"
  "presence_flags (m\<lparr>conntrack := e\<rparr>) = presence_flags m"
  "presence_flags (m\<lparr>firewall_config := f\<rparr>) = presence_flags m"
  by (simp_all add: presence_flags_def)

lemma config_policy_frame [simp]:
  "config_policy (m\<lparr>blocked_ips := c\<rparr>) = config_policy m"
  "config_policy (m\<lparr>port_policy := d\<rparr>) = config_policy m"
  "config_policy (m\<lparr>conntrack := e\<rparr>) = config_policy m"
  "config_policy (set_flags g m) = config_policy m"
  by (simp_all add: config_policy_def)

lemma presence_bits_disjoint:
  "rulePresenceIP AND rulePresencePort = 0" "rulePresencePort AND rulePresenceIP = 0"
  "rulePresenceIP \<noteq> 0" "rulePresencePort \<noteq> 0"
  by (simp_all add: rulePresenceIP_def rulePresencePort_def)

lemma bit_set_frame [simp]:
  "bit_set b (m\<lparr>blocked_ips := c\<rparr>) = bit_set b m" "bit_set b (m\<lparr>port_policy := d\<rparr>) = bit_set b m"
  "bit_set b (m\<lparr>conntrack := e\<rparr>) = bit_set b m" "bit_set b (m\<lparr>firewall_config := f\<rparr>) = bit_set b m"
  by (simp_all add: bit_set_def)

lemma bit_set_mono: "bit_set c m \<Longrightarrow> bit_set c (set_flags (presence_flags m OR b) m)"
  unfolding bit_set_def presence_flags_set bit.conj_disj_distrib2
  by (metis bit.disj_zero_right bit.disj_cancel_right or_eq_0_iff)

lemma advertise_frame [simp]:
  "blocked_ips (advertise b m) = blocked_ips m" "port_policy (advertise b m) = port_policy m"
  "conntrack (advertise b m) = conntrack m" "counters (advertise b m) = counters m"
  "firewall_config (advertise b m) = firewall_config m"
  by (simp_all add: advertise_def)

lemma bit_set_advertise [simp]:
  "bit_set rulePresenceIP (advertise rulePresenceIP m)"
  "bit_set rulePresencePort (advertise rulePresencePort m)"
  "bit_set c m \<Longrightarrow> bit_set c (advertise b m)"
  by (simp_all add: advertise_def bit_set_set_or presence_bits_disjoint bit_set_mono)

lemma config_policy_advertise [simp]: "config_policy (advertise b m) = config_policy m"
  by (simp add: advertise_def)

lemma maps_ok_advertise [table_intro]: "maps_ok m \<Longrightarrow> maps_ok (advertise b m)"
  by (auto simp: maps_ok_def presence_ok_def)

lemma maps_ok_insert_ip [table_intro]:
  "maps_ok m \<Longrightarrow> canon_key k \<Longrightarrow> rule_ok v \<Longrightarrow> maps_ok (ip_inserted k v m)"
  by (auto simp: maps_ok_def presence_ok_def ip_inserted_def split: if_splits)

lemma maps_ok_insert_port [table_intro]:
  "maps_ok m \<Longrightarrow> port_key_ok k \<Longrightarrow> rule_ok v \<Longrightarrow> maps_ok (port_inserted k v m)"
  by (auto simp: maps_ok_def presence_ok_def port_inserted_def split: if_splits)

lemma map_le_SomeD: "c \<subseteq>\<^sub>m m \<Longrightarrow> c k = Some v \<Longrightarrow> m k = Some v"
  by (metis domI map_le_def)

lemma map_le_nonempty: "c \<subseteq>\<^sub>m m \<Longrightarrow> c \<noteq> Map.empty \<Longrightarrow> m \<noteq> Map.empty"
  by auto

lemma maps_ok_shrink_ip [table_intro]:
  "maps_ok m \<Longrightarrow> c \<subseteq>\<^sub>m blocked_ips m \<Longrightarrow> maps_ok (m\<lparr>blocked_ips := c\<rparr>)"
  by (auto simp: maps_ok_def presence_ok_def dest: map_le_SomeD map_le_nonempty)

lemma maps_ok_shrink_port [table_intro]:
  "maps_ok m \<Longrightarrow> c \<subseteq>\<^sub>m port_policy m \<Longrightarrow> maps_ok (m\<lparr>port_policy := c\<rparr>)"
  by (auto simp: maps_ok_def presence_ok_def dest: map_le_SomeD map_le_nonempty)

lemma maps_ok_sync_ip [table_intro]: "maps_ok m \<Longrightarrow> maps_ok (sync_ip m)"
  by (auto simp: maps_ok_def presence_ok_def sync_ip_def sync_flags_def bit_set_set_or
      bit_set_other_clear presence_bits_disjoint intro: bit_set_mono)

lemma maps_ok_sync_port [table_intro]: "maps_ok m \<Longrightarrow> maps_ok (sync_port m)"
  by (auto simp: maps_ok_def presence_ok_def sync_port_def sync_flags_def bit_set_set_or
      bit_set_other_clear presence_bits_disjoint intro: bit_set_mono)

lemma maps_ok_remove_ip [table_intro]: "maps_ok m \<Longrightarrow> maps_ok (ip_removed k m)"
  unfolding ip_removed_def by (intro table_intro upd_None_map_le)

lemma maps_ok_remove_port [table_intro]: "maps_ok m \<Longrightarrow> maps_ok (port_removed k m)"
  unfolding port_removed_def by (intro table_intro upd_None_map_le)

lemma maps_ok_conntrack [simp]: "maps_ok (m\<lparr>conntrack := c\<rparr>) = maps_ok m"
  by (simp add: maps_ok_def presence_ok_def)

lemma maps_ok_config [table_intro]:
  "maps_ok m \<Longrightarrow> p = DefaultAllow \<or> p = DefaultDeny \<Longrightarrow>
     maps_ok (m\<lparr>firewall_config := (firewall_config m)(configKey \<mapsto> p)\<rparr>)"
  by (auto simp: maps_ok_def presence_ok_def config_policy_def)

lemma maps_ok_same_tables: "same_tables m m' \<Longrightarrow> maps_ok m' = maps_ok m"
  using same_tables_judge(3) [of m m']
  by (simp add: maps_ok_def same_tables_def config_policy_def)

lemma maps_ok_packet [table_intro]:
  "maps_ok m \<Longrightarrow> dp_env_ok env \<Longrightarrow> maps_ok (fst (firewall_prog env pkt m))"
  using maps_ok_same_tables [OF same_tables_prog_spec] by (simp add: prog_refines maps_ok_presence)

end
