(* ===== verification/FirewallEnv.thy ===== *)
theory FirewallEnv
  imports Invariant
begin

text \<open>
  What each operation of the wired \<open>Firewall\<close> does to the shared maps. \<open>mgr_step\<close> is the
  abstract step of the control plane: the changes its operations may make, successful or not. The
  locale \<open>firewall_env\<close> is the conjunction of what the five managers rely on; its lemmas are the
  effects of the facade's methods and that each of them is such a step.
\<close>

section \<open>Abstract steps\<close>

inductive mgr_step :: "fw_maps \<Rightarrow> fw_maps \<Rightarrow> bool" where
  keep: "mgr_step m m"
| advertised: "mgr_step m (advertise b m)"
| insert_ip: "canon_key k \<Longrightarrow> rule_ok v \<Longrightarrow> mgr_step m (ip_inserted k v m)"
| lose_ip: "c \<subseteq>\<^sub>m blocked_ips m \<Longrightarrow> mgr_step m (m\<lparr>blocked_ips := c\<rparr>)"
| lose_ip_sync: "c \<subseteq>\<^sub>m blocked_ips m \<Longrightarrow> mgr_step m (sync_ip (m\<lparr>blocked_ips := c\<rparr>))"
| insert_port: "port_key_ok k \<Longrightarrow> rule_ok v \<Longrightarrow> mgr_step m (port_inserted k v m)"
| lose_port: "c \<subseteq>\<^sub>m port_policy m \<Longrightarrow> mgr_step m (m\<lparr>port_policy := c\<rparr>)"
| lose_port_sync: "c \<subseteq>\<^sub>m port_policy m \<Longrightarrow> mgr_step m (sync_port (m\<lparr>port_policy := c\<rparr>))"
| set_policy: "p = DefaultAllow \<or> p = DefaultDeny \<Longrightarrow>
    mgr_step m (m\<lparr>firewall_config := (firewall_config m)(configKey \<mapsto> p)\<rparr>)"
| lose_flows: "c \<subseteq>\<^sub>m conntrack m \<Longrightarrow> mgr_step m (m\<lparr>conntrack := c\<rparr>)"

lemma mgr_step_maps_ok: "mgr_step m m' \<Longrightarrow> maps_ok m \<Longrightarrow> maps_ok m'"
  by (induction rule: mgr_step.induct) (auto intro: table_intro)

lemma mgr_steps_maps_ok: "mgr_step\<^sup>*\<^sup>* m m' \<Longrightarrow> maps_ok m \<Longrightarrow> maps_ok m'"
  by (induction rule: rtranclp_induct) (auto intro: mgr_step_maps_ok)

text \<open>The control plane never touches the counters, and only loses flows.\<close>

lemma counters_sync [simp]: "counters (sync_ip m) = counters m" "counters (sync_port m) = counters m"
    "conntrack (sync_ip m) = conntrack m" "conntrack (sync_port m) = conntrack m"
    "blocked_ips (sync_ip m) = blocked_ips m" "port_policy (sync_ip m) = port_policy m"
    "blocked_ips (sync_port m) = blocked_ips m" "port_policy (sync_port m) = port_policy m"
    "firewall_config (sync_ip m) = firewall_config m" "firewall_config (sync_port m) = firewall_config m"
  by (simp_all add: sync_ip_def sync_port_def sync_flags_def)

lemma change_frame [simp]:
  "counters (ip_inserted k v m) = counters m" "counters (port_inserted k' v m) = counters m"
  "conntrack (ip_inserted k v m) = conntrack m" "conntrack (port_inserted k' v m) = conntrack m"
  "port_policy (ip_inserted k v m) = port_policy m" "blocked_ips (port_inserted k' v m) = blocked_ips m"
  "firewall_config (ip_inserted k v m) = firewall_config m"
  "firewall_config (port_inserted k' v m) = firewall_config m"
  "counters (ip_removed k m) = counters m" "counters (port_removed k' m) = counters m"
  "conntrack (ip_removed k m) = conntrack m" "conntrack (port_removed k' m) = conntrack m"
  "port_policy (ip_removed k m) = port_policy m" "blocked_ips (port_removed k' m) = blocked_ips m"
  by (simp_all add: ip_inserted_def port_inserted_def ip_removed_def port_removed_def)

lemma mgr_step_flows: "mgr_step m m' \<Longrightarrow> conntrack m' \<subseteq>\<^sub>m conntrack m \<and> counters m' = counters m"
  by (induction rule: mgr_step.induct) simp_all

lemma mgr_steps_flows: "mgr_step\<^sup>*\<^sup>* m m' \<Longrightarrow> conntrack m' \<subseteq>\<^sub>m conntrack m \<and> counters m' = counters m"
  by (induction rule: rtranclp_induct) (auto dest!: mgr_step_flows intro: map_le_trans)

lemma remove_steps:
  "mgr_step m (ip_removed k m)" "mgr_step m (m\<lparr>blocked_ips := (blocked_ips m)(k := None)\<rparr>)"
  "mgr_step m (port_removed k' m)" "mgr_step m (m\<lparr>port_policy := (port_policy m)(k' := None)\<rparr>)"
  unfolding ip_removed_def port_removed_def by (intro mgr_step.intros upd_None_map_le)+

lemma emptied_steps:
  "mgr_step m (sync_ip (m\<lparr>blocked_ips := Map.empty\<rparr>))"
  "mgr_step m (sync_port (m\<lparr>port_policy := Map.empty\<rparr>))"
  "mgr_step m (m\<lparr>conntrack := Map.empty\<rparr>)"
  by (intro mgr_step.intros map_le_empty)+

lemmas mgr_step_intros = mgr_step.intros remove_steps emptied_steps

lemma port_key_proto: "port_key dst proto dport sport = Inr k \<Longrightarrow> port_key_ok k"
  using protoToCode_cases [of proto]
  by (auto simp: port_key_def port_key_ok_def PortPolicyManager_newPortKey_def
      split: sum.splits option.splits list.splits)

section \<open>The environment of a firewall\<close>

text \<open>What is only spoken of: the contents of the maps, the keys of the iterators, and whether the maps of the
  rules and the policy have not been written between two worlds (a packet reads them only).\<close>

record ('w, 'i) fw_ghost =
  gh_view :: "'w \<Rightarrow> fw_maps"
  gh_lpm :: "(firewallIpv4LpmKey \<rightharpoonup> ruleValue) \<Rightarrow> firewallIpv4LpmKey \<Rightarrow> ruleValue option"
  gh_cur_ip :: "'i \<Rightarrow> firewallIpv4LpmKey option"
  gh_cur_port :: "'i \<Rightarrow> firewallPortRuleKey option"
  gh_cur_ct :: "'i \<Rightarrow> ctKey option"
  gh_cur_idx :: "'i \<Rightarrow> u32 option"
  gh_steady :: "'w \<Rightarrow> 'w \<Rightarrow> bool"

definition fw_presence :: "('w, 'i, 'l) Firewall \<Rightarrow> ('w, 'i, u32, u32) bpf_handle" where
  "fw_presence fw = fo_RulePresence (x_objs (fw_prog fw))"

locale firewall_env =
  B: blocklist_env "gh_view G" "gh_lpm G" "gh_cur_ip G" "gh_cur_idx G" "fw_mgr fw" "fw_presence fw" +
  Po: port_env "gh_view G" "gh_cur_port G" "gh_cur_idx G" "fw_portPolicyMgr fw" "fw_presence fw" +
  Co: counter_env "gh_view G" "gh_cur_idx G" "fw_counterMgr fw" +
  Cf: config_env "gh_view G" "gh_cur_idx G" "fw_configMgr fw" +
  Ct: conntrack_env "gh_view G" "gh_cur_ct G" "fw_ctMgr fw"
  for G :: "('w, 'i) fw_ghost" and fw :: "('w, 'i, 'l) Firewall"
begin

lemma BlockIPWithActionPriority_effect:
  assumes "Firewall_BlockIPWithActionPriority fw s a p w = (w', e)"
  shows "(e = None \<and> (\<exists>act k. ParseAction a = Inr act \<and> rule_key s = Inr k \<and> canon_key k \<and>
      gh_view G w' = ip_inserted k \<lparr>rv_Action = act, rv_Priority = p\<rparr> (gh_view G w))) \<or>
    (e \<noteq> None \<and> gh_view G w' \<in> {gh_view G w, advertise rulePresenceIP (gh_view G w)})"
proof (cases "ParseAction a")
  case (Inl err)
  with assms show ?thesis by (auto simp: Firewall_BlockIPWithActionPriority_def)
next
  case (Inr act)
  then obtain e' where b: "MapManager_BlockIPWithActionPriority (fw_mgr fw) s act p w = (w', e')"
      and e: "e = map_option (Wrapped ''adding'') e'"
    using assms by (auto simp: Firewall_BlockIPWithActionPriority_def wrap_err_def prod_eq_iff)
  from B.Block_effect [OF b] Inr e show ?thesis by (auto split: sum.splits)
qed

lemma BlockIP_effect:
  assumes "Firewall_BlockIP fw s w = (w', e)"
  shows "(e = None \<and> (\<exists>k. rule_key s = Inr k \<and> canon_key k \<and>
      gh_view G w' = ip_inserted k \<lparr>rv_Action = ActionDrop, rv_Priority = 0\<rparr> (gh_view G w))) \<or>
    (e \<noteq> None \<and> gh_view G w' \<in> {gh_view G w, advertise rulePresenceIP (gh_view G w)})"
proof -
  from assms obtain e' where
      b: "MapManager_BlockIPWithActionPriority (fw_mgr fw) s ActionDrop 0 w = (w', e')"
      and e: "e = map_option (Wrapped ''blocking'') e'"
    by (auto simp: Firewall_BlockIP_def MapManager_BlockIP_def MapManager_BlockIPWithAction_def
        defaultBlockAction_def wrap_err_def prod_eq_iff)
  from B.Block_effect [OF b] e show ?thesis by (auto split: sum.splits)
qed

lemma UnblockIP_effect:
  assumes "Firewall_UnblockIP fw s w = (w', e)"
  shows "(e = None \<and> (\<exists>k. rule_key s = Inr k \<and> k \<in> dom (blocked_ips (gh_view G w)) \<and>
      gh_view G w' = ip_removed k (gh_view G w))) \<or>
    (e \<noteq> None \<and> (gh_view G w' = gh_view G w \<or> (\<exists>k. gh_view G w' =
      (gh_view G w)\<lparr>blocked_ips := (blocked_ips (gh_view G w))(k := None)\<rparr>)))"
proof -
  from assms obtain e' where b: "MapManager_UnblockIP (fw_mgr fw) s w = (w', e')"
      and e: "e = map_option (Wrapped ''unblocking'') e'"
    by (auto simp: Firewall_UnblockIP_def wrap_err_def prod_eq_iff)
  from B.Unblock_effect [OF b] e show ?thesis by (auto split: sum.splits)
qed

lemma BlockPortRuleWithActionPriority_effect:
  assumes "Firewall_BlockPortRuleWithActionPriority fw dst proto dport sport a p w = (w', e)"
  shows "(e = None \<and> (\<exists>act k. ParseAction a = Inr act \<and> port_key dst proto dport sport = Inr k \<and>
      gh_view G w' = port_inserted k \<lparr>rv_Action = act, rv_Priority = p\<rparr> (gh_view G w))) \<or>
    (e \<noteq> None \<and> gh_view G w' \<in> {gh_view G w, advertise rulePresencePort (gh_view G w)})"
proof (cases "ParseAction a")
  case (Inl err)
  with assms show ?thesis by (auto simp: Firewall_BlockPortRuleWithActionPriority_def)
next
  case (Inr act)
  then obtain e' where
      b: "PortPolicyManager_BlockWithActionPriority (fw_portPolicyMgr fw) dst proto dport sport act p w = (w', e')"
      and e: "e = map_option (Wrapped ''adding port rule'') e'"
    using assms by (auto simp: Firewall_BlockPortRuleWithActionPriority_def wrap_err_def prod_eq_iff)
  from Po.Block_effect [OF b] Inr e show ?thesis by (auto split: sum.splits)
qed

lemma BlockPortRule_effect:
  assumes "Firewall_BlockPortRule fw dst proto dport sport w = (w', e)"
  shows "(e = None \<and> (\<exists>k. port_key dst proto dport sport = Inr k \<and>
      gh_view G w' = port_inserted k \<lparr>rv_Action = ActionDrop, rv_Priority = 0\<rparr> (gh_view G w))) \<or>
    (e \<noteq> None \<and> gh_view G w' \<in> {gh_view G w, advertise rulePresencePort (gh_view G w)})"
proof -
  from assms obtain e' where
      b: "PortPolicyManager_BlockWithActionPriority (fw_portPolicyMgr fw) dst proto dport sport ActionDrop 0 w = (w', e')"
      and e: "e = map_option (Wrapped ''blocking port rule'') e'"
    by (auto simp: Firewall_BlockPortRule_def PortPolicyManager_BlockWithAction_def wrap_err_def prod_eq_iff)
  from Po.Block_effect [OF b] e show ?thesis by (auto split: sum.splits)
qed

lemma UnblockPortRule_effect:
  assumes "Firewall_UnblockPortRule fw dst proto dport sport w = (w', e)"
  shows "(e = None \<and> (\<exists>k. port_key dst proto dport sport = Inr k \<and>
      k \<in> dom (port_policy (gh_view G w)) \<and> gh_view G w' = port_removed k (gh_view G w))) \<or>
    (e \<noteq> None \<and> (gh_view G w' = gh_view G w \<or> (\<exists>k. gh_view G w' =
      (gh_view G w)\<lparr>port_policy := (port_policy (gh_view G w))(k := None)\<rparr>)))"
proof -
  from assms obtain e' where
      b: "PortPolicyManager_UnblockWithAction (fw_portPolicyMgr fw) dst proto dport sport w = (w', e')"
      and e: "e = map_option (Wrapped ''unblocking port rule'') e'"
    by (auto simp: Firewall_UnblockPortRule_def wrap_err_def prod_eq_iff)
  from Po.Unblock_effect [OF b] e show ?thesis by (auto split: sum.splits)
qed

lemma Clear_effect:
  assumes "Firewall_Clear fw w = (w', e)" "maps_ok (gh_view G w)"
  shows "(e = None \<and> gh_view G w' = sync_ip ((gh_view G w)\<lparr>blocked_ips := Map.empty\<rparr>)) \<or>
    (e \<noteq> None \<and> (\<exists>c. c \<subseteq>\<^sub>m blocked_ips (gh_view G w) \<and>
      gh_view G w' = (gh_view G w)\<lparr>blocked_ips := c\<rparr>))"
  using assms B.Clear_effect maps_ok_canon unfolding Firewall_Clear_def by blast

lemma ClearPortRules_effect:
  assumes "Firewall_ClearPortRules fw w = (w', e)"
  shows "(e = None \<and> gh_view G w' = sync_port ((gh_view G w)\<lparr>port_policy := Map.empty\<rparr>)) \<or>
    (e \<noteq> None \<and> (\<exists>c. c \<subseteq>\<^sub>m port_policy (gh_view G w) \<and>
      gh_view G w' = (gh_view G w)\<lparr>port_policy := c\<rparr>))"
  using assms Po.Clear_effect unfolding Firewall_ClearPortRules_def by blast

lemma ClearConntrack_effect:
  assumes "Firewall_ClearConntrack fw w = (w', e)"
  shows "(e = None \<and> gh_view G w' = (gh_view G w)\<lparr>conntrack := Map.empty\<rparr>) \<or>
    (e \<noteq> None \<and> (\<exists>c. c \<subseteq>\<^sub>m conntrack (gh_view G w) \<and>
      gh_view G w' = (gh_view G w)\<lparr>conntrack := c\<rparr>))"
  using assms Ct.Clear_effect unfolding Firewall_ClearConntrack_def by blast

lemma SetDefaultPolicy_effect:
  assumes "Firewall_SetDefaultPolicy fw s w = (w', e)"
  shows "(e = None \<and> (\<exists>p. ParseDefaultPolicy s = Inr p \<and> gh_view G w' =
      (gh_view G w)\<lparr>firewall_config := (firewall_config (gh_view G w))(configKey \<mapsto> p)\<rparr>)) \<or>
    (e \<noteq> None \<and> gh_view G w' = gh_view G w)"
proof (cases "ParseDefaultPolicy s")
  case (Inl err)
  with assms show ?thesis by (auto simp: Firewall_SetDefaultPolicy_def)
next
  case (Inr p)
  then obtain e' where b: "ConfigManager_SetDefaultPolicy (fw_configMgr fw) p w = (w', e')"
      and e: "e = map_option (Wrapped ''setting default policy'') e'"
    using assms by (auto simp: Firewall_SetDefaultPolicy_def wrap_err_def prod_eq_iff)
  from Cf.SetDefaultPolicy_effect [OF b] Inr e show ?thesis by auto
qed

lemma ReapConntrack_effect:
  assumes "Firewall_ReapConntrack fw idle w = (w', n, e)"
  shows "\<exists>c. c \<subseteq>\<^sub>m conntrack (gh_view G w) \<and> gh_view G w' = (gh_view G w)\<lparr>conntrack := c\<rparr>"
  using Ct.Reap_effect [OF assms [unfolded Firewall_ReapConntrack_def]]
  by (elim disjE exE conjE) (auto intro: exI [of _ "conntrack (gh_view G w)"] restrict_map_le)

section \<open>Every operation is an abstract step\<close>

lemma ParseDefaultPolicy_cases: "ParseDefaultPolicy s = Inr p \<Longrightarrow> p = DefaultAllow \<or> p = DefaultDeny"
  by (auto simp: ParseDefaultPolicy_def split: if_splits)

lemma rule_ok_parsed: "ParseAction a = Inr act \<Longrightarrow> rule_ok \<lparr>rv_Action = act, rv_Priority = p\<rparr>"
  using ParseAction_cases [of a act] by (simp add: rule_ok_def)

lemma rule_ok_drop: "rule_ok \<lparr>rv_Action = ActionDrop, rv_Priority = p\<rparr>"
  by (simp add: rule_ok_def)

lemma insert_parsed:
  "ParseAction a = Inr act \<Longrightarrow> canon_key k \<Longrightarrow>
     mgr_step m (ip_inserted k \<lparr>rv_Action = act, rv_Priority = p\<rparr> m)"
  "canon_key k \<Longrightarrow> mgr_step m (ip_inserted k \<lparr>rv_Action = ActionDrop, rv_Priority = p\<rparr> m)"
  "ParseAction a = Inr act \<Longrightarrow> port_key dst proto dport sport = Inr k' \<Longrightarrow>
     mgr_step m (port_inserted k' \<lparr>rv_Action = act, rv_Priority = p\<rparr> m)"
  "port_key dst proto dport sport = Inr k' \<Longrightarrow>
     mgr_step m (port_inserted k' \<lparr>rv_Action = ActionDrop, rv_Priority = p\<rparr> m)"
  by (simp_all add: mgr_step.intros rule_ok_parsed rule_ok_drop port_key_proto)

lemma policy_parsed:
  "ParseDefaultPolicy s = Inr p \<Longrightarrow>
     mgr_step m (m\<lparr>firewall_config := (firewall_config m)(configKey \<mapsto> p)\<rparr>)"
  by (intro mgr_step.set_policy ParseDefaultPolicy_cases)

lemmas op_effects =
  BlockIPWithActionPriority_effect BlockIP_effect UnblockIP_effect
  BlockPortRuleWithActionPriority_effect BlockPortRule_effect UnblockPortRule_effect
  SetDefaultPolicy_effect

lemma block_steps:
  "Firewall_BlockIPWithActionPriority fw s a p w = (w', e) \<Longrightarrow> mgr_step (gh_view G w) (gh_view G w')"
  "Firewall_BlockIP fw s w = (w', e) \<Longrightarrow> mgr_step (gh_view G w) (gh_view G w')"
  "Firewall_BlockPortRuleWithActionPriority fw dst proto dport sport a p w = (w', e) \<Longrightarrow>
     mgr_step (gh_view G w) (gh_view G w')"
  "Firewall_BlockPortRule fw dst proto dport sport w = (w', e) \<Longrightarrow>
     mgr_step (gh_view G w) (gh_view G w')"
  by (drule op_effects; auto intro: mgr_step_intros insert_parsed)+

lemma unblock_steps:
  "Firewall_UnblockIP fw s w = (w', e) \<Longrightarrow> mgr_step (gh_view G w) (gh_view G w')"
  "Firewall_UnblockPortRule fw dst proto dport sport w = (w', e) \<Longrightarrow>
     mgr_step (gh_view G w) (gh_view G w')"
  by (drule op_effects; auto intro: mgr_step_intros)+

lemma clear_ops_steps:
  "Firewall_Clear fw w = (w', e) \<Longrightarrow> maps_ok (gh_view G w) \<Longrightarrow> mgr_step (gh_view G w) (gh_view G w')"
  "Firewall_ClearPortRules fw w = (w', e) \<Longrightarrow> mgr_step (gh_view G w) (gh_view G w')"
  "Firewall_ClearConntrack fw w = (w', e) \<Longrightarrow> mgr_step (gh_view G w) (gh_view G w')"
  using Clear_effect [of w w' e] ClearPortRules_effect [of w w' e] ClearConntrack_effect [of w w' e]
  by (auto intro: mgr_step_intros)

lemma policy_step:
  "Firewall_SetDefaultPolicy fw s w = (w', e) \<Longrightarrow> mgr_step (gh_view G w) (gh_view G w')"
  by (drule op_effects) (auto intro: mgr_step.keep policy_parsed)

lemma reap_step:
  "Firewall_ReapConntrack fw idle w = (w', n, e) \<Longrightarrow> mgr_step (gh_view G w) (gh_view G w')"
  by (drule ReapConntrack_effect) (auto intro: mgr_step_intros)

lemmas fw_steps = block_steps unblock_steps clear_ops_steps policy_step reap_step

end

section \<open>The wiring of the facade\<close>

text \<open>What is relied on in the maps the loader returns; the managers \<open>NewFirewall\<close> wires to them
  then have what each of them relies on.\<close>

locale loaded_objs =
  Ip: bpf_map "gh_view G" blocked_ips "\<lambda>c m. m\<lparr>blocked_ips := c\<rparr>" "gh_lpm G" canon_key lpm_fits
    "gh_cur_ip G" "fo_BlockedIps objs" +
  Port: bpf_map "gh_view G" port_policy "\<lambda>c m. m\<lparr>port_policy := c\<rparr>" "\<lambda>c k. c k" "\<lambda>_. True"
    "\<lambda>_. True" "gh_cur_port G" "fo_PortPolicy objs" +
  Cnt: bpf_map "gh_view G" counters "\<lambda>c m. m\<lparr>counters := c\<rparr>" "\<lambda>c k. c k" "\<lambda>_. True" "\<lambda>_. True"
    "gh_cur_idx G" "fo_Counters objs" +
  Cfg: bpf_map "gh_view G" firewall_config "\<lambda>c m. m\<lparr>firewall_config := c\<rparr>" "\<lambda>c k. c k" "\<lambda>_. True"
    "\<lambda>_. True" "gh_cur_idx G" "fo_FirewallConfig objs" +
  Flow: bpf_map "gh_view G" conntrack "\<lambda>c m. m\<lparr>conntrack := c\<rparr>" "\<lambda>c k. c k" "\<lambda>_. True"
    "\<lambda>_. True" "gh_cur_ct G" "fo_Conntrack objs" +
  Pres: presence_map "gh_view G" "gh_cur_idx G" "fo_RulePresence objs"
  for G :: "('w, 'i) fw_ghost" and objs :: "('w, 'i) firewallObjects" +
  assumes lpm_lookup: "longest_prefix (gh_lpm G)"
begin

lemma tables:
  "rule_table (gh_view G) blocked_ips (\<lambda>c m. m\<lparr>blocked_ips := c\<rparr>) (gh_lpm G) canon_key lpm_fits
     (gh_cur_ip G) (fo_BlockedIps objs) (gh_cur_idx G) (fo_RulePresence objs) rulePresenceIP"
  "rule_table (gh_view G) port_policy (\<lambda>c m. m\<lparr>port_policy := c\<rparr>) (\<lambda>c k. c k) (\<lambda>_. True) (\<lambda>_. True)
     (gh_cur_port G) (fo_PortPolicy objs) (gh_cur_idx G) (fo_RulePresence objs) rulePresencePort"
  unfolding rule_table_def rule_table_axioms_def
  using Ip.bpf_map_axioms Port.bpf_map_axioms Pres.presence_map_axioms presence_bits_disjoint by simp_all

lemma wired:
  assumes "x_objs x = objs"
  shows "firewall_env G (wire_firewall clk x)"
  unfolding firewall_env_def blocklist_env_def port_env_def counter_env_def config_env_def
    conntrack_env_def blocklist_env_axioms_def port_env_axioms_def fw_presence_def
  using tables lpm_lookup Cnt.bpf_map_axioms Cfg.bpf_map_axioms Flow.bpf_map_axioms assms
  by (simp add: wire_firewall_def XDPProgram_maps NewMapManager_def MapManager_SetPresence_def
      NewPortPolicyManager_def PortPolicyManager_SetPresence_def NewCounterManager_def
      NewConfigManager_def NewConntrackManager_def Let_def)

end

text \<open>Attaching the program does not change the wiring.\<close>

lemma Start_wiring:
  assumes "Firewall_Start env fw w = (w', fw', e)"
  shows "firewall_env G fw' = firewall_env G fw"
proof -
  have "fw_mgr fw' = fw_mgr fw" "fw_counterMgr fw' = fw_counterMgr fw" "fw_configMgr fw' = fw_configMgr fw"
      "fw_portPolicyMgr fw' = fw_portPolicyMgr fw" "fw_ctMgr fw' = fw_ctMgr fw"
      "x_objs (fw_prog fw') = x_objs (fw_prog fw)"
    using assms
    by (auto simp: Firewall_Start_def XDPProgram_Start_def Let_def split: if_splits prod.splits sum.splits)
  then show ?thesis by (simp add: firewall_env_def fw_presence_def)
qed

end
