(* ===== verification/Server.thy ===== *)
theory Server
  imports FirewallEnv
begin

text \<open>
  \<open>control/server/server.go\<close>: the control server. The \<open>Policy\<close> interface is a record of the
  methods on a world \<open>'w\<close>; \<open>handle\<close> applies one request. The mutex is the atomicity of
  \<open>handle\<close>; the connections around it are in Session, the accept loop and the wait group in
  Lifecycle. The socket calls of \<open>Start\<close> and \<open>Close\<close> are parameters. The locale \<open>policy_contract\<close> is what the server relies on in its policy; the facade
  of \<open>control/ebpf\<close> provides it (the \<open>sublocale\<close> below).
\<close>

section \<open>The Policy interface\<close>

record 'w policy =
  p_BlockIP :: "string \<Rightarrow> 'w \<Rightarrow> 'w \<times> fw_error option"
  p_BlockIPWithAction :: "string \<Rightarrow> string \<Rightarrow> 'w \<Rightarrow> 'w \<times> fw_error option"
  p_BlockIPWithActionPriority :: "string \<Rightarrow> string \<Rightarrow> u32 \<Rightarrow> 'w \<Rightarrow> 'w \<times> fw_error option"
  p_UnblockIP :: "string \<Rightarrow> 'w \<Rightarrow> 'w \<times> fw_error option"
  p_ListBlockedIPs :: "'w \<Rightarrow> fw_error + string slice"
  p_ListBlockedRules :: "'w \<Rightarrow> fw_error + BlockedRule slice"
  p_Clear :: "'w \<Rightarrow> 'w \<times> fw_error option"
  p_Interface :: string
  p_AttachMode :: string
  p_Stats :: "'w \<Rightarrow> fw_error + Stats"
  p_BlockPortRule :: "string \<Rightarrow> string \<Rightarrow> u16 \<Rightarrow> u16 \<Rightarrow> 'w \<Rightarrow> 'w \<times> fw_error option"
  p_BlockPortRuleWithAction ::
    "string \<Rightarrow> string \<Rightarrow> u16 \<Rightarrow> u16 \<Rightarrow> string \<Rightarrow> 'w \<Rightarrow> 'w \<times> fw_error option"
  p_BlockPortRuleWithActionPriority ::
    "string \<Rightarrow> string \<Rightarrow> u16 \<Rightarrow> u16 \<Rightarrow> string \<Rightarrow> u32 \<Rightarrow> 'w \<Rightarrow> 'w \<times> fw_error option"
  p_UnblockPortRule :: "string \<Rightarrow> string \<Rightarrow> u16 \<Rightarrow> u16 \<Rightarrow> 'w \<Rightarrow> 'w \<times> fw_error option"
  p_ListPortRules :: "'w \<Rightarrow> fw_error + PortRule slice"
  p_ClearPortRules :: "'w \<Rightarrow> 'w \<times> fw_error option"
  p_ListConntrack :: "'w \<Rightarrow> fw_error + ConntrackEntry slice"
  p_ClearConntrack :: "'w \<Rightarrow> 'w \<times> fw_error option"
  p_SetDefaultPolicy :: "string \<Rightarrow> 'w \<Rightarrow> 'w \<times> fw_error option"
  p_DefaultPolicy :: "'w \<Rightarrow> fw_error + string"

text \<open>\<open>*ebpf.Firewall\<close> as a \<open>Policy\<close>.\<close>

definition firewall_policy :: "('w, 'i, 'l) Firewall \<Rightarrow> 'w policy" where
  "firewall_policy f =
     \<lparr>p_BlockIP = Firewall_BlockIP f,
      p_BlockIPWithAction = Firewall_BlockIPWithAction f,
      p_BlockIPWithActionPriority = Firewall_BlockIPWithActionPriority f,
      p_UnblockIP = Firewall_UnblockIP f,
      p_ListBlockedIPs = Firewall_ListBlockedIPs f,
      p_ListBlockedRules = Firewall_ListBlockedRules f,
      p_Clear = Firewall_Clear f,
      p_Interface = Firewall_Interface f,
      p_AttachMode = Firewall_AttachMode f,
      p_Stats = Firewall_Stats f,
      p_BlockPortRule = Firewall_BlockPortRule f,
      p_BlockPortRuleWithAction = Firewall_BlockPortRuleWithAction f,
      p_BlockPortRuleWithActionPriority = Firewall_BlockPortRuleWithActionPriority f,
      p_UnblockPortRule = Firewall_UnblockPortRule f,
      p_ListPortRules = Firewall_ListPortRules f,
      p_ClearPortRules = Firewall_ClearPortRules f,
      p_ListConntrack = Firewall_ListConntrack f,
      p_ClearConntrack = Firewall_ClearConntrack f,
      p_SetDefaultPolicy = Firewall_SetDefaultPolicy f,
      p_DefaultPolicy = Firewall_DefaultPolicy f\<rparr>"

section \<open>The server\<close>

record ('w, 'n) Server =
  sv_socketPath :: string
  sv_policy :: "'w policy"
  sv_live :: bool
  sv_ln :: "'n option"

definition New_Server :: "string \<Rightarrow> 'w policy \<Rightarrow> ('w, 'n) Server" where
  "New_Server socketPath policy =
     \<lparr>sv_socketPath = socketPath, sv_policy = policy, sv_live = False, sv_ln = None\<rparr>"

text \<open>The reply to an operation that returns only an error.\<close>

definition reply_unit :: "'w \<times> fw_error option \<Rightarrow> 'w \<times> Response" where
  "reply_unit r =
     (case r of
        (w, Some err) \<Rightarrow> (w, errResponse err)
      | (w, None) \<Rightarrow> (w, okResponse))"

definition handle_block :: "'w policy \<Rightarrow> Request \<Rightarrow> 'w \<Rightarrow> 'w \<times> Response" where
  "handle_block P req w =
     (if rq_Protocol req \<noteq> '''' \<or> rq_Port req \<noteq> 0 \<or> rq_SPort req \<noteq> 0 then
        (if rq_Action req \<noteq> '''' then
           reply_unit (p_BlockPortRuleWithActionPriority P (rq_Value req) (rq_Protocol req)
             (rq_Port req) (rq_SPort req) (rq_Action req) (rq_Priority req) w)
         else
           reply_unit (p_BlockPortRule P (rq_Value req) (rq_Protocol req) (rq_Port req) (rq_SPort req) w))
      else if rq_Action req \<noteq> '''' then
        reply_unit (p_BlockIPWithActionPriority P (rq_Value req) (rq_Action req) (rq_Priority req) w)
      else reply_unit (p_BlockIP P (rq_Value req) w))"

definition handle_unblock :: "'w policy \<Rightarrow> Request \<Rightarrow> 'w \<Rightarrow> 'w \<times> Response" where
  "handle_unblock P req w =
     (if rq_Protocol req \<noteq> '''' \<or> rq_Port req \<noteq> 0 \<or> rq_SPort req \<noteq> 0 then
        reply_unit (p_UnblockPortRule P (rq_Value req) (rq_Protocol req) (rq_Port req) (rq_SPort req) w)
      else reply_unit (p_UnblockIP P (rq_Value req) w))"

definition handle_list :: "'w policy \<Rightarrow> 'w \<Rightarrow> 'w \<times> Response" where
  "handle_list P w =
     (case p_ListBlockedRules P w of
        Inl err \<Rightarrow> (w, errResponse err)
      | Inr rules \<Rightarrow>
          (let blocked = map br_Cidr (slice_list rules) in
           (w, okResponse\<lparr>rs_Blocked := Some blocked, rs_BlockedRules := rules,
                rs_Count := int (length blocked)\<rparr>)))"

definition handle_listports :: "'w policy \<Rightarrow> 'w \<Rightarrow> 'w \<times> Response" where
  "handle_listports P w =
     (case p_ListPortRules P w of
        Inl err \<Rightarrow> (w, errResponse err)
      | Inr rules \<Rightarrow> (w, okResponse\<lparr>rs_PortRules := rules, rs_Count := int (slice_len rules)\<rparr>))"

definition handle_status :: "('w, 'n) Server \<Rightarrow> 'w \<Rightarrow> 'w \<times> Response" where
  "handle_status s w =
     (case p_ListBlockedIPs (sv_policy s) w of
        Inl err \<Rightarrow> (w, errResponse err)
      | Inr blocked \<Rightarrow>
          (case p_DefaultPolicy (sv_policy s) w of
             Inl err \<Rightarrow> (w, errResponse err)
           | Inr def \<Rightarrow>
               (w, okResponse\<lparr>rs_Iface := p_Interface (sv_policy s), rs_Attached := sv_live s,
                  rs_Count := int (slice_len blocked), rs_Default := def,
                  rs_AttachMode := p_AttachMode (sv_policy s)\<rparr>)))"

definition handle_clear :: "'w policy \<Rightarrow> 'w \<Rightarrow> 'w \<times> Response" where
  "handle_clear P w =
     (case p_Clear P w of
        (w1, Some err) \<Rightarrow> (w1, errResponse err)
      | (w1, None) \<Rightarrow>
          (case p_ClearPortRules P w1 of
             (w2, Some err) \<Rightarrow> (w2, errResponse err)
           | (w2, None) \<Rightarrow> reply_unit (p_ClearConntrack P w2)))"

definition handle_conntrack :: "'w policy \<Rightarrow> 'w \<Rightarrow> 'w \<times> Response" where
  "handle_conntrack P w =
     (case p_ListConntrack P w of
        Inl err \<Rightarrow> (w, errResponse err)
      | Inr entries \<Rightarrow> (w, okResponse\<lparr>rs_Conntrack := entries, rs_Count := int (slice_len entries)\<rparr>))"

definition handle_stats :: "'w policy \<Rightarrow> 'w \<Rightarrow> 'w \<times> Response" where
  "handle_stats P w =
     (case p_Stats P w of
        Inl err \<Rightarrow> (w, errResponse err)
      | Inr stats \<Rightarrow> (w, okResponse\<lparr>rs_Stats := Some stats\<rparr>))"

definition Server_handle :: "('w, 'n) Server \<Rightarrow> Request \<Rightarrow> 'w \<Rightarrow> 'w \<times> Response" where
  "Server_handle s req w =
     (let P = sv_policy s; c = rq_Command req in
      if c = CmdBlock then handle_block P req w
      else if c = CmdUnblock then handle_unblock P req w
      else if c = CmdList then handle_list P w
      else if c = CmdListPorts then handle_listports P w
      else if c = CmdStatus then handle_status s w
      else if c = CmdSetDefault \<or> c = CmdDefault then
        reply_unit (p_SetDefaultPolicy P (rq_Value req) w)
      else if c = CmdClear then handle_clear P w
      else if c = CmdConntrack then handle_conntrack P w
      else if c = CmdStats then handle_stats P w
      else (w, errResponse (UnknownCommand c)))"

section \<open>Start and close\<close>

text \<open>The operating system's part: \<open>RemoveNotExist\<close> is the error \<open>os.IsNotExist\<close> accepts.\<close>

datatype remove_result = Removed | RemoveNotExist | RemoveError sys_err

record ('w, 'n) server_env =
  se_Remove :: "string \<Rightarrow> 'w \<Rightarrow> 'w \<times> remove_result"
  se_Listen :: "string \<Rightarrow> 'w \<Rightarrow> 'w \<times> (sys_err + 'n)"
  se_Chmod :: "string \<Rightarrow> nat \<Rightarrow> 'w \<Rightarrow> 'w \<times> sys_err option"
  se_lnClose :: "'n \<Rightarrow> 'w \<Rightarrow> 'w \<times> sys_err option"

definition Server_Start ::
    "('w, 'n) server_env \<Rightarrow> ('w, 'n) Server \<Rightarrow> 'w \<Rightarrow> 'w \<times> ('w, 'n) Server \<times> fw_error option" where
  "Server_Start env s w =
     (case se_Remove env (sv_socketPath s) w of
        (w1, RemoveError err) \<Rightarrow> (w1, s, Some (SocketError ''removing stale socket'' err))
      | (w1, _) \<Rightarrow>
          (case se_Listen env (sv_socketPath s) w1 of
             (w2, Inl err) \<Rightarrow> (w2, s, Some (SocketError ''listening'' err))
           | (w2, Inr ln) \<Rightarrow>
               (case se_Chmod env (sv_socketPath s) 448 w2 of
                  (w3, Some err) \<Rightarrow>
                    (let w4 = fst (se_lnClose env ln w3);
                         w5 = fst (se_Remove env (sv_socketPath s) w4)
                     in (w5, s, Some (SocketError ''setting socket permissions'' err)))
                | (w3, None) \<Rightarrow> (w3, s\<lparr>sv_ln := Some ln, sv_live := True\<rparr>, None))))"

definition Server_Close ::
    "('w, 'n) server_env \<Rightarrow> ('w, 'n) Server \<Rightarrow> 'w \<Rightarrow> 'w \<times> ('w, 'n) Server \<times> fw_error option" where
  "Server_Close env s w =
     (let (w1, err1) = (case sv_ln s of None \<Rightarrow> (w, None) | Some ln \<Rightarrow> se_lnClose env ln w);
          s1 = s\<lparr>sv_live := False\<rparr>;
          firstErr = map_option (SocketError ''close'') err1
      in case se_Remove env (sv_socketPath s) w1 of
           (w2, RemoveError err) \<Rightarrow>
             (w2, s1, if firstErr = None then Some (SocketError ''remove'' err) else firstErr)
         | (w2, _) \<Rightarrow> (w2, s1, firstErr))"

section \<open>What the server promises\<close>

text \<open>A reply is an error exactly when it carries one, and then it carries nothing else.\<close>

definition reply_ok :: "Response \<Rightarrow> bool" where
  "reply_ok r \<longleftrightarrow> (if rs_OK r then rs_Error r = None else (\<exists>e. r = errResponse e))"

lemma errResponse_simps [simp]:
  "rs_OK (errResponse e) = False" "rs_Error (errResponse e) = Some e" "rs_OK okResponse"
  "rs_Error okResponse = None" "reply_ok (errResponse e)" "reply_ok okResponse"
  by (auto simp: errResponse_def okResponse_def reply_ok_def)

lemmas handler_defs = handle_block_def handle_unblock_def handle_list_def handle_listports_def
  handle_status_def handle_clear_def handle_conntrack_def handle_stats_def reply_unit_def

lemma reply_unit_reply: "reply_ok (snd (reply_unit x))"
  by (auto simp: reply_unit_def split: prod.splits option.splits)

lemma reply_ok_okay: "rs_OK r \<Longrightarrow> rs_Error r = None \<Longrightarrow> reply_ok r"
  by (simp add: reply_ok_def)

lemma handler_replies:
  "reply_ok (snd (handle_block P req w))" "reply_ok (snd (handle_unblock P req w))"
  "reply_ok (snd (handle_list P w))" "reply_ok (snd (handle_listports P w))"
  "reply_ok (snd (handle_status s w))" "reply_ok (snd (handle_conntrack P w))"
  "reply_ok (snd (handle_stats P w))"
  by (simp_all add: handle_block_def handle_unblock_def handle_list_def handle_listports_def
      handle_status_def handle_conntrack_def handle_stats_def reply_unit_reply Let_def
      reply_ok_okay split: sum.splits)

lemma handle_clear_reply: "reply_ok (snd (handle_clear P w))"
  by (simp add: handle_clear_def reply_unit_reply split: prod.splits option.splits)

lemma Server_handle_reply: "reply_ok (snd (Server_handle s req w))"
  unfolding Server_handle_def Let_def
  by (simp add: handler_replies handle_clear_reply reply_unit_reply)

text \<open>The commands that only read leave the world as it is.\<close>

definition read_commands :: "string set" where
  "read_commands = {CmdList, CmdListPorts, CmdStatus, CmdConntrack, CmdStats}"

definition write_commands :: "string set" where
  "write_commands = {CmdBlock, CmdUnblock, CmdSetDefault, CmdDefault, CmdClear}"

lemma cmd_distinct: "read_commands \<inter> write_commands = {}"
  by (auto simp: read_commands_def write_commands_def cmd_defs)

lemma read_handlers:
  "fst (handle_list P w) = w" "fst (handle_listports P w) = w" "fst (handle_status s w) = w"
  "fst (handle_conntrack P w) = w" "fst (handle_stats P w) = w"
  by (simp_all add: handle_list_def handle_listports_def handle_status_def handle_conntrack_def
      handle_stats_def Let_def split: sum.splits)

lemma Server_handle_reads:
  assumes "rq_Command req \<notin> write_commands"
  shows "fst (Server_handle s req w) = w"
  using assms by (simp add: Server_handle_def Let_def write_commands_def read_handlers)

lemma reply_unit_world: "reply_unit x = (w', r) \<Longrightarrow> \<exists>e. x = (w', e)"
  by (auto simp: reply_unit_def split: prod.splits option.splits)

lemma reply_unit_OK: "reply_unit x = (w', r) \<Longrightarrow> rs_OK r \<Longrightarrow> x = (w', None)"
  by (auto simp: reply_unit_def split: prod.splits option.splits)

lemma Server_handle_writes:
  assumes "rq_Command req \<in> write_commands"
  shows "Server_handle s req w =
    (if rq_Command req = CmdBlock then handle_block (sv_policy s) req w
     else if rq_Command req = CmdUnblock then handle_unblock (sv_policy s) req w
     else if rq_Command req = CmdClear then handle_clear (sv_policy s) w
     else reply_unit (p_SetDefaultPolicy (sv_policy s) (rq_Value req) w))"
  using assms by (auto simp: Server_handle_def Let_def write_commands_def cmd_defs)

locale policy_contract =
  fixes P :: "'w policy" and view :: "'w \<Rightarrow> fw_maps"
  assumes BlockIP: "p_BlockIP P s w = (w', e) \<Longrightarrow> mgr_step (view w) (view w')"
    and BlockIPAction:
      "p_BlockIPWithActionPriority P s a p w = (w', e) \<Longrightarrow> mgr_step (view w) (view w')"
    and UnblockIP: "p_UnblockIP P s w = (w', e) \<Longrightarrow> mgr_step (view w) (view w')"
    and BlockPortRule: "p_BlockPortRule P s pr d sp w = (w', e) \<Longrightarrow> mgr_step (view w) (view w')"
    and BlockPortRuleAction: "p_BlockPortRuleWithActionPriority P s pr d sp a p w = (w', e) \<Longrightarrow>
      mgr_step (view w) (view w')"
    and UnblockPortRule: "p_UnblockPortRule P s pr d sp w = (w', e) \<Longrightarrow> mgr_step (view w) (view w')"
    and SetDefaultPolicy: "p_SetDefaultPolicy P s w = (w', e) \<Longrightarrow> mgr_step (view w) (view w')"
    and Clear: "p_Clear P w = (w', e) \<Longrightarrow> maps_ok (view w) \<Longrightarrow> mgr_step (view w) (view w') \<and>
      (e = None \<longrightarrow> view w' = sync_ip ((view w)\<lparr>blocked_ips := Map.empty\<rparr>))"
    and ClearPortRules: "p_ClearPortRules P w = (w', e) \<Longrightarrow> mgr_step (view w) (view w') \<and>
      (e = None \<longrightarrow> view w' = sync_port ((view w)\<lparr>port_policy := Map.empty\<rparr>))"
    and ClearConntrack: "p_ClearConntrack P w = (w', e) \<Longrightarrow> mgr_step (view w) (view w') \<and>
      (e = None \<longrightarrow> view w' = (view w)\<lparr>conntrack := Map.empty\<rparr>)"
begin

lemma unit_step:
  assumes "reply_unit x = (w', r)" "\<And>e. x = (w', e) \<Longrightarrow> mgr_step m (view w')"
  shows "mgr_step m (view w')"
  using reply_unit_world [OF assms(1)] assms(2) by blast

lemma handle_block_steps: "handle_block P req w = (w', r) \<Longrightarrow> mgr_step (view w) (view w')"
  unfolding handle_block_def
  by (simp split: if_split_asm)
    (erule unit_step, erule BlockPortRuleAction BlockPortRule BlockIPAction BlockIP)+

lemma handle_unblock_steps: "handle_unblock P req w = (w', r) \<Longrightarrow> mgr_step (view w) (view w')"
  unfolding handle_unblock_def
  by (simp split: if_split_asm) (erule unit_step, erule UnblockPortRule UnblockIP)+

lemma handle_clear_steps:
  assumes "handle_clear P w = (w', r)" "maps_ok (view w)"
  shows "mgr_step\<^sup>*\<^sup>* (view w) (view w') \<and>
    (rs_OK r \<longrightarrow> blocked_ips (view w') = Map.empty \<and> port_policy (view w') = Map.empty \<and>
       conntrack (view w') = Map.empty)"
proof -
  obtain w1 e1 where c1: "p_Clear P w = (w1, e1)" by fastforce
  note s1 = Clear [OF c1 assms(2)]
  obtain w2 e2 where c2: "p_ClearPortRules P w1 = (w2, e2)" by fastforce
  note s2 = ClearPortRules [OF c2]
  obtain w3 e3 where c3: "p_ClearConntrack P w2 = (w3, e3)" by fastforce
  note s3 = ClearConntrack [OF c3]
  show ?thesis
    using assms(1) c1 c2 c3 s1 s2 s3
    by (cases e1; cases e2; cases e3)
      (auto simp: handle_clear_def reply_unit_def intro: rtranclp.rtrancl_into_rtrancl)
qed

lemma handle_steps:
  assumes "Server_handle s req w = (w', r)" "sv_policy s = P" "maps_ok (view w)"
  shows "mgr_step\<^sup>*\<^sup>* (view w) (view w')"
proof (cases "rq_Command req \<in> write_commands")
  case False
  with Server_handle_reads [of req s w] assms(1) show ?thesis by simp
next
  case True
  let ?c = "rq_Command req"
  note h = assms(1) [unfolded Server_handle_writes [OF True] assms(2)]
  consider "?c = CmdBlock" | "?c \<noteq> CmdBlock" "?c = CmdUnblock"
    | "?c \<noteq> CmdBlock" "?c \<noteq> CmdUnblock" "?c = CmdClear"
    | "?c \<noteq> CmdBlock" "?c \<noteq> CmdUnblock" "?c \<noteq> CmdClear" by blast
  then show ?thesis
  proof cases
    case 1
    with h show ?thesis by (auto intro: handle_block_steps)
  next
    case 2
    with h show ?thesis by (auto intro: handle_unblock_steps)
  next
    case 3
    with h show ?thesis using handle_clear_steps [of w w' r] assms(3) by simp
  next
    case 4
    with h have "reply_unit (p_SetDefaultPolicy P (rq_Value req) w) = (w', r)" by simp
    then have "mgr_step (view w) (view w')" by (rule unit_step) (rule SetDefaultPolicy)
    then show ?thesis by blast
  qed
qed

end

section \<open>The firewall provides the contract\<close>

lemma firewall_policy_simps [simp]:
  "p_BlockIP (firewall_policy f) = Firewall_BlockIP f"
  "p_BlockIPWithActionPriority (firewall_policy f) = Firewall_BlockIPWithActionPriority f"
  "p_UnblockIP (firewall_policy f) = Firewall_UnblockIP f"
  "p_ListBlockedIPs (firewall_policy f) = Firewall_ListBlockedIPs f"
  "p_ListBlockedRules (firewall_policy f) = Firewall_ListBlockedRules f"
  "p_Clear (firewall_policy f) = Firewall_Clear f"
  "p_Stats (firewall_policy f) = Firewall_Stats f"
  "p_BlockPortRule (firewall_policy f) = Firewall_BlockPortRule f"
  "p_BlockPortRuleWithActionPriority (firewall_policy f) = Firewall_BlockPortRuleWithActionPriority f"
  "p_UnblockPortRule (firewall_policy f) = Firewall_UnblockPortRule f"
  "p_ListPortRules (firewall_policy f) = Firewall_ListPortRules f"
  "p_ClearPortRules (firewall_policy f) = Firewall_ClearPortRules f"
  "p_ListConntrack (firewall_policy f) = Firewall_ListConntrack f"
  "p_ClearConntrack (firewall_policy f) = Firewall_ClearConntrack f"
  "p_SetDefaultPolicy (firewall_policy f) = Firewall_SetDefaultPolicy f"
  "p_DefaultPolicy (firewall_policy f) = Firewall_DefaultPolicy f"
  "p_Interface (firewall_policy f) = Firewall_Interface f"
  "p_AttachMode (firewall_policy f) = Firewall_AttachMode f"
  by (simp_all add: firewall_policy_def)

sublocale firewall_env \<subseteq> pol: policy_contract "firewall_policy fw" "gh_view G"
proof
  fix w w' e
  assume "p_Clear (firewall_policy fw) w = (w', e)" "maps_ok (gh_view G w)"
  then show "mgr_step (gh_view G w) (gh_view G w') \<and>
      (e = None \<longrightarrow> gh_view G w' = sync_ip ((gh_view G w)\<lparr>blocked_ips := Map.empty\<rparr>))"
    using Clear_effect [of w w' e] clear_ops_steps(1) [of w w' e] by auto
next
  fix w w' e
  assume "p_ClearPortRules (firewall_policy fw) w = (w', e)"
  then show "mgr_step (gh_view G w) (gh_view G w') \<and>
      (e = None \<longrightarrow> gh_view G w' = sync_port ((gh_view G w)\<lparr>port_policy := Map.empty\<rparr>))"
    using ClearPortRules_effect [of w w' e] clear_ops_steps(2) [of w w' e] by auto
next
  fix w w' e
  assume "p_ClearConntrack (firewall_policy fw) w = (w', e)"
  then show "mgr_step (gh_view G w) (gh_view G w') \<and>
      (e = None \<longrightarrow> gh_view G w' = (gh_view G w)\<lparr>conntrack := Map.empty\<rparr>)"
    using ClearConntrack_effect [of w w' e] clear_ops_steps(3) [of w w' e] by auto
qed (simp_all add: fw_steps)

end
