(* ===== verification/Daemon.thy ===== *)
theory Daemon
  imports Server
begin

text \<open>
  \<open>cmd/firewall/main.go\<close>: the daemon. Its start sequence with every fatal exit, the block list
  of the command line, the conntrack reaper's interval and tick, and the shutdown in the order of
  the deferred calls. Flag parsing, logging and signals are not modelled, but for the log of the block
  list, kept as the list of its outcomes, and the condition of the warning about the HTTP address. \<open>log.Fatalf\<close> ends the process, so no deferred call
  runs after it.
\<close>

section \<open>The block list\<close>

text \<open>The loop over the trimmed, non-empty elements: the world after it and what it logged.\<close>

fun block_loop ::
    "('w, 'i, 'l) Firewall \<Rightarrow> string list \<Rightarrow> 'w \<Rightarrow> 'w \<times> (string \<times> fw_error option) list" where
  "block_loop fw [] w = (w, [])"
| "block_loop fw (s # ss) w =
     (let ipStr = TrimSpace s in
      if ipStr = '''' then block_loop fw ss w
      else
        (case Firewall_BlockIP fw ipStr w of
           (w1, err) \<Rightarrow>
             (case block_loop fw ss w1 of (w2, logs) \<Rightarrow> (w2, (ipStr, err) # logs))))"

definition populate ::
    "('w, 'i, 'l) Firewall \<Rightarrow> string \<Rightarrow> 'w \<Rightarrow> 'w \<times> (string \<times> fw_error option) list" where
  "populate fw blockList w =
     (if blockList \<noteq> '''' then block_loop fw (split_on (CHR '','') blockList) w else (w, []))"

section \<open>The reaper\<close>

definition Second :: u64 where "Second = 1000000000"

text \<open>\<open>ctTimeout / 2\<close>, at least a second; the division is of a positive duration.\<close>

definition reaper_interval :: "u64 \<Rightarrow> u64 option" where
  "reaper_interval ctTimeout =
     (if 0 < sint ctTimeout then
        (let interval = ctTimeout div 2 in Some (if interval < Second then Second else interval))
      else None)"

definition reaper_tick ::
    "('w, 'i, 'l) Firewall \<Rightarrow> u64 \<Rightarrow> 'w \<Rightarrow> 'w \<times> (fw_error + nat)" where
  "reaper_tick fw ctTimeout w =
     (case Firewall_ReapConntrack fw ctTimeout w of
        (w', n, Some err) \<Rightarrow> (w', Inl err)
      | (w', n, None) \<Rightarrow> (w', Inr n))"

section \<open>Start and stop\<close>

record daemon_flags =
  df_ifname :: string
  df_blockList :: string
  df_sockPath :: string
  df_ctTimeout :: u64
  df_httpAddr :: string

record ('w, 'i, 'l, 'n) daemon =
  dm_fw :: "('w, 'i, 'l) Firewall"
  dm_srv :: "('w, 'n) Server"
  dm_reaper :: "u64 option"
  dm_http :: "string option"

definition daemon_start ::
    "('w \<Rightarrow> 'w \<times> sys_err option) \<Rightarrow> ('w, 'i, 'l) xdp_env \<Rightarrow> ('w, 'n) server_env \<Rightarrow> daemon_flags
      \<Rightarrow> 'w \<Rightarrow> 'w \<times> (fw_error + ('w, 'i, 'l, 'n) daemon)" where
  "daemon_start RemoveMemlock xenv senv flags w =
     (case RemoveMemlock w of
        (w1, Some err) \<Rightarrow> (w1, Inl (SysError err))
      | (w1, None) \<Rightarrow>
          (case NewFirewall xenv (df_ifname flags) w1 of
             (w2, Inl err) \<Rightarrow> (w2, Inl err)
           | (w2, Inr fw) \<Rightarrow>
               (case Firewall_Start xenv fw w2 of
                  (w3, fw1, Some err) \<Rightarrow> (fst (Firewall_Stop xenv fw1 w3), Inl err)
                | (w3, fw1, None) \<Rightarrow>
                    (let w4 = fst (populate fw1 (df_blockList flags) w3) in
                     case Server_Start senv (New_Server (df_sockPath flags) (firewall_policy fw1)) w4 of
                       (w5, srv, Some err) \<Rightarrow> (w5, Inl err)
                     | (w5, srv, None) \<Rightarrow>
                         (w5, Inr \<lparr>dm_fw = fw1, dm_srv = srv,
                            dm_reaper = reaper_interval (df_ctTimeout flags),
                            dm_http = (if df_httpAddr flags \<noteq> '''' \<and> df_httpAddr flags \<noteq> ''0''
                              then Some (df_httpAddr flags) else None)\<rparr>)))))"

text \<open>The warning about an HTTP address that is not on the loopback interface.\<close>

definition http_exposed :: "string \<Rightarrow> bool" where
  "http_exposed httpAddr =
     (case SplitHostPort httpAddr of
        Some (host, _) \<Rightarrow> host = '''' \<or> host = ''0.0.0.0'' \<or> host = ''::''
      | None \<Rightarrow> False)"

text \<open>The deferred calls, last one first: the server closes, the firewall stops, and only then the HTTP server,
  whose shutdown was deferred before them, is shut down.\<close>

definition daemon_stop ::
    "('w, 'i, 'l) xdp_env \<Rightarrow> ('w, 'n) server_env \<Rightarrow> (string \<Rightarrow> 'w \<Rightarrow> 'w \<times> sys_err option) \<Rightarrow> ('w, 'i, 'l, 'n) daemon
      \<Rightarrow> 'w \<Rightarrow> 'w \<times> ('w, 'i, 'l, 'n) daemon" where
  "daemon_stop xenv senv Shutdown d w =
     (let (w1, srv, _) = Server_Close senv (dm_srv d) w;
          (w2, fw, _) = Firewall_Stop xenv (dm_fw d) w1;
          w3 = (case dm_http d of None \<Rightarrow> w2 | Some httpAddr \<Rightarrow> fst (Shutdown httpAddr w2))
      in (w3, d\<lparr>dm_fw := fw, dm_srv := srv\<rparr>))"

section \<open>Lemmas\<close>

lemma half_signed: "0 < sint (c :: u64) \<Longrightarrow> unat (c div 2) = unat c div 2"
  by (simp add: unat_div)

text \<open>The interval is at least a second and, from two seconds of timeout on, at most half of it.\<close>

lemma reaper_interval_bounds:
  assumes "reaper_interval c = Some i"
  shows "Second \<le> i" "2 * Second \<le> c \<Longrightarrow> unat i * 2 \<le> unat c" "unat i * 2 \<le> unat c \<Longrightarrow> 2 * Second \<le> c"
  using assms
  by (auto simp: reaper_interval_def Let_def Second_def word_le_nat_alt word_less_nat_alt unat_div
      split: if_splits)

text \<open>What the block list is asked to block: its trimmed, non-empty elements, in order.\<close>

lemma block_loop_logs:
  "map fst (snd (block_loop fw ss w)) = filter (\<lambda>s. s \<noteq> []) (map TrimSpace ss)"
proof (induction ss arbitrary: w)
  case (Cons s ss)
  obtain w1 e where "Firewall_BlockIP fw (TrimSpace s) w = (w1, e)" by fastforce
  with Cons.IH [of w] Cons.IH [of w1] show ?case
    by (cases "block_loop fw ss w1") (simp add: Let_def)
qed simp

context firewall_env
begin

lemma block_loop_effect:
  assumes "block_loop fw ss w = (w', logs)"
  shows "mgr_step\<^sup>*\<^sup>* (gh_view G w) (gh_view G w') \<and>
    (\<forall>k. blocked_ips (gh_view G w') k =
      (if \<exists>s. (s, None) \<in> set logs \<and> rule_key s = Inr k
       then Some \<lparr>rv_Action = ActionDrop, rv_Priority = 0\<rparr> else blocked_ips (gh_view G w) k)) \<and>
    (\<forall>s. (s, None) \<in> set logs \<longrightarrow> (\<exists>k. rule_key s = Inr k \<and> canon_key k))"
  using assms
proof (induction ss arbitrary: w logs)
  case (Cons s ss)
  show ?case
  proof (cases "TrimSpace s = []")
    case True
    with Cons show ?thesis by (simp add: Let_def)
  next
    case False
    obtain w1 e1 where b: "Firewall_BlockIP fw (TrimSpace s) w = (w1, e1)" by fastforce
    obtain l1 where r: "block_loop fw ss w1 = (w', l1)" and l: "logs = (TrimSpace s, e1) # l1"
      using Cons.prems False b by (auto simp: Let_def split: prod.splits)
    note IH = Cons.IH [OF r] and st = block_steps(2) [OF b]
    have m: "mgr_step\<^sup>*\<^sup>* (gh_view G w) (gh_view G w')"
      using IH st converse_rtranclp_into_rtranclp [of mgr_step] by blast
    from BlockIP_effect [OF b] show ?thesis
    proof
      assume "e1 = None \<and> (\<exists>k. rule_key (TrimSpace s) = Inr k \<and> canon_key k \<and>
        gh_view G w1 = ip_inserted k \<lparr>rv_Action = ActionDrop, rv_Priority = 0\<rparr> (gh_view G w))"
      with IH m l show ?thesis by (auto simp: ip_inserted_def)
    next
      assume "e1 \<noteq> None \<and> gh_view G w1 \<in> {gh_view G w, advertise rulePresenceIP (gh_view G w)}"
      with IH m l show ?thesis by auto
    qed
  qed
qed simp

end

section \<open>The state after a successful start\<close>

text \<open>What the start sequence relies on: the loader returns maps that keep the library's laws and are
  fresh; attaching the program and the calls on the socket leave the maps alone.\<close>

locale boot_env =
  fixes G :: "('w, 'i) fw_ghost"
    and xenv :: "('w, 'i, 'l) xdp_env"
    and senv :: "('w, 'n) server_env"
  assumes load: "loadFirewallObjects (xe_collection xenv) w = (w', Inr objs) \<Longrightarrow>
      loaded_objs G objs \<and> gh_view G w' = fresh_maps"
    and attach: "gh_view G (fst (xe_AttachXDP xenv p i mode w)) = gh_view G w"
    and remove: "gh_view G (fst (se_Remove senv path w)) = gh_view G w"
    and listen: "gh_view G (fst (se_Listen senv path w)) = gh_view G w"
    and chmod: "gh_view G (fst (se_Chmod senv path md w)) = gh_view G w"
begin

lemma attach_view: "gh_view G (fst (XDPProgram_attach xenv x mode w)) = gh_view G w"
proof -
  obtain w1 r where a: "xe_AttachXDP xenv (x_prog x) (x_ifaceIndex x) mode w = (w1, r)" by fastforce
  with attach [of "x_prog x" "x_ifaceIndex x" mode w] show ?thesis
    by (cases r) (simp_all add: XDPProgram_attach_def)
qed

lemma Start_view:
  assumes "XDPProgram_Start xenv x w = (w', x', None)"
  shows "gh_view G w' = gh_view G w \<and> xdp_attached x'"
  using assms attach_view [of x XDPDriverMode w]
    attach_view [of x XDPGenericMode "fst (XDPProgram_attach xenv x XDPDriverMode w)"]
  by (auto simp: XDPProgram_Start_def xdp_attached_def Let_def split: if_splits prod.splits sum.splits)

lemma Server_Start_view:
  assumes "Server_Start senv s w = (w', s', None)"
  shows "gh_view G w' = gh_view G w \<and> sv_policy s' = sv_policy s \<and> sv_live s'"
proof -
  obtain w1 rr w2 lr w3 cr where s: "se_Remove senv (sv_socketPath s) w = (w1, rr)"
      "se_Listen senv (sv_socketPath s) w1 = (w2, lr)" "se_Chmod senv (sv_socketPath s) 448 w2 = (w3, cr)"
    by fastforce
  from remove [of "sv_socketPath s" w] listen [of "sv_socketPath s" w1] chmod [of "sv_socketPath s" 448 w2]
  have "gh_view G w3 = gh_view G w" by (simp add: s)
  with assms s show ?thesis
    by (auto simp: Server_Start_def Let_def split: remove_result.splits sum.splits option.splits)
qed

lemma NewFirewall_view:
  assumes "NewFirewall xenv i w = (w', Inr fw)"
  shows "firewall_env G fw \<and> gh_view G w' = fresh_maps"
proof -
  from assms obtain x where l: "LoadXDP xenv i w = (w', Inr x)" "fw = wire_firewall (xe_ClockGettime xenv) x"
    by (auto simp: NewFirewall_def split: prod.splits sum.splits)
  from LoadXDP_ok [OF l(1)] have "loadFirewallObjects (xe_collection xenv) w = (w', Inr (x_objs x))" by simp
  with load have "loaded_objs G (x_objs x) \<and> gh_view G w' = fresh_maps" by blast
  with l(2) loaded_objs.wired show ?thesis by blast
qed

lemma started:
  assumes "daemon_start rm xenv senv flags w = (w', Inr d)"
  shows "firewall_env G (dm_fw d) \<and> xdp_attached (fw_prog (dm_fw d)) \<and>
    sv_policy (dm_srv d) = firewall_policy (dm_fw d) \<and> sv_live (dm_srv d) \<and>
    mgr_step\<^sup>*\<^sup>* fresh_maps (gh_view G w')"
proof -
  from assms obtain w1 w2 fw w3 fw1 w5 srv where
      n: "NewFirewall xenv (df_ifname flags) w1 = (w2, Inr fw)"
    and f: "Firewall_Start xenv fw w2 = (w3, fw1, None)"
    and s: "Server_Start senv (New_Server (df_sockPath flags) (firewall_policy fw1))
        (fst (populate fw1 (df_blockList flags) w3)) = (w5, srv, None)"
    and d: "w' = w5" "dm_fw d = fw1" "dm_srv d = srv"
    by (auto simp: daemon_start_def Let_def split: prod.splits option.splits sum.splits)
  note nv = NewFirewall_view [OF n]
  with f have env: "firewall_env G fw1" by (simp add: Start_wiring)
  from f Start_view [of "fw_prog fw" w2 w3] have v3: "gh_view G w3 = fresh_maps" "xdp_attached (fw_prog fw1)"
    using nv by (auto simp: Firewall_Start_def split: prod.splits)
  obtain w4 logs where p: "populate fw1 (df_blockList flags) w3 = (w4, logs)" by fastforce
  have "mgr_step\<^sup>*\<^sup>* (gh_view G w3) (gh_view G w4)"
    using p firewall_env.block_loop_effect [OF env, of _ w3 w4 logs]
    by (auto simp: populate_def split: if_splits)
  with Server_Start_view [OF s] v3 env d show ?thesis
    by (simp add: p New_Server_def)
qed

end

end
