(* ===== verification/KernelRef.thy ===== *)
theory KernelRef
  imports Daemon "HOL-Library.AList"
begin

text \<open>
  A reference kernel: executable maps with the documented behaviour of bpf(2) and of the cilium
  library's handles, on which every locale of the development is interpreted for the firewall
  the code wires, and on which the witnesses are evaluated. Hash maps are association lists with
  a capacity, array maps have every index, the LPM trie masks the host bits of a key and looks a
  key up from the longest prefix down, an iterator remembers the key it yielded last and restarts
  when that key is gone.
\<close>

section \<open>Iterators\<close>

datatype ref_iter =
    ItStart
  | ItIp nat firewallIpv4LpmKey
  | ItPort nat firewallPortRuleKey
  | ItCt nat ctKey
  | ItIdx nat u32

fun it_count :: "ref_iter \<Rightarrow> nat" where
  "it_count ItStart = 0"
| "it_count (ItIp n k) = n"
| "it_count (ItPort n k) = n"
| "it_count (ItCt n k) = n"
| "it_count (ItIdx n k) = n"

fun it_ip :: "ref_iter \<Rightarrow> firewallIpv4LpmKey option" where
  "it_ip (ItIp n k) = Some k" | "it_ip it = None"

fun it_port :: "ref_iter \<Rightarrow> firewallPortRuleKey option" where
  "it_port (ItPort n k) = Some k" | "it_port it = None"

fun it_ct :: "ref_iter \<Rightarrow> ctKey option" where
  "it_ct (ItCt n k) = Some k" | "it_ct it = None"

fun it_idx :: "ref_iter \<Rightarrow> u32 option" where
  "it_idx (ItIdx n k) = Some k" | "it_idx it = None"

definition first_entry :: "'a list \<Rightarrow> 'a option" where
  "first_entry es = (case es of [] \<Rightarrow> None | e # _ \<Rightarrow> Some e)"

fun entry_after :: "'k option \<Rightarrow> ('k \<times> 'v) list \<Rightarrow> ('k \<times> 'v) option" where
  "entry_after None es = first_entry es"
| "entry_after (Some k) es =
     (case dropWhile (\<lambda>e. fst e \<noteq> k) es of [] \<Rightarrow> first_entry es | _ # rest \<Rightarrow> first_entry rest)"

definition ref_next ::
    "nat \<Rightarrow> ('w \<Rightarrow> ('k \<times> 'v) list) \<Rightarrow> (ref_iter \<Rightarrow> 'k option) \<Rightarrow> (nat \<Rightarrow> 'k \<Rightarrow> ref_iter)
      \<Rightarrow> 'w \<Rightarrow> ref_iter \<Rightarrow> (ref_iter, 'k, 'v) next_result" where
  "ref_next mx ents cur mk w it =
     (if mx < it_count it then Done (Some ErrIterationAborted)
      else
        (case entry_after (cur it) (ents w) of
           None \<Rightarrow> Done None
         | Some (k, v) \<Rightarrow> Yield k v (mk (Suc (it_count it)) k)))"

lemma entry_after_mem: "entry_after c es = Some e \<Longrightarrow> e \<in> set es"
  by (cases c) (auto simp: first_entry_def split: list.splits dest: set_dropWhileD
      intro: set_dropWhileD [where P = "\<lambda>e. fst e \<noteq> the c"])

lemma entry_after_None:
  "entry_after c es = None \<Longrightarrow> (\<And>k. c = Some k \<Longrightarrow> map_of es k = None) \<Longrightarrow> es = []"
proof (cases c)
  case (Some k)
  assume "entry_after c es = None" "\<And>k. c = Some k \<Longrightarrow> map_of es k = None"
  then have "k \<notin> fst ` set es" "entry_after (Some k) es = None"
    using Some by (auto simp: map_of_eq_None_iff)
  moreover from this have "dropWhile (\<lambda>e. fst e \<noteq> k) es = []" by (auto simp: dropWhile_eq_Nil_conv)
  ultimately show ?thesis by (auto simp: first_entry_def split: list.splits)
qed (auto simp: first_entry_def split: list.splits)

lemma entry_after_next:
  "distinct (map fst es) \<Longrightarrow> es = xs @ (k, v) # ys \<Longrightarrow> entry_after (Some k) es = first_entry ys"
proof -
  assume d: "distinct (map fst es)" and es: "es = xs @ (k, v) # ys"
  then have "\<forall>e \<in> set xs. fst e \<noteq> k" by force
  then have "dropWhile (\<lambda>e. fst e \<noteq> k) es = (k, v) # ys"
    unfolding es by (rule dropWhile_append_stop) simp
  then show ?thesis by simp
qed

definition cursor_at :: "(ref_iter \<Rightarrow> 'k option) \<Rightarrow> ('k \<times> 'v) list \<Rightarrow> ref_iter \<Rightarrow> bool" where
  "cursor_at cur xs it \<longleftrightarrow> it_count it = length xs \<and>
     cur it = (if xs = [] then None else Some (fst (last xs)))"

lemma ref_iter_list:
  assumes mk: "\<And>n k. cur (mk n k) = Some k \<and> it_count (mk n k) = n"
    and M: "m_next M = ref_next mx ents cur mk"
    and d: "distinct (map fst (ents w))"
  shows "ents w = xs @ ys \<Longrightarrow> cursor_at cur xs it \<Longrightarrow> iter_list M n w it = (es, None) \<Longrightarrow> es = ys"
proof (induction n arbitrary: xs ys it es)
  case (Suc n)
  have c: "entry_after (cur it) (ents w) = first_entry ys"
  proof (cases xs rule: rev_cases)
    case Nil
    with Suc.prems show ?thesis by (simp add: cursor_at_def)
  next
    case (snoc us u)
    with Suc.prems have "cur it = Some (fst u)" "ents w = us @ (fst u, snd u) # ys"
      by (simp_all add: cursor_at_def)
    with d show ?thesis using entry_after_next by metis
  qed
  show ?case
  proof (cases ys)
    case Nil
    with c Suc.prems(3) show ?thesis
      by (simp add: M ref_next_def first_entry_def split: if_splits)
  next
    case (Cons y zs)
    obtain k v where y: "y = (k, v)" by fastforce
    with c Cons Suc.prems(3) obtain es' where
        r: "iter_list M n w (mk (Suc (it_count it)) k) = (es', None)" and es: "es = (k, v) # es'"
      by (auto simp: M ref_next_def first_entry_def split: if_splits prod.splits)
    have "cursor_at cur (xs @ [y]) (mk (Suc (it_count it)) k)"
      using Suc.prems(2) mk y by (simp add: cursor_at_def)
    with Suc.IH [of "xs @ [y]" zs] Suc.prems(1) Cons r es y show ?thesis by simp
  qed
qed simp

section \<open>Maps\<close>

definition ref_lookup :: "('k \<times> 'v) list \<Rightarrow> 'k \<Rightarrow> map_err + 'v" where
  "ref_lookup xs k = (case map_of xs k of None \<Rightarrow> Inl ErrKeyNotExist | Some v \<Rightarrow> Inr v)"

text \<open>A hash map of \<open>mx\<close> entries kept in the component \<open>g\<close>/\<open>s\<close> of the world.\<close>

definition hash_handle ::
    "nat \<Rightarrow> ('w \<Rightarrow> ('k \<times> 'v) list) \<Rightarrow> (('k \<times> 'v) list \<Rightarrow> 'w \<Rightarrow> 'w) \<Rightarrow> (ref_iter \<Rightarrow> 'k option)
      \<Rightarrow> (nat \<Rightarrow> 'k \<Rightarrow> ref_iter) \<Rightarrow> ('w, ref_iter, 'k, 'v) bpf_handle" where
  "hash_handle mx g s cur mk =
     \<lparr>m_max_entries = mx,
      m_lookup = (\<lambda>w k. ref_lookup (g w) k),
      m_put = (\<lambda>w k v.
        if map_of (g w) k \<noteq> None \<or> length (AList.clearjunk (g w)) < mx
        then (s (AList.update k v (g w)) w, None) else (w, Some (Errno 7))),
      m_delete = (\<lambda>w k.
        if map_of (g w) k \<noteq> None then (s (AList.delete k (g w)) w, None)
        else (w, Some ErrKeyNotExist)),
      m_iterate = (\<lambda>w. ItStart),
      m_next = ref_next mx (\<lambda>w. AList.clearjunk (g w)) cur mk,
      m_close = (\<lambda>w. (w, None))\<rparr>"

text \<open>The LPM trie: a key longer than 32 bits is rejected, the host bits of the others ignored.\<close>

fun lpm_search :: "(firewallIpv4LpmKey \<rightharpoonup> ruleValue) \<Rightarrow> u32 \<Rightarrow> nat \<Rightarrow> ruleValue option" where
  "lpm_search c q 0 = c (lpm_key 0 q)"
| "lpm_search c q (Suc n) =
     (case c (lpm_key (Suc n) q) of Some v \<Rightarrow> Some v | None \<Rightarrow> lpm_search c q n)"

definition lpm_ref :: "(firewallIpv4LpmKey \<rightharpoonup> ruleValue) \<Rightarrow> firewallIpv4LpmKey \<Rightarrow> ruleValue option" where
  "lpm_ref c k = lpm_search c (lk_Data k) (min 32 (unat (lk_Prefixlen k)))"

definition lpm_norm :: "firewallIpv4LpmKey \<Rightarrow> firewallIpv4LpmKey" where
  "lpm_norm k = lpm_key (unat (lk_Prefixlen k)) (lk_Data k)"

definition lpm_handle ::
    "nat \<Rightarrow> ('w \<Rightarrow> (firewallIpv4LpmKey \<times> ruleValue) list)
      \<Rightarrow> ((firewallIpv4LpmKey \<times> ruleValue) list \<Rightarrow> 'w \<Rightarrow> 'w) \<Rightarrow> (ref_iter \<Rightarrow> firewallIpv4LpmKey option)
      \<Rightarrow> (nat \<Rightarrow> firewallIpv4LpmKey \<Rightarrow> ref_iter)
      \<Rightarrow> ('w, ref_iter, firewallIpv4LpmKey, ruleValue) bpf_handle" where
  "lpm_handle mx g s cur mk =
     (let H = hash_handle mx g s cur mk in
      H\<lparr>m_lookup := (\<lambda>w k.
          case lpm_ref (map_of (g w)) k of None \<Rightarrow> Inl ErrKeyNotExist | Some v \<Rightarrow> Inr v),
        m_put := (\<lambda>w k v. if lpm_fits k then m_put H w (lpm_norm k) v else (w, Some (Errno 22))),
        m_delete := (\<lambda>w k. if lpm_fits k then m_delete H w (lpm_norm k) else (w, Some (Errno 22)))\<rparr>)"

text \<open>An array map of \<open>n\<close> entries of value \<open>d\<close> until written.\<close>

definition array_entries :: "nat \<Rightarrow> 'v \<Rightarrow> (u32 \<times> 'v) list \<Rightarrow> (u32 \<times> 'v) list" where
  "array_entries n d xs =
     map (\<lambda>i. (of_nat i, case map_of xs (of_nat i) of None \<Rightarrow> d | Some v \<Rightarrow> v)) [0..<n]"

definition array_handle ::
    "nat \<Rightarrow> 'v \<Rightarrow> ('w \<Rightarrow> (u32 \<times> 'v) list) \<Rightarrow> ((u32 \<times> 'v) list \<Rightarrow> 'w \<Rightarrow> 'w)
      \<Rightarrow> ('w, ref_iter, u32, 'v) bpf_handle" where
  "array_handle n d g s =
     \<lparr>m_max_entries = n,
      m_lookup = (\<lambda>w k. ref_lookup (array_entries n d (g w)) k),
      m_put = (\<lambda>w k v. if unat k < n then (s (AList.update k v (g w)) w, None)
        else (w, Some (Errno 7))),
      m_delete = (\<lambda>w k. (w, Some (Errno 22))),
      m_iterate = (\<lambda>w. ItStart),
      m_next = ref_next n (\<lambda>w. array_entries n d (g w)) it_idx ItIdx,
      m_close = (\<lambda>w. (w, None))\<rparr>"

section \<open>The laws\<close>

lemma ref_lookup_simps:
  "ref_lookup xs k = Inr v \<longleftrightarrow> map_of xs k = Some v"
  "ref_lookup xs k = Inl e \<longleftrightarrow> map_of xs k = None \<and> e = ErrKeyNotExist"
  by (auto simp: ref_lookup_def split: option.splits)

lemma ref_iterate_complete:
  assumes "\<And>n k. cur (mk n k) = Some k \<and> it_count (mk n k) = n" "cur ItStart = None"
    and "m_next M = ref_next mx ents cur mk" "m_iterate M w = ItStart"
    and d: "distinct (map fst (ents w))" and "map_of (ents w) = c"
    and it: "iterate_all M w = (es, None)"
  shows "distinct (map fst es) \<and> (\<forall>k v. (k, v) \<in> set es \<longleftrightarrow> c k = Some v)"
proof -
  have "cursor_at cur [] ItStart" using assms(2) by (simp add: cursor_at_def)
  have run: "iter_list M (m_max_entries M + 2) w ItStart = (es, None)"
    using it assms(4) by (simp add: iterate_all_def)
  have "es = ents w"
    by (rule ref_iter_list [where M = M and xs = "[]" and it = ItStart, OF assms(1,3) d _ _ run])
      (simp_all add: \<open>cursor_at cur [] ItStart\<close>)
  with d assms(6) show ?thesis by auto
qed

lemma ref_next_laws:
  assumes "\<And>n k. cur (mk n k) = Some k \<and> it_count (mk n k) = n"
    and "distinct (map fst (ents w))"
  shows "ref_next mx ents cur mk w it = Yield k v it' \<Longrightarrow> map_of (ents w) k = Some v \<and> cur it' = Some k"
    and "ref_next mx ents cur mk w it = Done None \<Longrightarrow>
      (\<And>k. cur it = Some k \<Longrightarrow> map_of (ents w) k = None) \<Longrightarrow> ents w = []"
  using assms entry_after_mem [of "cur it" "ents w"] entry_after_None [of "cur it" "ents w"]
  by (auto simp: ref_next_def split: if_splits option.splits prod.splits)

lemma distinct_clearjunk: "distinct (map fst (AList.clearjunk xs))"
  by (rule AList.distinct_clearjunk)

lemma hash_handle_laws:
  assumes cur: "\<And>n k. cur (mk n k) = Some k \<and> it_count (mk n k) = n" "cur ItStart = None"
    and g: "\<And>w. map_of (g w) = get (view w)" and s: "\<And>x w. view (s x w) = upd (map_of x) (view w)"
    and gu: "\<And>c m. get (upd c m) = c" "\<And>c c' m. upd c (upd c' m) = upd c m" "\<And>m. upd (get m) m = m"
  shows "bpf_map view get upd (\<lambda>c k. c k) (\<lambda>_. True) (\<lambda>_. True) cur (hash_handle mx g s cur mk)"
proof -
  let ?M = "hash_handle mx g s cur mk" and ?e = "\<lambda>w. AList.clearjunk (g w)"
  have e: "map_of (?e w) = get (view w)" for w by (simp add: g map_of_clearjunk)
  have nx: "m_next ?M = ref_next mx ?e cur mk" "m_iterate ?M w = ItStart" for w
    by (simp_all add: hash_handle_def)
  note d = AList.distinct_clearjunk
  show ?thesis
  proof
    show "m_next ?M w it = Yield k v it' \<Longrightarrow> get (view w) k = Some v \<and> cur it' = Some k" for w it k v it'
      using ref_next_laws(1) [where ents = ?e and w = w, OF cur(1) d, of mx it k v it'] by (simp add: nx e)
    show "m_next ?M w it = Done None \<Longrightarrow> (\<And>k. cur it = Some k \<Longrightarrow> get (view w) k = None) \<Longrightarrow>
        get (view w) = Map.empty" for w it
      using ref_next_laws(2) [where ents = ?e and w = w, OF cur(1) d, of mx it] e [of w] by (simp add: nx e)
    show "iterate_all ?M w = (es, None) \<Longrightarrow>
        distinct (map fst es) \<and> (\<forall>k v. (k, v) \<in> set es \<longleftrightarrow> get (view w) k = Some v)" for w es
      by (rule ref_iterate_complete [where M = ?M and ents = ?e, OF cur nx d e])
  qed (auto simp: hash_handle_def ref_lookup_simps g s gu cur update_conv' delete_conv' domIff
      split: if_splits)
qed

lemma lpm_search_covering:
  assumes "lpm_search c q n = r" "n \<le> 32"
  shows "case r of
      None \<Rightarrow> \<forall>j \<le> n. c (lpm_key j q) = None
    | Some v \<Rightarrow> \<exists>i \<le> n. c (lpm_key i q) = Some v \<and> (\<forall>j \<le> n. i < j \<longrightarrow> c (lpm_key j q) = None)"
  using assms
proof (induction n arbitrary: r)
  case 0
  then show ?case by (cases r) auto
next
  case (Suc n)
  show ?case
  proof (cases "c (lpm_key (Suc n) q)")
    case None
    with Suc.prems Suc.IH [of r] show ?thesis
      by (cases r) (auto simp: le_Suc_eq)
  next
    case (Some v)
    with Suc.prems show ?thesis by (auto intro!: exI [of _ "Suc n"])
  qed
qed

lemma lpm_ref_longest: "longest_prefix lpm_ref"
  unfolding longest_prefix_def
proof (intro allI impI)
  fix c :: "firewallIpv4LpmKey \<rightharpoonup> ruleValue" and q
  assume can: "\<forall>k \<in> dom c. canon_key k"
  have r: "lpm_ref c (host_key q) = lpm_search c q 32" by (simp add: lpm_ref_def host_key_def)
  have key: "k = lpm_key (unat (lk_Prefixlen k)) q \<and> unat (lk_Prefixlen k) \<le> 32"
    if "k \<in> dom c" "covers k q" for k
    using that can covers_is_lpm_key by (auto simp: canon_key_def)
  have len: "i \<le> 32 \<Longrightarrow> unat (lk_Prefixlen (lpm_key i q)) = i" for i by (simp add: lpm_key_def)
  from lpm_search_covering [of c q 32, OF refl]
  show "case lpm_ref c (host_key q) of
      None \<Rightarrow> \<forall>k \<in> dom c. \<not> covers k q
    | Some v \<Rightarrow> \<exists>k. c k = Some v \<and> covers k q \<and>
        (\<forall>k' \<in> dom c. covers k' q \<longrightarrow> unat (lk_Prefixlen k') \<le> unat (lk_Prefixlen k))"
  proof (cases "lpm_search c q 32")
    case None
    with lpm_search_covering [of c q 32, OF refl] show ?thesis
      unfolding r by (simp, metis domIff key)
  next
    case (Some v)
    with lpm_search_covering [of c q 32, OF refl] obtain i where
        i: "i \<le> 32" "c (lpm_key i q) = Some v" "\<forall>j \<le> 32. i < j \<longrightarrow> c (lpm_key j q) = None"
      by auto
    have "\<forall>k' \<in> dom c. covers k' q \<longrightarrow> unat (lk_Prefixlen k') \<le> i"
      using key i(3) by (metis domIff not_le)
    with i show ?thesis unfolding r Some option.case
      by (intro exI [of _ "lpm_key i q"]) (simp add: covers_lpm_key len)
  qed
qed

lemma lpm_norm_canon: "canon_key k \<Longrightarrow> lpm_norm k = k"
  by (cases k) (simp add: lpm_norm_def canon_key_def lpm_key_def)

lemma lpm_handle_laws:
  assumes cur: "\<And>n k. cur (mk n k) = Some k \<and> it_count (mk n k) = n" "cur ItStart = None"
    and g: "\<And>w. map_of (g w) = get (view w)" and s: "\<And>x w. view (s x w) = upd (map_of x) (view w)"
    and gu: "\<And>c m. get (upd c m) = c" "\<And>c c' m. upd c (upd c' m) = upd c m" "\<And>m. upd (get m) m = m"
  shows "bpf_map view get upd lpm_ref canon_key lpm_fits cur (lpm_handle mx g s cur mk)"
proof -
  let ?H = "hash_handle mx g s cur mk" and ?M = "lpm_handle mx g s cur mk"
  let ?e = "\<lambda>w. AList.clearjunk (g w)"
  note H = hash_handle_laws [OF assms, of mx]
  note d = AList.distinct_clearjunk
  have e: "map_of (?e w) = get (view w)" for w by (simp add: g map_of_clearjunk)
  have nx: "m_next ?M = ref_next mx ?e cur mk" "m_iterate ?M w = ItStart" for w
    by (simp_all add: lpm_handle_def hash_handle_def Let_def)
  have put: "m_put ?M w k v = (if lpm_fits k then m_put ?H w (lpm_norm k) v else (w, Some (Errno 22)))"
    and del: "m_delete ?M w k = (if lpm_fits k then m_delete ?H w (lpm_norm k) else (w, Some (Errno 22)))"
    for w k v by (simp_all add: lpm_handle_def Let_def)
  have lkp: "m_lookup ?M w k = Inl x \<longleftrightarrow> lpm_ref (map_of (g w)) k = None \<and> x = ErrKeyNotExist"
    "m_lookup ?M w k = Inr v \<longleftrightarrow> lpm_ref (map_of (g w)) k = Some v" for w k x v
    by (auto simp: lpm_handle_def Let_def split: option.splits)
  show ?thesis
  proof
    show "m_next ?M w it = Yield k v it' \<Longrightarrow> get (view w) k = Some v \<and> cur it' = Some k" for w it k v it'
      using ref_next_laws(1) [where ents = ?e and w = w, OF cur(1) d, of mx it k v it'] by (simp add: nx e)
    show "m_next ?M w it = Done None \<Longrightarrow> (\<And>k. cur it = Some k \<Longrightarrow> get (view w) k = None) \<Longrightarrow>
        get (view w) = Map.empty" for w it
      using ref_next_laws(2) [where ents = ?e and w = w, OF cur(1) d, of mx it] e [of w] by (simp add: nx e)
    show "iterate_all ?M w = (es, None) \<Longrightarrow>
        distinct (map fst es) \<and> (\<forall>k v. (k, v) \<in> set es \<longleftrightarrow> get (view w) k = Some v)" for w es
      by (rule ref_iterate_complete [where M = ?M and ents = ?e, OF cur nx d e])
    show "m_put ?M w k v = (w', None) \<Longrightarrow> canon_key k \<Longrightarrow>
        view w' = upd ((get (view w))(k \<mapsto> v)) (view w)" for w k v w'
      using bpf_map.put_ok [OF H, of w k v w'] by (simp add: put lpm_norm_canon fun_upd_def split: if_splits)
    show "m_put ?M w k v = (w', Some x) \<Longrightarrow> view w' = view w" for w k v w' x
      using bpf_map.put_err [OF H, of w "lpm_norm k" v w' x] by (simp add: put split: if_splits)
    show "m_delete ?M w k = (w', None) \<Longrightarrow> canon_key k \<Longrightarrow>
        k \<in> dom (get (view w)) \<and> view w' = upd ((get (view w))(k := None)) (view w)" for w k w'
      using bpf_map.delete_ok [OF H, of w k w'] by (simp add: del lpm_norm_canon fun_upd_def split: if_splits)
    show "m_delete ?M w k = (w', Some x) \<Longrightarrow> view w' = view w" for w k w' x
      using bpf_map.delete_err [OF H, of w "lpm_norm k" w' x] by (simp add: del split: if_splits)
  qed (auto simp: lkp put del g gu nx cur canon_key_def lpm_fits_def split: if_splits)
qed

lemma u32_of_nat_inj: "n \<le> 32 \<Longrightarrow> inj_on (of_nat :: nat \<Rightarrow> u32) {0..<n}"
  by (rule inj_onI) (metis (no_types) atLeastLessThan_iff less_imp_le_nat order_less_le_trans unat_of_nat_u32)

lemma array_entries_facts:
  assumes "n \<le> 32"
  shows "distinct (map fst (array_entries n d xs))"
    and "map_of (array_entries n d xs) k =
      (if unat k < n then Some (case map_of xs k of None \<Rightarrow> d | Some v \<Rightarrow> v) else None)"
proof -
  have m: "map fst (array_entries n d xs) = map of_nat [0..<n]"
    by (simp add: array_entries_def comp_def)
  show dist: "distinct (map fst (array_entries n d xs))"
    unfolding m by (simp add: distinct_map u32_of_nat_inj assms)
  show "map_of (array_entries n d xs) k =
      (if unat k < n then Some (case map_of xs k of None \<Rightarrow> d | Some v \<Rightarrow> v) else None)"
  proof (cases "unat k < n")
    case True
    then have "(k, case map_of xs k of None \<Rightarrow> d | Some v \<Rightarrow> v) \<in> set (array_entries n d xs)"
      by (auto simp: array_entries_def image_iff intro!: bexI [of _ "unat k"])
    with dist True show ?thesis by simp
  next
    case False
    have "k \<notin> fst ` set (array_entries n d xs)"
    proof
      assume "k \<in> fst ` set (array_entries n d xs)"
      then obtain i where "i < n" "k = of_nat i" by (auto simp: array_entries_def)
      with assms False show False by simp
    qed
    with False show ?thesis by (auto simp: map_of_eq_None_iff)
  qed
qed

lemma array_handle_laws:
  assumes n: "n \<le> 32"
    and g: "\<And>w. map_of (array_entries n d (g w)) = get (view w)"
    and s: "\<And>x w. view (s x w) = upd (map_of (array_entries n d x)) (view w)"
    and gu: "\<And>c m. get (upd c m) = c" "\<And>c c' m. upd c (upd c' m) = upd c m" "\<And>m. upd (get m) m = m"
  shows "bpf_map view get upd (\<lambda>c k. c k) (\<lambda>_. True) (\<lambda>_. True) it_idx (array_handle n d g s)"
proof -
  let ?M = "array_handle n d g s" and ?e = "\<lambda>w. array_entries n d (g w)"
  have cur: "it_idx (ItIdx j k) = Some k \<and> it_count (ItIdx j k) = j" "it_idx ItStart = None" for j k
    by simp_all
  have nx: "m_next ?M = ref_next n ?e it_idx ItIdx" "m_iterate ?M w = ItStart" for w
    by (simp_all add: array_handle_def)
  note d = array_entries_facts(1) [OF n]
  have upd1: "map_of (array_entries n d (AList.update k v xs)) = (map_of (array_entries n d xs))(k \<mapsto> v)"
    if "unat k < n" for k v xs
    using that by (auto simp: fun_eq_iff array_entries_facts(2) [OF n] update_conv')
  show ?thesis
  proof
    show "m_next ?M w it = Yield k v it' \<Longrightarrow> get (view w) k = Some v \<and> it_idx it' = Some k" for w it k v it'
      using ref_next_laws(1) [where ents = ?e and w = w, OF cur(1) d, of n it k v it'] by (simp add: nx g)
    show "m_next ?M w it = Done None \<Longrightarrow> (\<And>k. it_idx it = Some k \<Longrightarrow> get (view w) k = None) \<Longrightarrow>
        get (view w) = Map.empty" for w it
      using ref_next_laws(2) [where ents = ?e and w = w, OF cur(1) d, of n it] g [of w] by (simp add: nx g)
    show "iterate_all ?M w = (es, None) \<Longrightarrow>
        distinct (map fst es) \<and> (\<forall>k v. (k, v) \<in> set es \<longleftrightarrow> get (view w) k = Some v)" for w es
      by (rule ref_iterate_complete [where M = ?M and ents = ?e, OF cur nx d g])
    show "m_put ?M w k v = (w', None) \<Longrightarrow> True \<Longrightarrow>
        view w' = upd ((get (view w))(k \<mapsto> v)) (view w)" for w k v w'
      by (auto simp: array_handle_def s upd1 g split: if_splits)
  qed (auto simp: array_handle_def ref_lookup_simps g gu split: if_splits)
qed

section \<open>The reference world\<close>

record kernel =
  k_ip :: "(firewallIpv4LpmKey \<times> ruleValue) list"
  k_port :: "(firewallPortRuleKey \<times> ruleValue) list"
  k_ct :: "(ctKey \<times> ctValue) list"
  k_cnt :: "(u32 \<times> counterValue) list"
  k_cfg :: "(u32 \<times> u32) list"
  k_pres :: "(u32 \<times> u32) list"
  k_clock :: "u64 \<times> u64"
  k_links :: "(nat \<times> xdp_mode) list"

definition boot_kernel :: kernel where
  "boot_kernel = \<lparr>k_ip = [], k_port = [], k_ct = [], k_cnt = [], k_cfg = [], k_pres = [],
     k_clock = (1000, 0), k_links = []\<rparr>"

definition zero_counter :: counterValue where
  "zero_counter = \<lparr>cnt_Packets = 0, cnt_Bytes = 0\<rparr>"

definition kernel_maps :: "kernel \<Rightarrow> fw_maps" where
  "kernel_maps w =
     \<lparr>blocked_ips = map_of (k_ip w), port_policy = map_of (k_port w), conntrack = map_of (k_ct w),
      counters = map_of (array_entries 3 zero_counter (k_cnt w)),
      firewall_config = map_of (array_entries 1 0 (k_cfg w)),
      rule_presence = map_of (array_entries 1 0 (k_pres w))\<rparr>"

text \<open>The objects the loader returns, with the sizes of \<open>bpf/maps.h\<close>.\<close>

definition ref_objs :: "(kernel, ref_iter) firewallObjects" where
  "ref_objs =
     \<lparr>fo_FirewallProg = 1,
      fo_BlockedIps = lpm_handle 65535 k_ip (\<lambda>x w. w\<lparr>k_ip := x\<rparr>) it_ip ItIp,
      fo_Conntrack = hash_handle 65536 k_ct (\<lambda>x w. w\<lparr>k_ct := x\<rparr>) it_ct ItCt,
      fo_Counters = array_handle 3 zero_counter k_cnt (\<lambda>x w. w\<lparr>k_cnt := x\<rparr>),
      fo_FirewallConfig = array_handle 1 0 k_cfg (\<lambda>x w. w\<lparr>k_cfg := x\<rparr>),
      fo_PortPolicy = hash_handle 65535 k_port (\<lambda>x w. w\<lparr>k_port := x\<rparr>) it_port ItPort,
      fo_RulePresence = array_handle 1 0 k_pres (\<lambda>x w. w\<lparr>k_pres := x\<rparr>)\<rparr>"

text \<open>One interface, \<open>eth0\<close>, without native XDP support; a link is its position in the list.\<close>

text \<open>Loading creates fresh maps.\<close>

definition fresh_kernel :: "kernel \<Rightarrow> kernel" where
  "fresh_kernel w = boot_kernel\<lparr>k_clock := k_clock w, k_links := k_links w\<rparr>"

lemma fresh_kernel_boot: "fresh_kernel boot_kernel = boot_kernel"
  by (simp add: fresh_kernel_def boot_kernel_def)

lemma fresh_kernel_maps: "kernel_maps (fresh_kernel w) = fresh_maps"
  by (simp add: fresh_kernel_def boot_kernel_def kernel_maps_def fresh_maps_def array_entries_def
      numeral_3_eq_3 zero_counter_def counter_idx_defs configKey_def presenceMapKey_def fun_eq_iff)

definition ref_collection :: "(kernel, ref_iter) collection_env" where
  "ref_collection =
     \<lparr>ce_LoadCollectionSpec = Inr 7,
      ce_LoadAndAssign = (\<lambda>spec w. (fresh_kernel w, Inr ref_objs)),
      ce_progClose = (\<lambda>p w. (w, None))\<rparr>"

lemma ref_collection_ops [simp]:
  "loadFirewallObjects ref_collection w = (fresh_kernel w, Inr ref_objs)"
  "firewallObjects_Close ref_collection ref_objs w = (w, None)"
  by (simp_all add: ref_collection_def loadFirewallObjects_def loadFirewall_def objects_closed
      object_closers_def ref_objs_def lpm_handle_def hash_handle_def array_handle_def Let_def)

definition ref_env :: "(kernel, ref_iter, nat) xdp_env" where
  "ref_env =
     \<lparr>xe_InterfaceByName = (\<lambda>n w. if n = ''eth0'' then Inr 2 else Inl 19),
      xe_collection = ref_collection,
      xe_AttachXDP = (\<lambda>prog idx mode w.
        if mode = XDPDriverMode then (w, Inl 95)
        else (w\<lparr>k_links := k_links w @ [(idx, mode)]\<rparr>, Inr (length (k_links w)))),
      xe_linkClose = (\<lambda>l w. (w\<lparr>k_links := take l (k_links w)\<rparr>, None)),
      xe_ClockGettime = (\<lambda>w. Some (k_clock w))\<rparr>"

definition ref_fw :: "(kernel, ref_iter, nat) Firewall" where
  "ref_fw = wire_firewall (\<lambda>w. Some (k_clock w))
     \<lparr>x_ifaceName = ''eth0'', x_ifaceIndex = 2, x_prog = 1, x_link = None, x_objs = ref_objs,
      x_attachMode = ''''\<rparr>"

definition ref_ghost :: "(kernel, ref_iter) fw_ghost" where
  "ref_ghost = \<lparr>gh_view = kernel_maps, gh_lpm = lpm_ref, gh_cur_ip = it_ip, gh_cur_port = it_port,
     gh_cur_ct = it_ct, gh_cur_idx = it_idx,
     gh_steady = (\<lambda>w w'. k_ip w' = k_ip w \<and> k_port w' = k_port w \<and> k_cfg w' = k_cfg w)\<rparr>"

lemma NewFirewall_ref: "NewFirewall ref_env ''eth0'' w = (fresh_kernel w, Inr ref_fw)"
  by (simp add: NewFirewall_def LoadXDP_def ref_env_def ref_fw_def) (simp add: ref_objs_def)

section \<open>The interpretations\<close>

lemma ref_firewall [simp]:
  "mm_blockedIps (fw_mgr ref_fw) = lpm_handle 65535 k_ip (\<lambda>x w. w\<lparr>k_ip := x\<rparr>) it_ip ItIp"
  "mm_presence (fw_mgr ref_fw) = Some (fw_presence ref_fw)"
  "pp_portPolicy (fw_portPolicyMgr ref_fw) = hash_handle 65535 k_port (\<lambda>x w. w\<lparr>k_port := x\<rparr>) it_port ItPort"
  "pp_presence (fw_portPolicyMgr ref_fw) = Some (fw_presence ref_fw)"
  "cm_counters (fw_counterMgr ref_fw) = array_handle 3 zero_counter k_cnt (\<lambda>x w. w\<lparr>k_cnt := x\<rparr>)"
  "cf_config (fw_configMgr ref_fw) = array_handle 1 0 k_cfg (\<lambda>x w. w\<lparr>k_cfg := x\<rparr>)"
  "ct_conntrack (fw_ctMgr ref_fw) = hash_handle 65536 k_ct (\<lambda>x w. w\<lparr>k_ct := x\<rparr>) it_ct ItCt"
  "ct_clock (fw_ctMgr ref_fw) = (\<lambda>w. Some (k_clock w))"
  "fw_presence ref_fw = array_handle 1 0 k_pres (\<lambda>x w. w\<lparr>k_pres := x\<rparr>)"
  by (simp_all add: ref_fw_def wire_firewall_def XDPProgram_maps ref_objs_def fw_presence_def Let_def
      NewMapManager_def MapManager_SetPresence_def NewPortPolicyManager_def
      PortPolicyManager_SetPresence_def NewCounterManager_def NewConfigManager_def
      NewConntrackManager_def)

lemma ref_ghost_simps [simp]:
  "gh_view ref_ghost = kernel_maps" "gh_lpm ref_ghost = lpm_ref" "gh_cur_ip ref_ghost = it_ip"
  "gh_cur_port ref_ghost = it_port" "gh_cur_ct ref_ghost = it_ct" "gh_cur_idx ref_ghost = it_idx"
  "gh_steady ref_ghost w w' \<longleftrightarrow> k_ip w' = k_ip w \<and> k_port w' = k_port w \<and> k_cfg w' = k_cfg w"
  by (simp_all add: ref_ghost_def)

lemma ref_objs_simps [simp]:
  "fo_BlockedIps ref_objs = lpm_handle 65535 k_ip (\<lambda>x w. w\<lparr>k_ip := x\<rparr>) it_ip ItIp"
  "fo_PortPolicy ref_objs = hash_handle 65535 k_port (\<lambda>x w. w\<lparr>k_port := x\<rparr>) it_port ItPort"
  "fo_Counters ref_objs = array_handle 3 zero_counter k_cnt (\<lambda>x w. w\<lparr>k_cnt := x\<rparr>)"
  "fo_FirewallConfig ref_objs = array_handle 1 0 k_cfg (\<lambda>x w. w\<lparr>k_cfg := x\<rparr>)"
  "fo_Conntrack ref_objs = hash_handle 65536 k_ct (\<lambda>x w. w\<lparr>k_ct := x\<rparr>) it_ct ItCt"
  "fo_RulePresence ref_objs = array_handle 1 0 k_pres (\<lambda>x w. w\<lparr>k_pres := x\<rparr>)"
  by (simp_all add: ref_objs_def)

interpretation ref_presence: presence_map kernel_maps it_idx
    "array_handle 1 0 k_pres (\<lambda>x w. w\<lparr>k_pres := x\<rparr>)"
  unfolding presence_map_def
  by (rule array_handle_laws) (simp_all add: kernel_maps_def)

interpretation ref_loaded: loaded_objs ref_ghost ref_objs
proof -
  have "bpf_map kernel_maps blocked_ips (\<lambda>c m. m\<lparr>blocked_ips := c\<rparr>) lpm_ref canon_key lpm_fits it_ip
      (fo_BlockedIps ref_objs)"
    unfolding ref_objs_simps by (rule lpm_handle_laws) (simp_all add: kernel_maps_def)
  moreover have "bpf_map kernel_maps port_policy (\<lambda>c m. m\<lparr>port_policy := c\<rparr>) (\<lambda>c k. c k) (\<lambda>_. True)
      (\<lambda>_. True) it_port (fo_PortPolicy ref_objs)"
    unfolding ref_objs_simps by (rule hash_handle_laws) (simp_all add: kernel_maps_def)
  moreover have "bpf_map kernel_maps counters (\<lambda>c m. m\<lparr>counters := c\<rparr>) (\<lambda>c k. c k) (\<lambda>_. True)
      (\<lambda>_. True) it_idx (fo_Counters ref_objs)"
    unfolding ref_objs_simps by (rule array_handle_laws) (simp_all add: kernel_maps_def)
  moreover have "bpf_map kernel_maps firewall_config (\<lambda>c m. m\<lparr>firewall_config := c\<rparr>) (\<lambda>c k. c k)
      (\<lambda>_. True) (\<lambda>_. True) it_idx (fo_FirewallConfig ref_objs)"
    unfolding ref_objs_simps by (rule array_handle_laws) (simp_all add: kernel_maps_def)
  moreover have "bpf_map kernel_maps conntrack (\<lambda>c m. m\<lparr>conntrack := c\<rparr>) (\<lambda>c k. c k) (\<lambda>_. True)
      (\<lambda>_. True) it_ct (fo_Conntrack ref_objs)"
    unfolding ref_objs_simps by (rule hash_handle_laws) (simp_all add: kernel_maps_def)
  ultimately show "loaded_objs ref_ghost ref_objs"
    unfolding loaded_objs_def loaded_objs_axioms_def ref_ghost_simps
    using ref_presence.presence_map_axioms lpm_ref_longest by simp
qed

lemma ref_firewall_env: "firewall_env ref_ghost ref_fw"
  unfolding ref_fw_def by (rule ref_loaded.wired) simp

interpretation ref: firewall_env ref_ghost ref_fw
  by (rule ref_firewall_env)

interpretation ref_blocklist: blocklist_env kernel_maps lpm_ref it_ip it_idx "fw_mgr ref_fw"
    "fw_presence ref_fw"
  using ref.B.blocklist_env_axioms by simp

interpretation ref_port: port_env kernel_maps it_port it_idx "fw_portPolicyMgr ref_fw" "fw_presence ref_fw"
  using ref.Po.port_env_axioms by simp

interpretation ref_counter: counter_env kernel_maps it_idx "fw_counterMgr ref_fw"
  using ref.Co.counter_env_axioms by simp

interpretation ref_config: config_env kernel_maps it_idx "fw_configMgr ref_fw"
  using ref.Cf.config_env_axioms by simp

interpretation ref_conntrack: conntrack_env kernel_maps it_ct "fw_ctMgr ref_fw"
  using ref.Ct.conntrack_env_axioms by simp

text \<open>A socket that never fails, and the start of the daemon.\<close>

definition ref_senv :: "(kernel, nat) server_env" where
  "ref_senv =
     \<lparr>se_Remove = (\<lambda>path w. (w, RemoveNotExist)), se_Listen = (\<lambda>path w. (w, Inr 3)),
      se_Chmod = (\<lambda>path md w. (w, None)), se_lnClose = (\<lambda>l w. (w, None))\<rparr>"

interpretation ref_boot: boot_env ref_ghost ref_env ref_senv
proof
  fix w w' objs
  assume "loadFirewallObjects (xe_collection ref_env) w = (w', Inr objs)"
  then show "loaded_objs ref_ghost objs \<and> gh_view ref_ghost w' = fresh_maps"
    using ref_loaded.loaded_objs_axioms by (auto simp: ref_env_def fresh_kernel_maps)
qed (simp_all add: ref_env_def ref_senv_def kernel_maps_def)

section \<open>Evaluation\<close>

text \<open>The operations of the reference handles, to evaluate the managers on concrete worlds.\<close>

lemma handle_eval:
  "m_lookup (array_handle n d ga sa) w j = ref_lookup (array_entries n d (ga w)) j"
  "m_put (array_handle n d ga sa) w j v =
     (if unat j < n then (sa (AList.update j v (ga w)) w, None) else (w, Some (Errno 7)))"
  "m_iterate (array_handle n d ga sa) w = ItStart"
  "m_max_entries (array_handle n d ga sa) = n"
  "m_lookup (hash_handle mx g s cur mk) w k = ref_lookup (g w) k"
  "m_put (hash_handle mx g s cur mk) w k x =
     (if map_of (g w) k \<noteq> None \<or> length (AList.clearjunk (g w)) < mx
      then (s (AList.update k x (g w)) w, None) else (w, Some (Errno 7)))"
  "m_delete (hash_handle mx g s cur mk) w k =
     (if map_of (g w) k \<noteq> None then (s (AList.delete k (g w)) w, None)
      else (w, Some ErrKeyNotExist))"
  "m_iterate (hash_handle mx g s cur mk) w = ItStart"
  "m_next (hash_handle mx g s cur mk) = ref_next mx (\<lambda>w. AList.clearjunk (g w)) cur mk"
  "m_max_entries (hash_handle mx g s cur mk) = mx"
  by (simp_all add: array_handle_def hash_handle_def)

lemma lpm_handle_eval:
  "m_lookup (lpm_handle mx g s cur mk) w k =
     (case lpm_ref (map_of (g w)) k of None \<Rightarrow> Inl ErrKeyNotExist | Some v \<Rightarrow> Inr v)"
  "m_put (lpm_handle mx g s cur mk) w k x =
     (if lpm_fits k then m_put (hash_handle mx g s cur mk) w (lpm_norm k) x else (w, Some (Errno 22)))"
  "m_delete (lpm_handle mx g s cur mk) w k =
     (if lpm_fits k then m_delete (hash_handle mx g s cur mk) w (lpm_norm k) else (w, Some (Errno 22)))"
  "m_iterate (lpm_handle mx g s cur mk) w = ItStart"
  "m_next (lpm_handle mx g s cur mk) = ref_next mx (\<lambda>w. AList.clearjunk (g w)) cur mk"
  "m_max_entries (lpm_handle mx g s cur mk) = mx"
  by (simp_all add: lpm_handle_def hash_handle_def Let_def)

lemma array_entries_one: "array_entries (Suc 0) d xs = [(0, case map_of xs 0 of None \<Rightarrow> d | Some v \<Rightarrow> v)]"
  by (simp add: array_entries_def)

lemmas ref_eval = handle_eval lpm_handle_eval array_entries_one ref_lookup_def ref_next_def
  first_entry_def presenceMapKey_def

end
