(* ===== verification/System.thy ===== *)
theory System
  imports KernelRef
begin

text \<open>
  The running system: requests the server handles under its mutex, packets the kernel judges, and
  ticks of the conntrack reaper, in any order. Whatever they do to the maps keeps \<open>maps_ok\<close>, so
  in every reachable state the datapath's fast path decides as the full lookups would.
\<close>

inductive sys_step ::
    "('w, 'i) fw_ghost \<Rightarrow> ('w, 'i, 'l) Firewall \<Rightarrow> ('w, 'n) Server \<Rightarrow> 'w \<Rightarrow> 'w \<Rightarrow> bool"
  for G fw srv where
  request: "Server_handle srv req w = (w', r) \<Longrightarrow> sys_step G fw srv w w'"
| packet: "dp_env_ok env \<Longrightarrow> dp_lpm env = gh_lpm G \<Longrightarrow>
    gh_view G w' = fst (firewall_prog env pkt (gh_view G w)) \<Longrightarrow> sys_step G fw srv w w'"
| reap: "Firewall_ReapConntrack fw idle w = (w', n, e) \<Longrightarrow> sys_step G fw srv w w'"

inductive_cases sys_stepE: "sys_step G fw srv w w'"

text \<open>The value a granted block request stores: without an action, DROP at priority 0, whatever
  priority the request carries.\<close>

definition granted_rule :: "Request \<Rightarrow> fw_error + ruleValue" where
  "granted_rule req =
     (if rq_Action req = '''' then Inr \<lparr>rv_Action = ActionDrop, rv_Priority = 0\<rparr>
      else
        (case ParseAction (rq_Action req) of
           Inl err \<Rightarrow> Inl err
         | Inr a \<Rightarrow> Inr \<lparr>rv_Action = a, rv_Priority = rq_Priority req\<rparr>))"

context firewall_env
begin

text \<open>What a request does to the maps.\<close>

lemma request_effect:
  assumes "Server_handle s req w = (w', r)" "sv_policy s = firewall_policy fw" "maps_ok (gh_view G w)"
  shows "mgr_step\<^sup>*\<^sup>* (gh_view G w) (gh_view G w')" "maps_ok (gh_view G w')"
    "counters (gh_view G w') = counters (gh_view G w)"
    "conntrack (gh_view G w') \<subseteq>\<^sub>m conntrack (gh_view G w)"
proof -
  show st: "mgr_step\<^sup>*\<^sup>* (gh_view G w) (gh_view G w')"
    using assms by (rule pol.handle_steps)
  then show "maps_ok (gh_view G w')" "counters (gh_view G w') = counters (gh_view G w)"
      "conntrack (gh_view G w') \<subseteq>\<^sub>m conntrack (gh_view G w)"
    using mgr_steps_maps_ok mgr_steps_flows assms(3) by blast+
qed

lemma clear_request_effect:
  assumes "Server_handle s req w = (w', r)" "sv_policy s = firewall_policy fw" "maps_ok (gh_view G w)"
    "rq_Command req = CmdClear" "rs_OK r"
  shows "blocked_ips (gh_view G w') = Map.empty" "port_policy (gh_view G w') = Map.empty"
    "conntrack (gh_view G w') = Map.empty"
proof -
  have "handle_clear (firewall_policy fw) w = (w', r)"
    using assms(1,2,4) by (simp add: Server_handle_def Let_def cmd_defs)
  from pol.handle_clear_steps [OF this assms(3)] assms(5)
  show "blocked_ips (gh_view G w') = Map.empty" "port_policy (gh_view G w') = Map.empty"
    "conntrack (gh_view G w') = Map.empty" by blast+
qed

text \<open>A block request that is granted sets the entry of its rule.\<close>

lemma block_request_ip:
  assumes "Server_handle s req w = (w', r)" "sv_policy s = firewall_policy fw"
    "rq_Command req = CmdBlock" "rq_Protocol req = ''''" "rq_Port req = 0" "rq_SPort req = 0" "rs_OK r"
  shows "\<exists>k v. rule_key (rq_Value req) = Inr k \<and> canon_key k \<and>
    gh_view G w' = ip_inserted k v (gh_view G w) \<and>
    granted_rule req = Inr v"
proof -
  have h: "handle_block (firewall_policy fw) req w = (w', r)"
    using assms(1-3) by (simp add: Server_handle_def Let_def)
  show ?thesis
  proof (cases "rq_Action req = ''''")
    case True
    with h assms(4-7) have "Firewall_BlockIP fw (rq_Value req) w = (w', None)"
      by (auto simp: handle_block_def dest: reply_unit_OK)
    from BlockIP_effect [OF this] True show ?thesis by (auto simp: granted_rule_def)
  next
    case False
    with h assms(4-7) have "Firewall_BlockIPWithActionPriority fw (rq_Value req) (rq_Action req)
        (rq_Priority req) w = (w', None)"
      by (auto simp: handle_block_def dest: reply_unit_OK)
    from BlockIPWithActionPriority_effect [OF this] False show ?thesis by (auto simp: granted_rule_def)
  qed
qed

lemma block_request_port:
  assumes "Server_handle s req w = (w', r)" "sv_policy s = firewall_policy fw"
    "rq_Command req = CmdBlock" "rq_Protocol req \<noteq> '''' \<or> rq_Port req \<noteq> 0 \<or> rq_SPort req \<noteq> 0" "rs_OK r"
  shows "\<exists>k v. port_key (rq_Value req) (rq_Protocol req) (rq_Port req) (rq_SPort req) = Inr k \<and>
    gh_view G w' = port_inserted k v (gh_view G w) \<and>
    granted_rule req = Inr v"
proof -
  have h: "handle_block (firewall_policy fw) req w = (w', r)"
    using assms(1-3) by (simp add: Server_handle_def Let_def)
  show ?thesis
  proof (cases "rq_Action req = ''''")
    case True
    with h assms(4,5) have "Firewall_BlockPortRule fw (rq_Value req) (rq_Protocol req) (rq_Port req)
        (rq_SPort req) w = (w', None)"
      by (auto simp: handle_block_def dest: reply_unit_OK)
    from BlockPortRule_effect [OF this] True show ?thesis by (auto simp: granted_rule_def)
  next
    case False
    with h assms(4,5) have "Firewall_BlockPortRuleWithActionPriority fw (rq_Value req) (rq_Protocol req)
        (rq_Port req) (rq_SPort req) (rq_Action req) (rq_Priority req) w = (w', None)"
      by (auto simp: handle_block_def dest: reply_unit_OK)
    from BlockPortRuleWithActionPriority_effect [OF this] False show ?thesis by (auto simp: granted_rule_def)
  qed
qed

lemma sys_step_maps_ok:
  assumes "sys_step G fw srv w w'" "sv_policy srv = firewall_policy fw" "maps_ok (gh_view G w)"
  shows "maps_ok (gh_view G w')"
  using assms
proof (induction rule: sys_step.induct)
  case (request req w w' r)
  then show ?case using request_effect(2) by blast
next
  case (packet env w' pkt w)
  then show ?case by (simp add: maps_ok_packet)
next
  case (reap idle w w' n e)
  then show ?case using reap_step mgr_step_maps_ok by blast
qed

lemma reachable_maps_ok:
  assumes "(sys_step G fw srv)\<^sup>*\<^sup>* w0 w" "sv_policy srv = firewall_policy fw" "maps_ok (gh_view G w0)"
  shows "maps_ok (gh_view G w)"
  using assms by (induction rule: rtranclp_induct) (auto intro: sys_step_maps_ok)

text \<open>The books stay balanced: only packets touch the counters.\<close>

lemma sys_step_balanced:
  assumes "sys_step G fw srv w w'" "sv_policy srv = firewall_policy fw" "maps_ok (gh_view G w)"
    "counters_ready (gh_view G w)" "balanced (stats_of (gh_view G w))"
  shows "counters_ready (gh_view G w') \<and> balanced (stats_of (gh_view G w'))"
proof -
  have same: "counters m' = counters m \<Longrightarrow> counters_ready m' = counters_ready m \<and> stats_of m' = stats_of m"
    for m m' by (simp add: counters_ready_def stats_of_def slot_def)
  from assms show ?thesis
  proof (induction rule: sys_step.induct)
    case (request req w w' r)
    then have "counters (gh_view G w') = counters (gh_view G w)"
      using request_effect(3) by blast
    with request show ?case using same by metis
  next
    case (packet env w' pkt w)
    have "firewall_prog env pkt (gh_view G w) = prog_spec env pkt (gh_view G w)"
      using packet by (simp add: prog_refines maps_ok_presence)
    then have v: "gh_view G w' = fst (prog_spec env pkt (gh_view G w))" using packet by simp
    from packet(6,7) show ?case
      unfolding v by (simp add: counters_ready_prog_spec stats_of_prog_spec balanced_counted)
  next
    case (reap idle w w' n e)
    then have "counters (gh_view G w') = counters (gh_view G w)"
      using reap_step [of idle w w' n e] mgr_step_flows by blast
    with reap show ?case using same by metis
  qed
qed

lemma reachable_balanced:
  assumes "(sys_step G fw srv)\<^sup>*\<^sup>* w0 w" "sv_policy srv = firewall_policy fw" "maps_ok (gh_view G w0)"
    "counters_ready (gh_view G w0)" "balanced (stats_of (gh_view G w0))"
  shows "counters_ready (gh_view G w) \<and> balanced (stats_of (gh_view G w))"
  using assms
proof (induction rule: rtranclp_induct)
  case (step y z)
  then show ?case using sys_step_balanced [of srv y z] reachable_maps_ok [of srv w0 y] by blast
qed simp

end

section \<open>From a request to a verdict\<close>

text \<open>The rule the IP table has for a packet, when the source is covered: the longest covering
  entry.\<close>

lemma ip_block_action_source:
  assumes lp: "longest_prefix (dp_lpm env)" and can: "\<forall>k \<in> dom (blocked_ips m). canon_key k"
    and k: "blocked_ips m k = Some v" "covers k (pi_saddr info)"
    and longest: "\<forall>k' \<in> dom (blocked_ips m). covers k' (pi_saddr info) \<longrightarrow>
      unat (lk_Prefixlen k') \<le> unat (lk_Prefixlen k)"
  shows "ip_block_action env m info = Some v"
  using longest_prefix_eq [OF lp can k longest]
  by (simp add: ip_block_action_def host_key_def)

lemma ip_block_action_dest:
  assumes lp: "longest_prefix (dp_lpm env)" and can: "\<forall>k \<in> dom (blocked_ips m). canon_key k"
    and src: "\<forall>k \<in> dom (blocked_ips m). \<not> covers k (pi_saddr info)"
    and k: "blocked_ips m k = Some v" "covers k (pi_daddr info)"
    and longest: "\<forall>k' \<in> dom (blocked_ips m). covers k' (pi_daddr info) \<longrightarrow>
      unat (lk_Prefixlen k') \<le> unat (lk_Prefixlen k)"
  shows "ip_block_action env m info = Some v"
proof -
  have "dp_lpm env (blocked_ips m) (host_key (pi_saddr info)) = None"
  proof (cases "dp_lpm env (blocked_ips m) (host_key (pi_saddr info))")
    case (Some u)
    from longest_prefix_Some [OF lp can this] src show ?thesis by blast
  qed
  with longest_prefix_eq [OF lp can k longest] show ?thesis
    by (simp add: ip_block_action_def host_key_def)
qed

lemma ip_block_action_none:
  assumes lp: "longest_prefix (dp_lpm env)" and can: "\<forall>k \<in> dom (blocked_ips m). canon_key k"
    and "\<forall>k \<in> dom (blocked_ips m). \<not> covers k (pi_saddr info) \<and> \<not> covers k (pi_daddr info)"
  shows "ip_block_action env m info = None"
proof -
  have "dp_lpm env (blocked_ips m) (host_key q) = None"
    if "\<forall>k \<in> dom (blocked_ips m). \<not> covers k q" for q
  proof (cases "dp_lpm env (blocked_ips m) (host_key q)")
    case (Some u)
    from longest_prefix_Some [OF lp can this] that show ?thesis by blast
  qed
  with assms(3) show ?thesis by (simp add: ip_block_action_def host_key_def)
qed

text \<open>A DROP entry that is the IP match drops the packet unless a port rule of higher priority
  passes it.\<close>

lemma drop_rule_drops:
  assumes "ip_block_action env m info = Some r" "rv_Action r = ActionDrop"
    and "\<And>p. port_rule_action m info = Some p \<Longrightarrow> rv_Priority p \<le> rv_Priority r \<or> rv_Action p = ActionDrop"
  shows "packet_verdict env m info = XDP_DROP"
  using assms
  by (cases "port_rule_action m info")
    (auto simp: packet_verdict_code decide_def rule_verdict_def Let_def not_le [symmetric])

lemma port_rule_action_cong: "port_policy m = port_policy m' \<Longrightarrow> port_rule_action m = port_rule_action m'"
  by (simp add: port_rule_action_def port_probe_def try_lookup_def fun_eq_iff)

text \<open>The tables of \<open>m\<close> with a DROP entry for \<open>k\<close>: a packet from the prefix is dropped.\<close>

lemma drop_after_insert:
  assumes "dp_env_ok env" "maps_ok m'" "blocked_ips m' = (blocked_ips m)(k \<mapsto> v)"
    "port_policy m' = port_policy m" "parse_packet pkt = Some info" "covers k (pi_saddr info)"
    "\<forall>k' \<in> dom (blocked_ips m). covers k' (pi_saddr info) \<longrightarrow> unat (lk_Prefixlen k') \<le> unat (lk_Prefixlen k)"
    "\<forall>p. port_rule_action m info = Some p \<longrightarrow> rv_Priority p \<le> rv_Priority v"
    "rv_Action v = ActionDrop"
  shows "snd (firewall_prog env pkt m') = XDP_DROP"
proof -
  have lp: "longest_prefix (dp_lpm env)" using assms(1) by (simp add: dp_env_ok_def)
  have "ip_block_action env m' info = Some v"
    using assms(6,7) by (intro ip_block_action_source [OF lp maps_ok_canon [OF assms(2)], of k])
      (auto simp: assms(3))
  moreover have "port_rule_action m' info = port_rule_action m info"
    by (simp add: port_rule_action_cong [OF assms(4)])
  ultimately have "packet_verdict env m' info = XDP_DROP"
    using assms(8,9) by (intro drop_rule_drops) auto
  with assms(1,2,5) show ?thesis by (simp add: prog_refines maps_ok_presence verdict_of_def)
qed

text \<open>A rule stored with protocol 0 ("any") never matches a packet of another protocol: the
  program only probes keys with the packet's own protocol.\<close>

lemma any_protocol_ignored:
  assumes "pk_Protocol k = portAnyProtocol" "\<forall>info. parse_packet pkt = Some info \<longrightarrow> pi_protocol info \<noteq> portAnyProtocol"
  shows "verdict_of env (port_inserted k v m) pkt = verdict_of env m pkt"
proof (cases "parse_packet pkt")
  case (Some info)
  have "port_probe (port_inserted k v m) info d s = port_probe m info d s" for d s
    using assms Some by (auto simp: port_probe_def port_inserted_def)
  then have "port_rule_action (port_inserted k v m) info = port_rule_action m info"
    by (simp add: port_rule_action_def try_lookup_def)
  moreover have "ip_block_action env (port_inserted k v m) info = ip_block_action env m info"
    by (simp add: ip_block_action_def cong: option.case_cong)
  ultimately have "matched_rules env (port_inserted k v m) info = matched_rules env m info"
    by (simp add: matched_rules_def)
  then show ?thesis
    by (simp add: verdict_of_def packet_verdict_def stateful_pass_def ct_is_established_def default_policy_def Some)
qed (simp add: verdict_of_def default_policy_def)

end
