(* ===== verification/Json.thy ===== *)
theory Json
  imports GoStrings
begin

text \<open>
  Go's \<open>encoding/json\<close> as the program uses it: the text of a value (\<open>json.Marshal\<close>, with the HTML-safe
  escapes that are its default), and reading a value (\<open>json.Unmarshal\<close>, \<open>Decoder.Decode\<close>): the grammar of
  RFC 8259 with the library's nesting limit of 10000. Strings are byte strings; invalid UTF-8 becomes
  the replacement character in both directions. A number is kept as its literal: what it means depends
  on the Go type it is decoded into. The last section shows that reading a printed value gives it back.
\<close>

section \<open>UTF-8\<close>

definition byte :: "char \<Rightarrow> nat" where
  "byte c = of_char c"

definition in_range :: "nat \<Rightarrow> nat \<Rightarrow> char \<Rightarrow> bool" where
  "in_range lo hi c \<longleftrightarrow> lo \<le> byte c \<and> byte c \<le> hi"

definition cont :: "char \<Rightarrow> bool" where
  "cont = in_range 0x80 0xBF"

definition three_ok :: "char \<Rightarrow> char \<Rightarrow> bool" where
  "three_ok a b \<longleftrightarrow>
     (if byte a = 0xE0 then in_range 0xA0 0xBF b
      else if byte a = 0xED then in_range 0x80 0x9F b
      else in_range 0xE1 0xEF a \<and> cont b)"

definition four_ok :: "char \<Rightarrow> char \<Rightarrow> bool" where
  "four_ok a b \<longleftrightarrow>
     (if byte a = 0xF0 then in_range 0x90 0xBF b
      else if byte a = 0xF4 then in_range 0x80 0x8F b
      else in_range 0xF1 0xF3 a \<and> cont b)"

text \<open>The length of the multi-byte character a string starts with; 0 when it starts with none
  (\<open>utf8.DecodeRune\<close> returns \<open>RuneError\<close> and width 1).\<close>

definition rune_len :: "string \<Rightarrow> nat" where
  "rune_len s =
     (case s of
        a # b # t \<Rightarrow>
          if in_range 0xC2 0xDF a \<and> cont b then 2
          else (case t of
                  c # u \<Rightarrow>
                    if three_ok a b \<and> cont c then 3
                    else (case u of
                            d # _ \<Rightarrow> if four_ok a b \<and> cont c \<and> cont d then 4 else 0
                          | [] \<Rightarrow> 0)
                | [] \<Rightarrow> 0)
      | _ \<Rightarrow> 0)"

definition replacement :: string where
  "replacement = [CHR 0xEF, CHR 0xBF, CHR 0xBD]"

text \<open>\<open>utf8.EncodeRune\<close>.\<close>

definition encode_rune :: "nat \<Rightarrow> string" where
  "encode_rune r =
     (if r < 0x80 then [char_of r]
      else if r < 0x800 then [char_of (0xC0 + r div 64), char_of (0x80 + r mod 64)]
      else if 0xD800 \<le> r \<and> r \<le> 0xDFFF \<or> 0x10FFFF < r then replacement
      else if r < 0x10000 then
        [char_of (0xE0 + r div 4096), char_of (0x80 + r div 64 mod 64), char_of (0x80 + r mod 64)]
      else
        [char_of (0xF0 + r div 262144), char_of (0x80 + r div 4096 mod 64),
         char_of (0x80 + r div 64 mod 64), char_of (0x80 + r mod 64)])"

text \<open>A string with every invalid byte replaced.\<close>

function (sequential) to_utf8 :: "string \<Rightarrow> string" where
  "to_utf8 [] = []"
| "to_utf8 (c # s) =
     (if byte c < 0x80 then c # to_utf8 s
      else if rune_len (c # s) = 0 then replacement @ to_utf8 s
      else take (rune_len (c # s)) (c # s) @ to_utf8 (drop (rune_len (c # s) - 1) s))"
  by pat_completeness auto
termination
  by (relation "measure length") auto

lemma to_utf8_ascii: "\<forall>c \<in> set s. byte c < 0x80 \<Longrightarrow> to_utf8 s = s"
  by (induction s) simp_all

section \<open>Text of a value\<close>

datatype json =
    JNull
  | JBool bool
  | JNum string
  | JStr string
  | JArr "json list"
  | JObj "(string \<times> json) list"

definition hex_digit :: "nat \<Rightarrow> char" where
  "hex_digit n = (if n < 10 then char_of (48 + n) else char_of (87 + n))"

definition u_escape :: "nat \<Rightarrow> string" where
  "u_escape r =
     [CHR 0x5C, CHR ''u'', hex_digit (r div 4096), hex_digit (r div 256 mod 16),
      hex_digit (r div 16 mod 16), hex_digit (r mod 16)]"

text \<open>\<open>htmlSafeSet\<close> and the escapes of \<open>appendString\<close>.\<close>

definition quote_ascii :: "char \<Rightarrow> string" where
  "quote_ascii c =
     (if c = CHR 0x22 \<or> c = CHR 0x5C then [CHR 0x5C, c]
      else if byte c = 8 then [CHR 0x5C, CHR ''b'']
      else if byte c = 9 then [CHR 0x5C, CHR ''t'']
      else if byte c = 10 then [CHR 0x5C, CHR ''n'']
      else if byte c = 12 then [CHR 0x5C, CHR ''f'']
      else if byte c = 13 then [CHR 0x5C, CHR ''r'']
      else if byte c < 0x20 \<or> c = CHR ''<'' \<or> c = CHR ''>'' \<or> c = CHR 0x26 then u_escape (byte c)
      else [c])"

definition quote_rune :: "string \<Rightarrow> string" where
  "quote_rune s =
     (if s = [CHR 0xE2, CHR 0x80, CHR 0xA8] then u_escape 0x2028
      else if s = [CHR 0xE2, CHR 0x80, CHR 0xA9] then u_escape 0x2029
      else s)"

function (sequential) quote_body :: "string \<Rightarrow> string" where
  "quote_body [] = []"
| "quote_body (c # s) =
     (if byte c < 0x80 then quote_ascii c @ quote_body s
      else if rune_len (c # s) = 0 then u_escape 0xFFFD @ quote_body s
      else quote_rune (take (rune_len (c # s)) (c # s)) @ quote_body (drop (rune_len (c # s) - 1) s))"
  by pat_completeness auto
termination
  by (relation "measure length") auto

definition quote :: "string \<Rightarrow> string" where
  "quote s = CHR 0x22 # quote_body s @ [CHR 0x22]"

fun commas :: "string list \<Rightarrow> string" where
  "commas [] = []"
| "commas [x] = x"
| "commas (x # y # ys) = x @ CHR '','' # commas (y # ys)"

fun json_text :: "json \<Rightarrow> string" where
  "json_text JNull = ''null''"
| "json_text (JBool b) = (if b then ''true'' else ''false'')"
| "json_text (JNum n) = n"
| "json_text (JStr s) = quote s"
| "json_text (JArr js) = CHR ''['' # commas (map json_text js) @ '']''"
| "json_text (JObj ms) = CHR ''{'' # commas (map (\<lambda>(k, j). quote k @ CHR '':'' # json_text j) ms) @ ''}''"

section \<open>Reading a value\<close>

definition is_ws :: "char \<Rightarrow> bool" where
  "is_ws c \<longleftrightarrow> byte c \<in> {9, 10, 13, 32}"

definition skip_ws :: "string \<Rightarrow> string" where
  "skip_ws s = dropWhile is_ws s"

lemma skip_ws_length: "length (skip_ws s) \<le> length s"
  by (simp add: skip_ws_def length_dropWhile_le)

text \<open>A number literal: an integer part without leading zeros, a fraction, an exponent.\<close>

definition lex_int :: "string \<Rightarrow> (string \<times> string) option" where
  "lex_int s =
     (case s of
        [] \<Rightarrow> None
      | c # t \<Rightarrow>
          if c = CHR ''0'' then Some ([c], t)
          else if is_digit c then Some (takeWhile is_digit s, dropWhile is_digit s)
          else None)"

definition lex_digits :: "string \<Rightarrow> (string \<times> string) option" where
  "lex_digits s =
     (if takeWhile is_digit s = [] then None else Some (takeWhile is_digit s, dropWhile is_digit s))"

definition lex_after :: "string \<Rightarrow> (string \<times> string) option \<Rightarrow> (string \<times> string) option" where
  "lex_after p r = map_option (\<lambda>(a, b). (p @ a, b)) r"

definition lex_frac :: "string \<Rightarrow> (string \<times> string) option" where
  "lex_frac s =
     (case s of
        [] \<Rightarrow> Some ([], s)
      | c # t \<Rightarrow> if c = CHR ''.'' then lex_after [c] (lex_digits t) else Some ([], s))"

definition lex_exp :: "string \<Rightarrow> (string \<times> string) option" where
  "lex_exp s =
     (case s of
        [] \<Rightarrow> Some ([], s)
      | c # t \<Rightarrow>
          if c = CHR ''e'' \<or> c = CHR ''E'' then
            (case t of
               [] \<Rightarrow> None
             | d # u \<Rightarrow>
                 if d = CHR ''+'' \<or> d = CHR ''-'' then lex_after [c, d] (lex_digits u)
                 else lex_after [c] (lex_digits t))
          else Some ([], s))"

definition lex_then :: "(string \<times> string) option \<Rightarrow> (string \<Rightarrow> (string \<times> string) option) \<Rightarrow> (string \<times> string) option"
  where
  "lex_then r f = (case r of None \<Rightarrow> None | Some (a, t) \<Rightarrow> lex_after a (f t))"

definition lex_num :: "string \<Rightarrow> (string \<times> string) option" where
  "lex_num s =
     (let digits = (\<lambda>t. lex_then (lex_then (lex_int t) lex_frac) lex_exp) in
      case s of
        [] \<Rightarrow> None
      | c # t \<Rightarrow> if c = CHR ''-'' then lex_after [c] (digits t) else digits s)"

text \<open>The four hexadecimal digits of an escape.\<close>

definition hex_val :: "char \<Rightarrow> nat option" where
  "hex_val c =
     (if is_digit c then Some (byte c - 48)
      else if in_range 0x61 0x66 c then Some (byte c - 87)
      else if in_range 0x41 0x46 c then Some (byte c - 55)
      else None)"

definition hex4 :: "string \<Rightarrow> (nat \<times> string) option" where
  "hex4 s =
     (case s of
        a # b # c # d # t \<Rightarrow>
          (case (hex_val a, hex_val b, hex_val c, hex_val d) of
             (Some p, Some q, Some r, Some v) \<Rightarrow> Some (((p * 16 + q) * 16 + r) * 16 + v, t)
           | _ \<Rightarrow> None)
      | _ \<Rightarrow> None)"

lemma hex4_length: "hex4 s = Some (r, t) \<Longrightarrow> length s = length t + 4"
  by (auto simp: hex4_def split: list.splits option.splits)

definition simple_escape :: "char \<Rightarrow> char option" where
  "simple_escape c =
     (if c = CHR 0x22 \<or> c = CHR 0x5C \<or> c = CHR 0x2F then Some c
      else if c = CHR ''b'' then Some (CHR 0x08)
      else if c = CHR ''f'' then Some (CHR 0x0C)
      else if c = CHR ''n'' then Some (CHR 0x0A)
      else if c = CHR ''r'' then Some (CHR 0x0D)
      else if c = CHR ''t'' then Some (CHR 0x09)
      else None)"

text \<open>What follows \<open>\u\<close>: a character of the basic plane, a surrogate pair in two escapes, or an unpaired
  surrogate, which becomes the replacement character.\<close>

definition low_surrogate :: "string \<Rightarrow> (nat \<times> string) option" where
  "low_surrogate s =
     (case s of
        a # b # t \<Rightarrow>
          if a = CHR 0x5C \<and> b = CHR ''u'' then
            (case hex4 t of
               Some (r, u) \<Rightarrow> if 0xDC00 \<le> r \<and> r \<le> 0xDFFF then Some (r, u) else None
             | None \<Rightarrow> None)
          else None
      | _ \<Rightarrow> None)"

definition lex_u :: "string \<Rightarrow> (string \<times> string) option" where
  "lex_u s =
     (case hex4 s of
        None \<Rightarrow> None
      | Some (r, t) \<Rightarrow>
          if 0xD800 \<le> r \<and> r \<le> 0xDBFF then
            (case low_surrogate t of
               Some (r1, u) \<Rightarrow> Some (encode_rune (0x10000 + (r - 0xD800) * 1024 + (r1 - 0xDC00)), u)
             | None \<Rightarrow> Some (replacement, t))
          else Some (encode_rune r, t))"

lemma low_surrogate_length: "low_surrogate s = Some (r, u) \<Longrightarrow> length u < length s"
  by (auto simp: low_surrogate_def split: list.splits option.splits if_splits dest!: hex4_length)

lemma lex_u_length: "lex_u s = Some (x, t) \<Longrightarrow> length t < length s"
  by (auto simp: lex_u_def split: option.splits if_splits dest!: hex4_length low_surrogate_length)

text \<open>The rest of a string literal after its opening quote.\<close>

function (sequential) lex_str :: "string \<Rightarrow> (string \<times> string) option" where
  "lex_str [] = None"
| "lex_str (c # s) =
     (if c = CHR 0x22 then Some ([], s)
      else if c = CHR 0x5C then
        (case s of
           [] \<Rightarrow> None
         | e # t \<Rightarrow>
             if e = CHR ''u'' then
               (case lex_u t of None \<Rightarrow> None | Some (x, u) \<Rightarrow> lex_after x (lex_str u))
             else
               (case simple_escape e of None \<Rightarrow> None | Some x \<Rightarrow> lex_after [x] (lex_str t)))
      else if byte c < 0x20 then None
      else if byte c < 0x80 then lex_after [c] (lex_str s)
      else if rune_len (c # s) = 0 then lex_after replacement (lex_str s)
      else lex_after (take (rune_len (c # s)) (c # s)) (lex_str (drop (rune_len (c # s) - 1) s)))"
  by pat_completeness auto
termination
  by (relation "measure length") (auto dest!: lex_u_length)

declare lex_str.simps [simp del]

text \<open>Values. The number is how many levels of nesting are still allowed. A recursive call whose text is
  not shorter than the caller's cannot happen; the comparison makes termination evident.\<close>

definition max_nesting :: nat where
  "max_nesting = 10000"

definition literal :: "string \<Rightarrow> json \<Rightarrow> string \<Rightarrow> (json \<times> string) option" where
  "literal w j s = (if HasPrefix s w then Some (j, drop (length w) s) else None)"

function (sequential) parse_value :: "nat \<Rightarrow> string \<Rightarrow> (json \<times> string) option"
  and parse_elems :: "nat \<Rightarrow> string \<Rightarrow> (json list \<times> string) option"
  and parse_members :: "nat \<Rightarrow> string \<Rightarrow> ((string \<times> json) list \<times> string) option" where
  "parse_value d s =
     (case skip_ws s of
        [] \<Rightarrow> None
      | c # t \<Rightarrow>
          if c = CHR ''{'' then
            (if d = 0 then None
             else if HasPrefix (skip_ws t) ''}'' then Some (JObj [], tl (skip_ws t))
             else map_option (\<lambda>(ms, u). (JObj ms, u)) (parse_members (d - 1) t))
          else if c = CHR ''['' then
            (if d = 0 then None
             else if HasPrefix (skip_ws t) '']'' then Some (JArr [], tl (skip_ws t))
             else map_option (\<lambda>(js, u). (JArr js, u)) (parse_elems (d - 1) t))
          else if c = CHR 0x22 then map_option (\<lambda>(x, u). (JStr x, u)) (lex_str t)
          else if c = CHR ''n'' then literal ''null'' JNull (c # t)
          else if c = CHR ''t'' then literal ''true'' (JBool True) (c # t)
          else if c = CHR ''f'' then literal ''false'' (JBool False) (c # t)
          else map_option (\<lambda>(x, u). (JNum x, u)) (lex_num (c # t)))"
| "parse_elems d s =
     (case parse_value d s of
        None \<Rightarrow> None
      | Some (j, t) \<Rightarrow>
          (case skip_ws t of
             [] \<Rightarrow> None
           | c # u \<Rightarrow>
               if c = CHR '']'' then Some ([j], u)
               else if c = CHR '','' \<and> length u < length s then
                 map_option (\<lambda>(js, v). (j # js, v)) (parse_elems d u)
               else None))"
| "parse_members d s =
     (case skip_ws s of
        [] \<Rightarrow> None
      | q # s1 \<Rightarrow>
          if q \<noteq> CHR 0x22 then None else
          (case lex_str s1 of
             None \<Rightarrow> None
           | Some (k, s2) \<Rightarrow>
               (case skip_ws s2 of
                  [] \<Rightarrow> None
                | c # s3 \<Rightarrow>
                    if c \<noteq> CHR '':'' \<or> \<not> length s3 < length s then None else
                    (case parse_value d s3 of
                       None \<Rightarrow> None
                     | Some (j, s4) \<Rightarrow>
                         (case skip_ws s4 of
                            [] \<Rightarrow> None
                          | e # s5 \<Rightarrow>
                              if e = CHR ''}'' then Some ([(k, j)], s5)
                              else if e = CHR '','' \<and> length s5 < length s then
                                map_option (\<lambda>(ms, s6). ((k, j) # ms, s6)) (parse_members d s5)
                              else None)))))"
  by pat_completeness auto
termination
proof (relation "measure (\<lambda>x. case x of Inl (d, s) \<Rightarrow> 2 * length s
    | Inr (Inl (d, s)) \<Rightarrow> 2 * length s + 1 | Inr (Inr (d, s)) \<Rightarrow> 2 * length s)", goal_cases)
  have shorter: "skip_ws s = x # t \<Longrightarrow> length t < length s" for s x t
    using skip_ws_length [of s] by simp
  case (2 d s x t)
  then show ?case using shorter [of s x t] by simp
next
  case (3 d s x t)
  then show ?case using skip_ws_length [of s] by simp
qed auto

declare parse_value.simps [simp del] parse_elems.simps [simp del] parse_members.simps [simp del]

text \<open>\<open>json.Unmarshal\<close> takes one value surrounded by white space; \<open>Decoder.Decode\<close> takes the first value
  of a stream and leaves the rest.\<close>

definition parse_document :: "string \<Rightarrow> json option" where
  "parse_document s =
     (case parse_value max_nesting s of
        Some (j, t) \<Rightarrow> if skip_ws t = [] then Some j else None
      | None \<Rightarrow> None)"

definition parse_first :: "string \<Rightarrow> json option" where
  "parse_first s = map_option fst (parse_value max_nesting s)"

section \<open>Reading what was printed: strings\<close>

lemma lex_after_simps [simp]:
  "lex_after p None = None" "lex_after p (Some (a, b)) = Some (p @ a, b)"
  by (simp_all add: lex_after_def)

lemma lex_after_append: "lex_after p (lex_after q r) = lex_after (p @ q) r"
  by (cases r) (auto simp: lex_after_def)

lemma byte_neq: "byte c \<noteq> byte d \<Longrightarrow> c \<noteq> d"
  by auto

lemma byte_char_of [simp]: "n < 256 \<Longrightarrow> byte (char_of n) = n"
  by (simp add: byte_def)

lemma char_of_byte [simp]: "char_of (byte c) = c"
  by (simp add: byte_def)

lemma byte_inject: "byte c = byte d \<longleftrightarrow> c = d"
  by (auto simp: byte_def)

lemma byte_controls:
  "byte c = 8 \<longleftrightarrow> c = CHR 0x08" "byte c = 9 \<longleftrightarrow> c = CHR 0x09" "byte c = 10 \<longleftrightarrow> c = CHR 0x0A"
  "byte c = 12 \<longleftrightarrow> c = CHR 0x0C" "byte c = 13 \<longleftrightarrow> c = CHR 0x0D"
  by (simp_all flip: byte_inject add: byte_def)

lemma char_ofI: "byte c = n \<Longrightarrow> char_of n = c"
  by auto

lemma encode_rune_literals:
  "encode_rune 0x2028 = [CHR 0xE2, CHR 0x80, CHR 0xA8]"
  "encode_rune 0x2029 = [CHR 0xE2, CHR 0x80, CHR 0xA9]"
  "encode_rune 0xFFFD = replacement"
  by (simp_all add: encode_rune_def replacement_def char_ofI byte_def)

lemma rune_len_take:
  assumes "rune_len s = n" "n > 0"
  shows "rune_len (take n s @ t) = n \<and> n \<le> length s"
  using assms by (auto simp: rune_len_def split: list.splits if_splits)

lemma rune_len_cases: "rune_len s = 0 \<or> rune_len s \<in> {2, 3, 4}"
  by (auto simp: rune_len_def split: list.splits)

lemma hex_val_digit: "n < 16 \<Longrightarrow> hex_val (hex_digit n) = Some n"
  by (auto simp: hex_val_def hex_digit_def is_digit_def in_range_def byte_def)

lemma hex_sum: "((r div 4096 * 16 + r div 256 mod 16) * 16 + r div 16 mod 16) * 16 + r mod 16 = (r :: nat)"
proof -
  have "r div 256 = r div 16 div 16" "r div 4096 = r div 16 div 16 div 16"
    by (simp_all flip: div_mult2_eq)
  then show ?thesis by (simp only: div_mult_mod_eq)
qed

lemma hex4_u: "r < 65536 \<Longrightarrow> hex4 (drop 2 (u_escape r) @ t) = Some (r, t)"
  using hex_sum [of r] by (simp add: hex4_def u_escape_def hex_val_digit del: add_mult_distrib)

lemma lex_u_escape:
  assumes "r < 65536" "\<not> (0xD800 \<le> r \<and> r \<le> 0xDFFF)"
  shows "lex_str (u_escape r @ t) = lex_after (encode_rune r) (lex_str t)"
proof -
  have "lex_str (u_escape r @ t) = lex_str (CHR 0x5C # CHR ''u'' # drop 2 (u_escape r) @ t)"
    by (simp add: u_escape_def)
  moreover have "lex_u (drop 2 (u_escape r) @ t) = Some (encode_rune r, t)"
    using assms by (auto simp: lex_u_def hex4_u)
  ultimately show ?thesis by (simp add: lex_str.simps(2) [of "CHR 0x5C"])
qed

lemma quote_ascii_plain:
  assumes "c \<noteq> CHR 0x22" "c \<noteq> CHR 0x5C" "byte c \<notin> {8, 9, 10, 12, 13}"
  shows "quote_ascii c = u_escape (byte c) \<or> quote_ascii c = [c] \<and> byte c \<ge> 0x20"
  using assms by (simp add: quote_ascii_def)

lemma lex_quote_ascii:
  assumes "byte c < 0x80"
  shows "lex_str (quote_ascii c @ t) = lex_after [c] (lex_str t)"
proof -
  consider "c = CHR 0x22 \<or> c = CHR 0x5C" | "byte c \<in> {8, 9, 10, 12, 13}"
    | "c \<noteq> CHR 0x22" "c \<noteq> CHR 0x5C" "quote_ascii c = u_escape (byte c) \<or> quote_ascii c = [c] \<and> byte c \<ge> 0x20"
    using quote_ascii_plain by blast
  then show ?thesis
  proof cases
    case 1
    then show ?thesis
      by (auto simp: quote_ascii_def lex_str.simps(2) [of "CHR 0x5C"] simple_escape_def)
  next
    case 2
    then have "c \<in> {CHR 0x08, CHR 0x09, CHR 0x0A, CHR 0x0C, CHR 0x0D}"
      by (auto simp: byte_controls)
    then show ?thesis
      by (elim insertE emptyE; hypsubst)
        (simp_all add: quote_ascii_def lex_str.simps(2) [of "CHR 0x5C"] simple_escape_def byte_def)
  next
    case 3
    with assms show ?thesis by (auto simp: lex_u_escape encode_rune_def lex_str.simps(2) [of c])
  qed
qed

lemma lex_quote_rune:
  assumes "rune_len (c # s) = n" "n > 0" "byte c \<ge> 0x80"
  shows "lex_str (quote_rune (take n (c # s)) @ t) = lex_after (take n (c # s)) (lex_str t)"
proof (cases "quote_rune (take n (c # s)) = take n (c # s)")
  case True
  from assms(2) obtain m where n: "n = Suc m" by (cases n) auto
  have c: "c \<noteq> CHR 0x22" "c \<noteq> CHR 0x5C" "\<not> byte c < 0x20" "\<not> byte c < 0x80"
    using assms(3) by (auto simp: byte_def)
  have l: "rune_len (c # take m s @ t) = Suc m" "m \<le> length s"
    using rune_len_take [OF assms(1,2), of t] n by simp_all
  have "lex_str (c # take m s @ t) = lex_after (take (Suc m) (c # take m s @ t)) (lex_str (drop m (take m s @ t)))"
    using c l by (simp add: lex_str.simps(2) [of c])
  with True n l(2) show ?thesis by simp
next
  case False
  then consider "take n (c # s) = [CHR 0xE2, CHR 0x80, CHR 0xA8]" | "take n (c # s) = [CHR 0xE2, CHR 0x80, CHR 0xA9]"
    by (auto simp: quote_rune_def split: if_splits)
  then show ?thesis
    by cases (simp_all add: quote_rune_def lex_u_escape encode_rune_literals)
qed

lemma lex_quote_body: "lex_str (quote_body s @ CHR 0x22 # t) = Some (to_utf8 s, t)"
proof (induction s rule: quote_body.induct)
  case 1
  then show ?case by (simp add: lex_str.simps)
next
  case (2 c s)
  then show ?case
    by (simp add: lex_quote_ascii lex_quote_rune lex_u_escape encode_rune_literals)
qed

section \<open>Reading what was printed: numbers\<close>

text \<open>A text that cannot continue a number.\<close>

definition num_end :: "string \<Rightarrow> bool" where
  "num_end t \<longleftrightarrow> t = [] \<or> (\<not> is_digit (hd t) \<and> hd t \<notin> {CHR ''.'', CHR ''e'', CHR ''E''})"

lemma num_end_simps [simp]:
  "num_end []" "num_end (CHR '','' # t)" "num_end (CHR '']'' # t)" "num_end (CHR ''}'' # t)"
  by (simp_all add: num_end_def is_digit_def)

lemma digits_append:
  assumes "num_end t"
  shows "takeWhile is_digit (s @ t) = takeWhile is_digit s" "dropWhile is_digit (s @ t) = dropWhile is_digit s @ t"
proof -
  from assms have "takeWhile is_digit t = []" "dropWhile is_digit t = t"
    by (cases t, auto simp: num_end_def)+
  then show "takeWhile is_digit (s @ t) = takeWhile is_digit s" "dropWhile is_digit (s @ t) = dropWhile is_digit s @ t"
    by (induction s) auto
qed

lemma lex_after_Some: "lex_after p r = Some (a, b) \<longleftrightarrow> (\<exists>c. r = Some (c, b) \<and> a = p @ c)"
  by (auto simp: lex_after_def)

lemma lex_digits_append: "lex_digits s = Some (a, b) \<Longrightarrow> num_end t \<Longrightarrow> lex_digits (s @ t) = Some (a, b @ t)"
  by (auto simp: lex_digits_def digits_append split: if_splits)

lemma lex_int_append: "lex_int s = Some (a, b) \<Longrightarrow> num_end t \<Longrightarrow> lex_int (s @ t) = Some (a, b @ t)"
  using digits_append [of t s] by (cases s) (auto simp: lex_int_def split: if_splits)

lemma lex_frac_append: "lex_frac s = Some (a, b) \<Longrightarrow> num_end t \<Longrightarrow> lex_frac (s @ t) = Some (a, b @ t)"
proof (cases s)
  case Nil
  then show "lex_frac s = Some (a, b) \<Longrightarrow> num_end t \<Longrightarrow> lex_frac (s @ t) = Some (a, b @ t)"
    by (cases t) (auto simp: lex_frac_def num_end_def)
qed (auto simp: lex_frac_def lex_after_Some dest: lex_digits_append split: if_splits)

lemma lex_exp_append:
  assumes "lex_exp s = Some (a, b)" "num_end t"
  shows "lex_exp (s @ t) = Some (a, b @ t)"
proof (cases s)
  case Nil
  with assms show ?thesis by (cases t) (auto simp: lex_exp_def num_end_def)
next
  case (Cons c u)
  have d: "lex_digits v = Some (x, y) \<Longrightarrow> lex_digits (v @ t) = Some (x, y @ t)" for v x y
    using lex_digits_append assms(2) by blast
  show ?thesis
  proof (cases u)
    case Nil
    with Cons assms show ?thesis by (auto simp: lex_exp_def split: if_splits)
  next
    case (Cons e v)
    with \<open>s = c # u\<close> assms(1) show ?thesis
      using d [of "e # v"] d [of v] by (auto simp: lex_exp_def lex_after_Some split: if_splits)
  qed
qed

lemma lex_then_append:
  assumes "lex_then r f = Some (a, b)" "\<And>a b. r = Some (a, b) \<Longrightarrow> r' = Some (a, b @ t)"
    "\<And>s a b. f s = Some (a, b) \<Longrightarrow> f (s @ t) = Some (a, b @ t)"
  shows "lex_then r' f = Some (a, b @ t)"
  using assms(1,2) by (auto simp: lex_then_def lex_after_Some dest: assms(3) split: option.splits prod.splits)

lemma lex_num_append:
  assumes "lex_num s = Some (a, b)" "num_end t"
  shows "lex_num (s @ t) = Some (a, b @ t)"
proof -
  let ?digits = "\<lambda>t. lex_then (lex_then (lex_int t) lex_frac) lex_exp"
  have d: "?digits s = Some (a, b) \<Longrightarrow> ?digits (s @ t) = Some (a, b @ t)" for s a b
    using assms(2)
    by (elim lex_then_append) (auto intro: lex_int_append lex_frac_append lex_exp_append)
  from assms(1) show ?thesis
    using d [of s] d [of "tl s"] by (cases s) (auto simp: lex_num_def lex_after_Some split: if_splits)
qed

definition number_ok :: "string \<Rightarrow> bool" where
  "number_ok n \<longleftrightarrow> lex_num n = Some (n, [])"

lemma number_ok_head:
  assumes "number_ok n"
  shows "n \<noteq> [] \<and> (is_digit (hd n) \<or> hd n = CHR ''-'')"
  using assms
  by (cases n) (auto simp: number_ok_def lex_num_def lex_then_def lex_int_def is_digit_def split: if_splits option.splits)

lemma nat_str_head: "hd (nat_str n) = CHR ''0'' \<Longrightarrow> n = 0"
proof (induction n rule: nat_str.induct)
  case (1 n)
  show ?case
  proof (cases "n < 10")
    case True
    with 1(2) have "digit_char n = CHR ''0''" by (simp add: nat_str.simps [of n])
    then have "digit_val (digit_char n) = 0" by (simp add: digit_val_def)
    with True show ?thesis by simp
  next
    case False
    with 1 have "n div 10 = 0" by (simp add: nat_str.simps [of n])
    with False show ?thesis by simp
  qed
qed

lemma nat_str_0: "nat_str 0 = ''0''"
  by (simp add: nat_str.simps digit_char_def char_ofI byte_def)

lemma number_ok_nat_str: "number_ok (nat_str n)"
proof (cases "n = 0")
  case True
  then show ?thesis by (simp add: nat_str_0 number_ok_def lex_num_def lex_then_def lex_int_def lex_frac_def lex_exp_def)
next
  case False
  obtain c t where s: "nat_str n = c # t" using nat_str_not_Nil by (cases "nat_str n") auto
  have "is_digit c" "\<forall>x \<in> set (nat_str n). is_digit x" using nat_str_digits [of n] s by auto
  moreover have "c \<noteq> CHR ''0''" using nat_str_head [of n] False s by auto
  moreover have "c \<noteq> CHR ''-''" using \<open>is_digit c\<close> by (auto simp: is_digit_def)
  ultimately show ?thesis
    by (simp add: number_ok_def lex_num_def lex_then_def lex_int_def s lex_frac_def lex_exp_def takeWhile_eq_all_conv [THEN iffD2]
        dropWhile_eq_Nil_conv [THEN iffD2])
qed

section \<open>Reading what was printed: values\<close>

text \<open>Values the encoder can print: every number literal is one, and the nesting is within the limit.\<close>

fun fits :: "nat \<Rightarrow> json \<Rightarrow> bool" where
  "fits d (JNum n) = number_ok n"
| "fits d (JArr js) = (d > 0 \<and> (\<forall>j \<in> set js. fits (d - 1) j))"
| "fits d (JObj ms) = (d > 0 \<and> (\<forall>(k, j) \<in> set ms. fits (d - 1) j))"
| "fits d j = True"

fun json_utf8 :: "json \<Rightarrow> json" where
  "json_utf8 (JStr s) = JStr (to_utf8 s)"
| "json_utf8 (JArr js) = JArr (map json_utf8 js)"
| "json_utf8 (JObj ms) = JObj (map (\<lambda>(k, j). (to_utf8 k, json_utf8 j)) ms)"
| "json_utf8 j = j"

lemma text_head:
  assumes "fits d j"
  shows "\<exists>c t. json_text j = c # t \<and> \<not> is_ws c \<and> c \<noteq> CHR '']'' \<and> c \<noteq> CHR ''}''"
proof (cases j)
  case (JNum n)
  with assms number_ok_head [of n] show ?thesis
    by (cases n) (auto simp: is_ws_def is_digit_def byte_def)
qed (auto simp: is_ws_def quote_def byte_def)

lemma skip_ws_simps [simp]:
  "\<not> is_ws c \<Longrightarrow> skip_ws (c # t) = c # t" "skip_ws [] = []"
  by (simp_all add: skip_ws_def)

lemma not_ws [simp]:
  "\<not> is_ws (CHR '','')" "\<not> is_ws (CHR '']'')" "\<not> is_ws (CHR ''}'')" "\<not> is_ws (CHR '':'')" "\<not> is_ws (CHR 0x22)"
  "\<not> is_ws (CHR ''{'')" "\<not> is_ws (CHR ''['')" "\<not> is_ws (CHR ''n'')" "\<not> is_ws (CHR ''t'')" "\<not> is_ws (CHR ''f'')"
  by (simp_all add: is_ws_def byte_def)

definition reads_back :: "nat \<Rightarrow> json \<Rightarrow> bool" where
  "reads_back d j \<longleftrightarrow>
     (\<forall>t. num_end t \<longrightarrow> parse_value d (json_text j @ t) = Some (json_utf8 j, t))"

lemma reads_backD: "reads_back d j \<Longrightarrow> num_end t \<Longrightarrow> parse_value d (json_text j @ t) = Some (json_utf8 j, t)"
  by (simp add: reads_back_def)

lemma elems_back:
  assumes "js \<noteq> []" "\<forall>j \<in> set js. reads_back d j"
  shows "parse_elems d (commas (map json_text js) @ CHR '']'' # t) = Some (map json_utf8 js, t)"
  using assms
proof (induction js)
  case (Cons j js)
  then have j: "num_end u \<Longrightarrow> parse_value d (json_text j @ u) = Some (json_utf8 j, u)" for u
    by (simp add: reads_backD)
  show ?case
  proof (cases js)
    case Nil
    then show ?thesis by (simp add: parse_elems.simps j)
  next
    case (Cons j' js')
    have "parse_elems d (commas (map json_text js) @ CHR '']'' # t) = Some (map json_utf8 js, t)"
      using Cons.IH Cons.prems Cons by simp
    then show ?thesis
      by (subst parse_elems.simps) (simp add: j Cons)
  qed
qed simp

lemma members_back:
  assumes "ms \<noteq> []" "\<forall>(k, j) \<in> set ms. reads_back d j"
  shows "parse_members d (commas (map (\<lambda>(k, j). quote k @ CHR '':'' # json_text j) ms) @ CHR ''}'' # t) =
    Some (map (\<lambda>(k, j). (to_utf8 k, json_utf8 j)) ms, t)"
  using assms
proof (induction ms)
  case (Cons m ms)
  obtain k j where m: "m = (k, j)" by fastforce
  with Cons have j: "num_end u \<Longrightarrow> parse_value d (json_text j @ u) = Some (json_utf8 j, u)" for u
    by (simp add: reads_backD)
  show ?case
  proof (cases ms)
    case Nil
    then show ?thesis by (subst parse_members.simps) (simp add: m j quote_def lex_quote_body)
  next
    case (Cons m' ms')
    have "parse_members d (commas (map (\<lambda>(k, j). quote k @ CHR '':'' # json_text j) ms) @ CHR ''}'' # t) =
        Some (map (\<lambda>(k, j). (to_utf8 k, json_utf8 j)) ms, t)"
      using Cons.IH Cons.prems Cons by simp
    then show ?thesis
      by (subst parse_members.simps) (simp add: m j quote_def lex_quote_body Cons)
  qed
qed simp

lemma value_back: "fits d j \<Longrightarrow> reads_back d j"
proof (induction j arbitrary: d)
  case (JNum n)
  then have n: "number_ok n" by simp
  then obtain c u where c: "n = c # u" "is_digit c \<or> c = CHR ''-''"
    using number_ok_head [OF n] by (cases n) auto
  then have "\<not> is_ws c" "c \<notin> {CHR ''{'', CHR ''['', CHR 0x22, CHR ''n'', CHR ''t'', CHR ''f''}"
    by (auto simp: is_digit_def is_ws_def byte_def)
  moreover have "num_end t \<Longrightarrow> lex_num (n @ t) = Some (n, t)" for t
    using n lex_num_append [of n n "[]" t] by (simp add: number_ok_def)
  ultimately show ?case using c(1) by (simp add: reads_back_def parse_value.simps)
next
  case (JArr js)
  then have *: "\<forall>j \<in> set js. reads_back (d - 1) j" "d > 0" by auto
  show ?case
  proof (cases js)
    case Nil
    with * show ?thesis by (simp add: reads_back_def parse_value.simps HasPrefix_def)
  next
    case (Cons j js')
    with JArr.prems text_head [of "d - 1" j] obtain c u where "json_text j = c # u" "\<not> is_ws c" "c \<noteq> CHR '']''"
      by auto
    then have "\<not> HasPrefix (skip_ws (commas (map json_text js) @ t)) '']''" for t
      using Cons by (cases js') (simp_all add: HasPrefix_def)
    with * elems_back [of js "d - 1"] Cons show ?thesis
      by (simp add: reads_back_def parse_value.simps del: commas.simps)
  qed
next
  case (JObj ms)
  then have *: "\<forall>(k, j) \<in> set ms. reads_back (d - 1) j" "d > 0" by fastforce+
  show ?case
  proof (cases ms)
    case Nil
    with * show ?thesis by (simp add: reads_back_def parse_value.simps HasPrefix_def)
  next
    case (Cons m ms')
    then have "\<not> HasPrefix (skip_ws (commas (map (\<lambda>(k, j). quote k @ CHR '':'' # json_text j) ms) @ t)) ''}''" for t
      by (cases ms'; cases m) (simp_all add: HasPrefix_def quote_def)
    with * members_back [of ms "d - 1"] Cons show ?thesis
      by (simp add: reads_back_def parse_value.simps del: commas.simps)
  qed
qed (simp_all add: reads_back_def parse_value.simps literal_def HasPrefix_def quote_def lex_quote_body)

text \<open>A printed value is read back, alone or with a newline behind it.\<close>

lemma document_back:
  assumes "fits max_nesting j" "t = [] \<or> t = [CHR 0x0A]"
  shows "parse_document (json_text j @ t) = Some (json_utf8 j)" "parse_first (json_text j @ t) = Some (json_utf8 j)"
proof -
  have "num_end t" using assms(2) by (auto simp: num_end_def is_digit_def)
  then have "parse_value max_nesting (json_text j @ t) = Some (json_utf8 j, t)"
    using value_back [OF assms(1)] reads_backD by blast
  moreover have "skip_ws t = []" using assms(2) by (auto simp: skip_ws_def is_ws_def byte_def)
  ultimately show "parse_document (json_text j @ t) = Some (json_utf8 j)"
      "parse_first (json_text j @ t) = Some (json_utf8 j)"
    by (simp_all add: parse_document_def parse_first_def)
qed

section \<open>The printed text\<close>

text \<open>It has no control characters, in particular no newline.\<close>

definition printed :: "string \<Rightarrow> bool" where
  "printed s \<longleftrightarrow> (\<forall>c \<in> set s. byte c \<ge> 0x20)"

lemma printed_simps [simp]:
  "printed []" "printed (c # s) \<longleftrightarrow> byte c \<ge> 0x20 \<and> printed s" "printed (s @ t) \<longleftrightarrow> printed s \<and> printed t"
  by (auto simp: printed_def)

lemma printed_hex: "n < 16 \<Longrightarrow> byte (hex_digit n) \<ge> 0x20"
  by (simp add: hex_digit_def)

lemma printed_u: "r < 65536 \<Longrightarrow> printed (u_escape r)"
  using printed_hex [of "r div 4096"] printed_hex [of "r div 256 mod 16"] printed_hex [of "r div 16 mod 16"]
    printed_hex [of "r mod 16"]
  by (simp add: u_escape_def) (simp add: byte_def)

lemma byte_letters:
  "byte (CHR 0x22) = 0x22" "byte (CHR 0x5C) = 0x5C" "byte (CHR ''b'') = 0x62" "byte (CHR ''t'') = 0x74"
  "byte (CHR ''n'') = 0x6E" "byte (CHR ''f'') = 0x66" "byte (CHR ''r'') = 0x72"
  by (simp_all add: byte_def)

lemma printed_ascii: "byte c < 0x80 \<Longrightarrow> printed (quote_ascii c)"
  using printed_u [of "byte c"] by (simp add: quote_ascii_def byte_letters)

lemma printed_take:
  assumes "rune_len s > 0" "s = c # t" "byte c \<ge> 0x80"
  shows "printed (take (rune_len s) s)"
  using assms
  by (auto simp: rune_len_def in_range_def cont_def three_ok_def four_ok_def split: list.splits if_splits)

lemma printed_rune:
  assumes "rune_len s > 0" "s = c # t" "byte c \<ge> 0x80"
  shows "printed (quote_rune (take (rune_len s) s))"
  using printed_take [OF assms] by (simp add: quote_rune_def printed_u)

lemma printed_quote: "printed (quote s)"
proof -
  have "printed (quote_body s)"
    by (induction s rule: quote_body.induct) (simp_all add: printed_ascii printed_u printed_rune)
  then show ?thesis by (simp add: quote_def byte_def)
qed

lemma printed_lex_after: "lex_after p r = Some (a, b) \<Longrightarrow> printed p \<Longrightarrow> (\<And>c b. r = Some (c, b) \<Longrightarrow> printed c) \<Longrightarrow> printed a"
  by (auto simp: lex_after_Some)

lemma printed_digits: "printed (takeWhile is_digit s)"
  by (auto simp: printed_def is_digit_def byte_def dest: set_takeWhileD)

lemma printed_num: "lex_num s = Some (a, b) \<Longrightarrow> printed a"
proof -
  have d: "lex_digits s = Some (a, b) \<Longrightarrow> printed a" for s a b
    by (auto simp: lex_digits_def printed_digits split: if_splits)
  have i: "lex_int s = Some (a, b) \<Longrightarrow> printed a" for s a b
    using printed_digits [of s]
    by (cases s) (auto simp: lex_int_def byte_def split: if_splits)
  have f: "lex_frac s = Some (a, b) \<Longrightarrow> printed a" for s a b
    by (cases s) (auto simp: lex_frac_def byte_def lex_after_Some split: if_splits dest: d)
  have e: "lex_exp s = Some (a, b) \<Longrightarrow> printed a" for s a b
    by (auto simp: lex_exp_def byte_def lex_after_Some split: if_splits list.splits dest: d)
  have t: "lex_then r g = Some (a, b) \<Longrightarrow> (\<And>a b. r = Some (a, b) \<Longrightarrow> printed a) \<Longrightarrow>
      (\<And>s a b. g s = Some (a, b) \<Longrightarrow> printed a) \<Longrightarrow> printed a" for r g a b
    by (auto simp: lex_then_def lex_after_Some split: option.splits)
  have n: "lex_then (lex_then (lex_int s) lex_frac) lex_exp = Some (a, b) \<Longrightarrow> printed a" for s a b
    by (elim t) (auto intro: i f e elim: t)
  show "lex_num s = Some (a, b) \<Longrightarrow> printed a"
    by (cases s) (auto simp: lex_num_def byte_def lex_after_Some split: if_splits dest: n)
qed

lemma printed_commas: "(\<forall>s \<in> set ss. printed s) \<Longrightarrow> printed (commas ss)"
  by (induction ss rule: commas.induct) (simp_all add: byte_def)

lemma printed_json: "fits d j \<Longrightarrow> printed (json_text j)"
proof (induction j arbitrary: d)
  case (JArr js)
  then have "\<forall>j \<in> set js. printed (json_text j)" by auto
  then have "printed (commas (map json_text js))" by (intro printed_commas) simp
  then show ?case by (simp add: byte_def)
next
  case (JObj ms)
  then have "\<forall>(k, j) \<in> set ms. printed (json_text j)" by fastforce
  then have "printed (commas (map (\<lambda>(k, j). quote k @ CHR '':'' # json_text j) ms))"
    by (intro printed_commas) (auto simp: printed_quote byte_def)
  then show ?case by (simp add: byte_def)
qed (auto simp: printed_quote number_ok_def byte_def dest: printed_num)

text \<open>Escaping makes a string at most six times as long.\<close>

lemma quote_ascii_length: "length (quote_ascii c) \<le> 6"
  by (simp add: quote_ascii_def u_escape_def)

lemma quote_rune_length: "length (quote_rune s) \<le> 2 * length s"
  by (auto simp: quote_rune_def u_escape_def)

lemma quote_body_length: "length (quote_body s) \<le> 6 * length s"
proof (induction s rule: quote_body.induct)
  case (2 c s)
  let ?n = "rune_len (c # s)"
  show ?case
  proof (cases "byte c < 0x80 \<or> ?n = 0")
    case True
    with 2 quote_ascii_length [of c] show ?thesis by (auto simp: u_escape_def)
  next
    case False
    then have n: "?n \<le> Suc (length s)" "?n > 0" using rune_len_take [of "c # s" ?n "[]"] by auto
    have "length (quote_rune (take ?n (c # s))) \<le> 2 * ?n"
      using quote_rune_length [of "take ?n (c # s)"] n by simp
    moreover have "length (quote_body (drop (?n - 1) s)) \<le> 6 * (Suc (length s) - ?n)"
      using 2(3) False n by simp
    ultimately show ?thesis using False n by simp
  qed
qed simp

lemma quote_length: "length (quote s) \<le> 6 * length s + 2"
  using quote_body_length [of s] by (simp add: quote_def)

end
