(* ===== verification/Wire.thy ===== *)
theory Wire
  imports Protocol Json
begin

text \<open>
  The JSON texts of the control socket: what \<open>encoding/json\<close> makes of the struct types and tags of
  \<open>control/server/protocol.go\<close>. A field tagged \<open>omitempty\<close> is left out when it is zero; a \<open>nil\<close> slice
  is \<open>null\<close> and an empty one \<open>[]\<close>, so the difference survives the socket. Decoding assigns into an existing
  value: \<open>null\<close> leaves a scalar or a struct as it is, a missing field keeps its value, a field
  name also matches with other capitals, an unknown field is skipped, a value of the wrong type or
  out of the range of its type is an error. The capacity of a slice beyond its length, visible
  only in a text that repeats a field three times, is not modelled.

  The library's part in texts that are not fixed here: the text of an error, and the shortest
  decimal of a \<open>float64\<close> (none for a NaN or an infinity) with the range check of reading one.
\<close>

record codec_env =
  co_errorText :: "fw_error \<Rightarrow> string"
  co_floatText :: "float64 \<Rightarrow> string option"
  co_floatRange :: "string \<Rightarrow> bool"

section \<open>Encoding\<close>

definition jfield :: "string \<Rightarrow> json \<Rightarrow> (string \<times> json) list" where
  "jfield k j = [(k, j)]"

definition omitempty :: "bool \<Rightarrow> string \<Rightarrow> json \<Rightarrow> (string \<times> json) list" where
  "omitempty absent k j = (if absent then [] else [(k, j)])"

definition juint :: "nat \<Rightarrow> json" where
  "juint n = JNum (nat_str n)"

definition jint :: "int \<Rightarrow> json" where
  "jint i = JNum (if i < 0 then CHR ''-'' # nat_str (nat (- i)) else nat_str (nat i))"

definition jslice :: "('a \<Rightarrow> json option) \<Rightarrow> 'a slice \<Rightarrow> json option" where
  "jslice f s =
     (case s of None \<Rightarrow> Some JNull | Some xs \<Rightarrow> map_option JArr (those (map f xs)))"

definition encode_Request :: "Request \<Rightarrow> json" where
  "encode_Request r = JObj (concat
     [jfield ''command'' (JStr (rq_Command r)),
      omitempty (rq_Value r = '''') ''value'' (JStr (rq_Value r)),
      omitempty (rq_Protocol r = '''') ''protocol'' (JStr (rq_Protocol r)),
      omitempty (rq_Port r = 0) ''port'' (juint (unat (rq_Port r))),
      omitempty (rq_SPort r = 0) ''sport'' (juint (unat (rq_SPort r))),
      omitempty (rq_Action r = '''') ''action'' (JStr (rq_Action r)),
      omitempty (rq_Priority r = 0) ''priority'' (juint (unat (rq_Priority r)))])"

definition encode_PortRule :: "PortRule \<Rightarrow> json" where
  "encode_PortRule r = JObj (concat
     [omitempty (pr_Protocol r = '''') ''protocol'' (JStr (pr_Protocol r)),
      omitempty (pr_Port r = 0) ''port'' (juint (unat (pr_Port r))),
      omitempty (pr_SPort r = 0) ''sport'' (juint (unat (pr_SPort r))),
      jfield ''dst'' (JStr (pr_Dst r)),
      jfield ''action'' (JStr (pr_Action r)),
      omitempty (pr_Priority r = 0) ''priority'' (juint (unat (pr_Priority r)))])"

definition encode_BlockedRule :: "BlockedRule \<Rightarrow> json" where
  "encode_BlockedRule r = JObj (concat
     [jfield ''cidr'' (JStr (br_Cidr r)),
      jfield ''action'' (JStr (br_Action r)),
      jfield ''priority'' (juint (unat (br_Priority r)))])"

definition encode_ConntrackEntry :: "codec_env \<Rightarrow> ConntrackEntry \<Rightarrow> json option" where
  "encode_ConntrackEntry env e =
     map_option (\<lambda>age. JObj (concat
       [jfield ''src'' (JStr (ce_Src e)),
        jfield ''dst'' (JStr (ce_Dst e)),
        jfield ''sport'' (juint (unat (ce_Sport e))),
        jfield ''dport'' (juint (unat (ce_Dport e))),
        jfield ''protocol'' (JStr (ce_Protocol e)),
        jfield ''state'' (JStr (ce_State e)),
        jfield ''age_seconds'' (JNum age)]))
     (co_floatText env (ce_AgeSeconds e))"

definition encode_Stats :: "Stats \<Rightarrow> json" where
  "encode_Stats s = JObj (concat
     [jfield ''total_packets'' (juint (unat (st_TotalPackets s))),
      jfield ''total_bytes'' (juint (unat (st_TotalBytes s))),
      jfield ''drop_packets'' (juint (unat (st_DropPackets s))),
      jfield ''drop_bytes'' (juint (unat (st_DropBytes s))),
      jfield ''pass_packets'' (juint (unat (st_PassPackets s))),
      jfield ''pass_bytes'' (juint (unat (st_PassBytes s)))])"

definition error_text :: "codec_env \<Rightarrow> fw_error option \<Rightarrow> string" where
  "error_text env e = (case e of None \<Rightarrow> '''' | Some err \<Rightarrow> co_errorText env err)"

definition encode_Response :: "codec_env \<Rightarrow> Response \<Rightarrow> json option" where
  "encode_Response env r =
     (case (jslice (Some \<circ> JStr) (rs_Blocked r), jslice (Some \<circ> encode_BlockedRule) (rs_BlockedRules r),
            jslice (Some \<circ> encode_PortRule) (rs_PortRules r), jslice (encode_ConntrackEntry env) (rs_Conntrack r)) of
        (Some blocked, Some blocked_rules, Some port_rules, Some conntrack) \<Rightarrow> Some (JObj (concat
          [jfield ''ok'' (JBool (rs_OK r)),
           omitempty (error_text env (rs_Error r) = '''') ''error'' (JStr (error_text env (rs_Error r))),
           jfield ''blocked'' blocked,
           jfield ''blocked_rules'' blocked_rules,
           omitempty (rs_Count r = 0) ''count'' (jint (rs_Count r)),
           omitempty (rs_Iface r = '''') ''interface'' (JStr (rs_Iface r)),
           omitempty (\<not> rs_Attached r) ''attached'' (JBool (rs_Attached r)),
           omitempty (rs_Stats r = None) ''stats'' (case rs_Stats r of None \<Rightarrow> JNull | Some s \<Rightarrow> encode_Stats s),
           jfield ''port_rules'' port_rules,
           jfield ''conntrack'' conntrack,
           omitempty (rs_Default r = '''') ''default_policy'' (JStr (rs_Default r)),
           omitempty (rs_AttachMode r = '''') ''attach_mode'' (JStr (rs_AttachMode r))]))
      | _ \<Rightarrow> None)"

section \<open>Decoding\<close>

type_synonym 'a decoder = "json \<Rightarrow> 'a \<Rightarrow> 'a option"

definition dec_string :: "string decoder" where
  "dec_string j x = (case j of JNull \<Rightarrow> Some x | JStr s \<Rightarrow> Some s | _ \<Rightarrow> None)"

definition dec_bool :: "bool decoder" where
  "dec_bool j x = (case j of JNull \<Rightarrow> Some x | JBool b \<Rightarrow> Some b | _ \<Rightarrow> None)"

definition dec_uint :: "('w :: len) word decoder" where
  "dec_uint j x =
     (case j of
        JNull \<Rightarrow> Some x
      | JNum n \<Rightarrow> map_option of_nat (ParseUint n LENGTH('w))
      | _ \<Rightarrow> None)"

text \<open>\<open>int\<close> is 64 bits wide: \<open>strconv.ParseInt\<close>.\<close>

definition dec_int :: "int decoder" where
  "dec_int j x =
     (case j of
        JNull \<Rightarrow> Some x
      | JNum n \<Rightarrow>
          (if HasPrefix n ''-'' then
             (case ParseUint (tl n) 64 of
                Some m \<Rightarrow> if m \<le> 2 ^ 63 then Some (- int m) else None
              | None \<Rightarrow> None)
           else map_option int (ParseUint n 63))
      | _ \<Rightarrow> None)"

definition dec_float :: "codec_env \<Rightarrow> float64 decoder" where
  "dec_float env j x =
     (case j of
        JNull \<Rightarrow> Some x
      | JNum n \<Rightarrow> if co_floatRange env n then Some (ParsedFloat n) else None
      | _ \<Rightarrow> None)"

fun dec_elems :: "'a decoder \<Rightarrow> 'a \<Rightarrow> json list \<Rightarrow> 'a list \<Rightarrow> 'a list option" where
  "dec_elems d zero [] old = Some []"
| "dec_elems d zero (j # js) old =
     (case d j (if old = [] then zero else hd old) of
        None \<Rightarrow> None
      | Some x \<Rightarrow> map_option (Cons x) (dec_elems d zero js (tl old)))"

definition dec_slice :: "'a decoder \<Rightarrow> 'a \<Rightarrow> 'a slice decoder" where
  "dec_slice d zero j old =
     (case j of
        JNull \<Rightarrow> Some None
      | JArr js \<Rightarrow> map_option Some (dec_elems d zero js (slice_list old))
      | _ \<Rightarrow> None)"

definition dec_pointer :: "'a decoder \<Rightarrow> 'a \<Rightarrow> 'a option decoder" where
  "dec_pointer d zero j old =
     (if j = JNull then Some None
      else map_option Some (d j (case old of None \<Rightarrow> zero | Some x \<Rightarrow> x)))"

text \<open>Structs. \<open>foldName\<close> brings a name to one capitalisation; besides the ASCII letters, only the Kelvin
  sign and the long s fold to a letter.\<close>

fun fold_name :: "string \<Rightarrow> string" where
  "fold_name [] = []"
| "fold_name (c # s) =
     (if HasPrefix (c # s) [CHR 0xE2, CHR 0x84, CHR 0xAA] then CHR ''k'' # fold_name (drop 2 s)
      else if HasPrefix (c # s) [CHR 0xC5, CHR 0xBF] then CHR ''s'' # fold_name (drop 1 s)
      else lower_char c # fold_name s)"

definition field :: "'a decoder \<Rightarrow> ('r \<Rightarrow> 'a) \<Rightarrow> ('a \<Rightarrow> 'r \<Rightarrow> 'r) \<Rightarrow> 'r decoder" where
  "field d get upd j r = map_option (\<lambda>x. upd x r) (d j (get r))"

definition find_field :: "(string \<times> 'r decoder) list \<Rightarrow> string \<Rightarrow> 'r decoder option" where
  "find_field fs k =
     (case map_of fs k of
        Some d \<Rightarrow> Some d
      | None \<Rightarrow> map_option snd (find (\<lambda>(n, d). fold_name n = fold_name k) fs))"

fun dec_members :: "(string \<times> 'r decoder) list \<Rightarrow> (string \<times> json) list \<Rightarrow> 'r \<Rightarrow> 'r option" where
  "dec_members fs [] r = Some r"
| "dec_members fs ((k, j) # ms) r =
     (case find_field fs k of
        None \<Rightarrow> dec_members fs ms r
      | Some d \<Rightarrow> (case d j r of None \<Rightarrow> None | Some r' \<Rightarrow> dec_members fs ms r'))"

definition dec_struct :: "(string \<times> 'r decoder) list \<Rightarrow> 'r decoder" where
  "dec_struct fs j r = (case j of JNull \<Rightarrow> Some r | JObj ms \<Rightarrow> dec_members fs ms r | _ \<Rightarrow> None)"

text \<open>The fields of the protocol's types, and their zero values.\<close>

definition Request_fields :: "(string \<times> Request decoder) list" where
  "Request_fields =
     [(''command'', field dec_string rq_Command (\<lambda>x r. r\<lparr>rq_Command := x\<rparr>)),
      (''value'', field dec_string rq_Value (\<lambda>x r. r\<lparr>rq_Value := x\<rparr>)),
      (''protocol'', field dec_string rq_Protocol (\<lambda>x r. r\<lparr>rq_Protocol := x\<rparr>)),
      (''port'', field dec_uint rq_Port (\<lambda>x r. r\<lparr>rq_Port := x\<rparr>)),
      (''sport'', field dec_uint rq_SPort (\<lambda>x r. r\<lparr>rq_SPort := x\<rparr>)),
      (''action'', field dec_string rq_Action (\<lambda>x r. r\<lparr>rq_Action := x\<rparr>)),
      (''priority'', field dec_uint rq_Priority (\<lambda>x r. r\<lparr>rq_Priority := x\<rparr>))]"

definition Request_zero :: Request where
  "Request_zero = \<lparr>rq_Command = '''', rq_Value = '''', rq_Protocol = '''', rq_Port = 0, rq_SPort = 0,
     rq_Action = '''', rq_Priority = 0\<rparr>"

definition PortRule_fields :: "(string \<times> PortRule decoder) list" where
  "PortRule_fields =
     [(''protocol'', field dec_string pr_Protocol (\<lambda>x r. r\<lparr>pr_Protocol := x\<rparr>)),
      (''port'', field dec_uint pr_Port (\<lambda>x r. r\<lparr>pr_Port := x\<rparr>)),
      (''sport'', field dec_uint pr_SPort (\<lambda>x r. r\<lparr>pr_SPort := x\<rparr>)),
      (''dst'', field dec_string pr_Dst (\<lambda>x r. r\<lparr>pr_Dst := x\<rparr>)),
      (''action'', field dec_string pr_Action (\<lambda>x r. r\<lparr>pr_Action := x\<rparr>)),
      (''priority'', field dec_uint pr_Priority (\<lambda>x r. r\<lparr>pr_Priority := x\<rparr>))]"

definition PortRule_zero :: PortRule where
  "PortRule_zero = \<lparr>pr_Protocol = '''', pr_Port = 0, pr_SPort = 0, pr_Dst = '''', pr_Action = '''', pr_Priority = 0\<rparr>"

definition BlockedRule_fields :: "(string \<times> BlockedRule decoder) list" where
  "BlockedRule_fields =
     [(''cidr'', field dec_string br_Cidr (\<lambda>x r. r\<lparr>br_Cidr := x\<rparr>)),
      (''action'', field dec_string br_Action (\<lambda>x r. r\<lparr>br_Action := x\<rparr>)),
      (''priority'', field dec_uint br_Priority (\<lambda>x r. r\<lparr>br_Priority := x\<rparr>))]"

definition BlockedRule_zero :: BlockedRule where
  "BlockedRule_zero = \<lparr>br_Cidr = '''', br_Action = '''', br_Priority = 0\<rparr>"

definition ConntrackEntry_fields :: "codec_env \<Rightarrow> (string \<times> ConntrackEntry decoder) list" where
  "ConntrackEntry_fields env =
     [(''src'', field dec_string ce_Src (\<lambda>x r. r\<lparr>ce_Src := x\<rparr>)),
      (''dst'', field dec_string ce_Dst (\<lambda>x r. r\<lparr>ce_Dst := x\<rparr>)),
      (''sport'', field dec_uint ce_Sport (\<lambda>x r. r\<lparr>ce_Sport := x\<rparr>)),
      (''dport'', field dec_uint ce_Dport (\<lambda>x r. r\<lparr>ce_Dport := x\<rparr>)),
      (''protocol'', field dec_string ce_Protocol (\<lambda>x r. r\<lparr>ce_Protocol := x\<rparr>)),
      (''state'', field dec_string ce_State (\<lambda>x r. r\<lparr>ce_State := x\<rparr>)),
      (''age_seconds'', field (dec_float env) ce_AgeSeconds (\<lambda>x r. r\<lparr>ce_AgeSeconds := x\<rparr>))]"

definition ConntrackEntry_zero :: ConntrackEntry where
  "ConntrackEntry_zero = \<lparr>ce_Src = '''', ce_Dst = '''', ce_Sport = 0, ce_Dport = 0, ce_Protocol = '''',
     ce_State = '''', ce_AgeSeconds = ParsedFloat ''0''\<rparr>"

definition Stats_fields :: "(string \<times> Stats decoder) list" where
  "Stats_fields =
     [(''total_packets'', field dec_uint st_TotalPackets (\<lambda>x r. r\<lparr>st_TotalPackets := x\<rparr>)),
      (''total_bytes'', field dec_uint st_TotalBytes (\<lambda>x r. r\<lparr>st_TotalBytes := x\<rparr>)),
      (''drop_packets'', field dec_uint st_DropPackets (\<lambda>x r. r\<lparr>st_DropPackets := x\<rparr>)),
      (''drop_bytes'', field dec_uint st_DropBytes (\<lambda>x r. r\<lparr>st_DropBytes := x\<rparr>)),
      (''pass_packets'', field dec_uint st_PassPackets (\<lambda>x r. r\<lparr>st_PassPackets := x\<rparr>)),
      (''pass_bytes'', field dec_uint st_PassBytes (\<lambda>x r. r\<lparr>st_PassBytes := x\<rparr>))]"

definition Stats_zero :: Stats where
  "Stats_zero = \<lparr>st_TotalPackets = 0, st_TotalBytes = 0, st_DropPackets = 0, st_DropBytes = 0,
     st_PassPackets = 0, st_PassBytes = 0\<rparr>"

text \<open>The reader of a reply has only the text of its error.\<close>

definition error_of_text :: "string \<Rightarrow> fw_error option" where
  "error_of_text t = (if t = '''' then None else Some (ErrorText t))"

definition dec_error :: "fw_error option decoder" where
  "dec_error j x =
     (case j of JNull \<Rightarrow> Some x | JStr s \<Rightarrow> Some (error_of_text s) | _ \<Rightarrow> None)"

definition Response_fields :: "codec_env \<Rightarrow> (string \<times> Response decoder) list" where
  "Response_fields env =
     [(''ok'', field dec_bool rs_OK (\<lambda>x r. r\<lparr>rs_OK := x\<rparr>)),
      (''error'', field dec_error rs_Error (\<lambda>x r. r\<lparr>rs_Error := x\<rparr>)),
      (''blocked'', field (dec_slice dec_string '''') rs_Blocked (\<lambda>x r. r\<lparr>rs_Blocked := x\<rparr>)),
      (''blocked_rules'', field (dec_slice (dec_struct BlockedRule_fields) BlockedRule_zero) rs_BlockedRules
         (\<lambda>x r. r\<lparr>rs_BlockedRules := x\<rparr>)),
      (''count'', field dec_int rs_Count (\<lambda>x r. r\<lparr>rs_Count := x\<rparr>)),
      (''interface'', field dec_string rs_Iface (\<lambda>x r. r\<lparr>rs_Iface := x\<rparr>)),
      (''attached'', field dec_bool rs_Attached (\<lambda>x r. r\<lparr>rs_Attached := x\<rparr>)),
      (''stats'', field (dec_pointer (dec_struct Stats_fields) Stats_zero) rs_Stats (\<lambda>x r. r\<lparr>rs_Stats := x\<rparr>)),
      (''port_rules'', field (dec_slice (dec_struct PortRule_fields) PortRule_zero) rs_PortRules
         (\<lambda>x r. r\<lparr>rs_PortRules := x\<rparr>)),
      (''conntrack'', field (dec_slice (dec_struct (ConntrackEntry_fields env)) ConntrackEntry_zero) rs_Conntrack
         (\<lambda>x r. r\<lparr>rs_Conntrack := x\<rparr>)),
      (''default_policy'', field dec_string rs_Default (\<lambda>x r. r\<lparr>rs_Default := x\<rparr>)),
      (''attach_mode'', field dec_string rs_AttachMode (\<lambda>x r. r\<lparr>rs_AttachMode := x\<rparr>))]"

definition Response_zero :: Response where
  "Response_zero = okResponse\<lparr>rs_OK := False\<rparr>"

section \<open>The texts\<close>

definition marshal_Request :: "Request \<Rightarrow> string" where
  "marshal_Request r = json_text (encode_Request r)"

definition unmarshal_Request :: "string \<Rightarrow> Request option" where
  "unmarshal_Request s =
     (case parse_document s of
        None \<Rightarrow> None
      | Some j \<Rightarrow> dec_struct Request_fields j Request_zero)"

definition marshal_Response :: "codec_env \<Rightarrow> Response \<Rightarrow> string option" where
  "marshal_Response env r = map_option json_text (encode_Response env r)"

definition decode_Response :: "codec_env \<Rightarrow> string \<Rightarrow> Response option" where
  "decode_Response env s =
     (case parse_first s of
        None \<Rightarrow> None
      | Some j \<Rightarrow> dec_struct (Response_fields env) j Response_zero)"

section \<open>What arrives\<close>

text \<open>The values as the other side sees them: text in valid UTF-8, a float by its printed decimal, an
  error by its text.\<close>

definition wired_Request :: "Request \<Rightarrow> Request" where
  "wired_Request r = r\<lparr>rq_Command := to_utf8 (rq_Command r), rq_Value := to_utf8 (rq_Value r),
     rq_Protocol := to_utf8 (rq_Protocol r), rq_Action := to_utf8 (rq_Action r)\<rparr>"

definition wired_PortRule :: "PortRule \<Rightarrow> PortRule" where
  "wired_PortRule r = r\<lparr>pr_Protocol := to_utf8 (pr_Protocol r), pr_Dst := to_utf8 (pr_Dst r),
     pr_Action := to_utf8 (pr_Action r)\<rparr>"

definition wired_BlockedRule :: "BlockedRule \<Rightarrow> BlockedRule" where
  "wired_BlockedRule r = r\<lparr>br_Cidr := to_utf8 (br_Cidr r), br_Action := to_utf8 (br_Action r)\<rparr>"

definition wired_ConntrackEntry :: "codec_env \<Rightarrow> ConntrackEntry \<Rightarrow> ConntrackEntry" where
  "wired_ConntrackEntry env e = e\<lparr>ce_Src := to_utf8 (ce_Src e), ce_Dst := to_utf8 (ce_Dst e),
     ce_Protocol := to_utf8 (ce_Protocol e), ce_State := to_utf8 (ce_State e),
     ce_AgeSeconds := (case co_floatText env (ce_AgeSeconds e) of None \<Rightarrow> ce_AgeSeconds e | Some t \<Rightarrow> ParsedFloat t)\<rparr>"

definition wired_Response :: "codec_env \<Rightarrow> Response \<Rightarrow> Response" where
  "wired_Response env r = r\<lparr>rs_Error := error_of_text (to_utf8 (error_text env (rs_Error r))),
     rs_Blocked := map_option (map to_utf8) (rs_Blocked r),
     rs_BlockedRules := map_option (map wired_BlockedRule) (rs_BlockedRules r),
     rs_Iface := to_utf8 (rs_Iface r),
     rs_PortRules := map_option (map wired_PortRule) (rs_PortRules r),
     rs_Conntrack := map_option (map (wired_ConntrackEntry env)) (rs_Conntrack r),
     rs_Default := to_utf8 (rs_Default r), rs_AttachMode := to_utf8 (rs_AttachMode r)\<rparr>"

section \<open>Decoding what was encoded\<close>

lemma to_utf8_Nil_iff [simp]: "to_utf8 s = [] \<longleftrightarrow> s = []"
proof (cases s)
  case (Cons c t)
  have "rune_len (c # t) = 0 \<or> rune_len (c # t) > 0" by auto
  with Cons show ?thesis by (auto simp: replacement_def)
qed simp

text \<open>The members of a struct, as they arrive.\<close>

definition arriving :: "(string \<times> json) list list \<Rightarrow> (string \<times> json) list" where
  "arriving mss = map (\<lambda>(k, j). (to_utf8 k, json_utf8 j)) (concat mss)"

definition ascii :: "string \<Rightarrow> bool" where
  "ascii s \<longleftrightarrow> (\<forall>c \<in> set s. byte c < 0x80)"

lemma to_utf8_id: "ascii s \<Longrightarrow> to_utf8 s = s"
  by (simp add: ascii_def to_utf8_ascii)

lemma dec_members_field:
  assumes "find_field fs k = Some (field d get upd)" "ascii k" "d (json_utf8 j) (get r) = Some x"
    "dec_members fs (arriving mss) (upd x r) = Some r'"
  shows "dec_members fs (arriving (jfield k j # mss)) r = Some r'"
  using assms by (simp add: arriving_def jfield_def to_utf8_id field_def)

lemma dec_members_omitempty:
  assumes "find_field fs k = Some (field d get upd)" "ascii k" "d (json_utf8 j) (get r) = Some x"
    "b \<Longrightarrow> upd x r = r" "dec_members fs (arriving mss) (upd x r) = Some r'"
  shows "dec_members fs (arriving (omitempty b k j # mss)) r = Some r'"
  using assms by (cases b) (simp_all add: arriving_def omitempty_def to_utf8_id field_def)

lemma dec_members_end: "r = r' \<Longrightarrow> dec_members fs (arriving []) r = Some r'"
  by (simp add: arriving_def)

lemma dec_struct_arriving: "dec_struct fs (json_utf8 (JObj (concat mss))) r = dec_members fs (arriving mss) r"
  by (simp add: dec_struct_def arriving_def)

lemma dec_string_arriving: "dec_string (json_utf8 (JStr s)) x = Some (to_utf8 s)"
  by (simp add: dec_string_def)

lemma dec_bool_arriving: "dec_bool (json_utf8 (JBool b)) x = Some b"
  by (simp add: dec_bool_def)

lemma dec_uint_arriving: "dec_uint (json_utf8 (juint (unat n))) x = Some (n :: 'w :: len word)"
proof -
  have "unat n < 2 ^ LENGTH('w)" using unsigned_less [of n] by simp
  then show ?thesis by (simp add: dec_uint_def juint_def ParseUint_nat_str)
qed

definition int_ok :: "int \<Rightarrow> bool" where
  "int_ok i \<longleftrightarrow> - (2 ^ 63) \<le> i \<and> i < 2 ^ 63"

lemma nat_str_not_minus: "\<not> HasPrefix (nat_str n) ''-''"
proof -
  obtain c t where "nat_str n = c # t" by (cases "nat_str n") auto
  with nat_str_digits [of n] show ?thesis by (auto simp: HasPrefix_def is_digit_def)
qed

lemma dec_int_arriving:
  assumes "int_ok i"
  shows "dec_int (json_utf8 (jint i)) x = Some i"
proof (cases "i < 0")
  case True
  with assms show ?thesis by (simp add: dec_int_def jint_def int_ok_def ParseUint_nat_str nat_less_iff HasPrefix_def)
next
  case False
  with assms show ?thesis
    by (simp add: dec_int_def jint_def int_ok_def nat_str_not_minus ParseUint_nat_str nat_less_iff)
qed

lemma dec_error_arriving: "dec_error (json_utf8 (JStr s)) x = Some (error_of_text (to_utf8 s))"
  by (simp add: dec_error_def)

lemma those_map_Some: "those (map f xs) = Some ys \<longleftrightarrow> map f xs = map Some ys"
  by (induction xs arbitrary: ys) (auto split: option.splits)

lemma dec_elems_arriving:
  assumes "map f xs = map Some js" "\<And>x j. x \<in> set xs \<Longrightarrow> f x = Some j \<Longrightarrow> d (json_utf8 j) zero = Some (g x)"
  shows "dec_elems d zero (map json_utf8 js) [] = Some (map g xs)"
  using assms
proof (induction xs arbitrary: js)
  case (Cons x xs)
  then obtain j js' where j: "js = j # js'" "f x = Some j" "map f xs = map Some js'" by (cases js) auto
  with Cons.prems(2) have "d (json_utf8 j) zero = Some (g x)" by simp
  moreover have "dec_elems d zero (map json_utf8 js') [] = Some (map g xs)"
    using Cons.IH [OF j(3)] Cons.prems(2) by simp
  ultimately show ?case using j(1) by simp
qed simp

lemma dec_slice_arriving:
  assumes "jslice f s = Some j"
    "\<And>x j. x \<in> set (slice_list s) \<Longrightarrow> f x = Some j \<Longrightarrow> d (json_utf8 j) zero = Some (g x)"
  shows "dec_slice d zero (json_utf8 j) None = Some (map_option (map g) s)"
proof (cases s)
  case None
  with assms show ?thesis by (simp add: jslice_def dec_slice_def)
next
  case (Some xs)
  with assms(1) obtain js where "j = JArr js" "map f xs = map Some js"
    by (auto simp: jslice_def those_map_Some)
  with Some assms(2) show ?thesis
    using dec_elems_arriving [of f xs js d zero g] by (simp add: dec_slice_def)
qed

lemmas arriving_intros = dec_members_field dec_members_omitempty dec_members_end dec_string_arriving
  dec_bool_arriving dec_uint_arriving dec_error_arriving

lemma ascii_simps [simp]: "ascii []" "ascii (c # s) \<longleftrightarrow> byte c < 0x80 \<and> ascii s"
  by (simp_all add: ascii_def)

lemma find_Request_field:
  "find_field Request_fields ''command'' = Some (field dec_string rq_Command (\<lambda>x r. r\<lparr>rq_Command := x\<rparr>))"
  "find_field Request_fields ''value'' = Some (field dec_string rq_Value (\<lambda>x r. r\<lparr>rq_Value := x\<rparr>))"
  "find_field Request_fields ''protocol'' = Some (field dec_string rq_Protocol (\<lambda>x r. r\<lparr>rq_Protocol := x\<rparr>))"
  "find_field Request_fields ''port'' = Some (field dec_uint rq_Port (\<lambda>x r. r\<lparr>rq_Port := x\<rparr>))"
  "find_field Request_fields ''sport'' = Some (field dec_uint rq_SPort (\<lambda>x r. r\<lparr>rq_SPort := x\<rparr>))"
  "find_field Request_fields ''action'' = Some (field dec_string rq_Action (\<lambda>x r. r\<lparr>rq_Action := x\<rparr>))"
  "find_field Request_fields ''priority'' = Some (field dec_uint rq_Priority (\<lambda>x r. r\<lparr>rq_Priority := x\<rparr>))"
  by (simp_all add: find_field_def Request_fields_def)

lemma decode_Request_arriving:
  "dec_struct Request_fields (json_utf8 (encode_Request r)) Request_zero = Some (wired_Request r)"
  unfolding encode_Request_def dec_struct_arriving
  by (rule arriving_intros find_Request_field | (simp add: byte_def; fail) | (simp add: Request_zero_def wired_Request_def; fail))+



lemma find_PortRule_field:
  "find_field PortRule_fields ''protocol'' = Some (field dec_string pr_Protocol (\<lambda>x r. r\<lparr>pr_Protocol := x\<rparr>))"
  "find_field PortRule_fields ''port'' = Some (field dec_uint pr_Port (\<lambda>x r. r\<lparr>pr_Port := x\<rparr>))"
  "find_field PortRule_fields ''sport'' = Some (field dec_uint pr_SPort (\<lambda>x r. r\<lparr>pr_SPort := x\<rparr>))"
  "find_field PortRule_fields ''dst'' = Some (field dec_string pr_Dst (\<lambda>x r. r\<lparr>pr_Dst := x\<rparr>))"
  "find_field PortRule_fields ''action'' = Some (field dec_string pr_Action (\<lambda>x r. r\<lparr>pr_Action := x\<rparr>))"
  "find_field PortRule_fields ''priority'' = Some (field dec_uint pr_Priority (\<lambda>x r. r\<lparr>pr_Priority := x\<rparr>))"
  by (simp_all add: find_field_def PortRule_fields_def)

lemma find_BlockedRule_field:
  "find_field BlockedRule_fields ''cidr'' = Some (field dec_string br_Cidr (\<lambda>x r. r\<lparr>br_Cidr := x\<rparr>))"
  "find_field BlockedRule_fields ''action'' = Some (field dec_string br_Action (\<lambda>x r. r\<lparr>br_Action := x\<rparr>))"
  "find_field BlockedRule_fields ''priority'' = Some (field dec_uint br_Priority (\<lambda>x r. r\<lparr>br_Priority := x\<rparr>))"
  by (simp_all add: find_field_def BlockedRule_fields_def)

lemma find_ConntrackEntry_field:
  "find_field (ConntrackEntry_fields env) ''src'' = Some (field dec_string ce_Src (\<lambda>x r. r\<lparr>ce_Src := x\<rparr>))"
  "find_field (ConntrackEntry_fields env) ''dst'' = Some (field dec_string ce_Dst (\<lambda>x r. r\<lparr>ce_Dst := x\<rparr>))"
  "find_field (ConntrackEntry_fields env) ''sport'' = Some (field dec_uint ce_Sport (\<lambda>x r. r\<lparr>ce_Sport := x\<rparr>))"
  "find_field (ConntrackEntry_fields env) ''dport'' = Some (field dec_uint ce_Dport (\<lambda>x r. r\<lparr>ce_Dport := x\<rparr>))"
  "find_field (ConntrackEntry_fields env) ''protocol'' = Some (field dec_string ce_Protocol (\<lambda>x r. r\<lparr>ce_Protocol := x\<rparr>))"
  "find_field (ConntrackEntry_fields env) ''state'' = Some (field dec_string ce_State (\<lambda>x r. r\<lparr>ce_State := x\<rparr>))"
  "find_field (ConntrackEntry_fields env) ''age_seconds'' =
     Some (field (dec_float env) ce_AgeSeconds (\<lambda>x r. r\<lparr>ce_AgeSeconds := x\<rparr>))"
  by (simp_all add: find_field_def ConntrackEntry_fields_def)

lemma find_Stats_field:
  "find_field Stats_fields ''total_packets'' = Some (field dec_uint st_TotalPackets (\<lambda>x r. r\<lparr>st_TotalPackets := x\<rparr>))"
  "find_field Stats_fields ''total_bytes'' = Some (field dec_uint st_TotalBytes (\<lambda>x r. r\<lparr>st_TotalBytes := x\<rparr>))"
  "find_field Stats_fields ''drop_packets'' = Some (field dec_uint st_DropPackets (\<lambda>x r. r\<lparr>st_DropPackets := x\<rparr>))"
  "find_field Stats_fields ''drop_bytes'' = Some (field dec_uint st_DropBytes (\<lambda>x r. r\<lparr>st_DropBytes := x\<rparr>))"
  "find_field Stats_fields ''pass_packets'' = Some (field dec_uint st_PassPackets (\<lambda>x r. r\<lparr>st_PassPackets := x\<rparr>))"
  "find_field Stats_fields ''pass_bytes'' = Some (field dec_uint st_PassBytes (\<lambda>x r. r\<lparr>st_PassBytes := x\<rparr>))"
  by (simp_all add: find_field_def Stats_fields_def)

text \<open>What a float's text has to be: a number literal in range, as \<open>strconv\<close> produces.\<close>

definition codec_ok :: "codec_env \<Rightarrow> bool" where
  "codec_ok env \<longleftrightarrow> (\<forall>f t. co_floatText env f = Some t \<longrightarrow> number_ok t \<and> co_floatRange env t)"

lemma decode_PortRule_arriving:
  "dec_struct PortRule_fields (json_utf8 (encode_PortRule r)) PortRule_zero = Some (wired_PortRule r)"
  unfolding encode_PortRule_def dec_struct_arriving
  by (rule arriving_intros find_PortRule_field | (simp add: byte_def; fail)
      | (simp add: PortRule_zero_def wired_PortRule_def; fail))+

lemma decode_BlockedRule_arriving:
  "dec_struct BlockedRule_fields (json_utf8 (encode_BlockedRule r)) BlockedRule_zero = Some (wired_BlockedRule r)"
  unfolding encode_BlockedRule_def dec_struct_arriving
  by (rule arriving_intros find_BlockedRule_field | (simp add: byte_def; fail)
      | (simp add: BlockedRule_zero_def wired_BlockedRule_def; fail))+

lemma decode_Stats_arriving: "dec_struct Stats_fields (json_utf8 (encode_Stats s)) Stats_zero = Some s"
  unfolding encode_Stats_def dec_struct_arriving
  by (rule arriving_intros find_Stats_field | (simp add: byte_def; fail) | (simp add: Stats_zero_def; fail))+

lemma dec_float_arriving: "co_floatRange env t \<Longrightarrow> dec_float env (json_utf8 (JNum t)) x = Some (ParsedFloat t)"
  by (simp add: dec_float_def)

lemma encode_ConntrackEntry_cases:
  assumes "encode_ConntrackEntry env e = Some j"
  obtains age where "co_floatText env (ce_AgeSeconds e) = Some age"
    "j = JObj (concat
       [jfield ''src'' (JStr (ce_Src e)),
        jfield ''dst'' (JStr (ce_Dst e)),
        jfield ''sport'' (juint (unat (ce_Sport e))),
        jfield ''dport'' (juint (unat (ce_Dport e))),
        jfield ''protocol'' (JStr (ce_Protocol e)),
        jfield ''state'' (JStr (ce_State e)),
        jfield ''age_seconds'' (JNum age)])"
  using assms by (auto simp: encode_ConntrackEntry_def)

lemma decode_ConntrackEntry_arriving:
  assumes "codec_ok env" "encode_ConntrackEntry env e = Some j"
  shows "dec_struct (ConntrackEntry_fields env) (json_utf8 j) ConntrackEntry_zero = Some (wired_ConntrackEntry env e)"
  using assms(2)
proof (cases rule: encode_ConntrackEntry_cases)
  case (1 age)
  with assms(1) have r: "co_floatRange env age" by (simp add: codec_ok_def)
  show ?thesis unfolding 1(2) dec_struct_arriving
    by (rule arriving_intros find_ConntrackEntry_field dec_float_arriving r | (simp add: byte_def; fail)
        | (simp add: ConntrackEntry_zero_def wired_ConntrackEntry_def 1(1); fail))+
qed

lemma find_Response_field:
  "find_field (Response_fields env) ''ok'' = Some (field dec_bool rs_OK (\<lambda>x r. r\<lparr>rs_OK := x\<rparr>))"
  "find_field (Response_fields env) ''error'' = Some (field dec_error rs_Error (\<lambda>x r. r\<lparr>rs_Error := x\<rparr>))"
  "find_field (Response_fields env) ''blocked'' =
     Some (field (dec_slice dec_string '''') rs_Blocked (\<lambda>x r. r\<lparr>rs_Blocked := x\<rparr>))"
  "find_field (Response_fields env) ''blocked_rules'' =
     Some (field (dec_slice (dec_struct BlockedRule_fields) BlockedRule_zero) rs_BlockedRules (\<lambda>x r. r\<lparr>rs_BlockedRules := x\<rparr>))"
  "find_field (Response_fields env) ''count'' = Some (field dec_int rs_Count (\<lambda>x r. r\<lparr>rs_Count := x\<rparr>))"
  "find_field (Response_fields env) ''interface'' = Some (field dec_string rs_Iface (\<lambda>x r. r\<lparr>rs_Iface := x\<rparr>))"
  "find_field (Response_fields env) ''attached'' = Some (field dec_bool rs_Attached (\<lambda>x r. r\<lparr>rs_Attached := x\<rparr>))"
  "find_field (Response_fields env) ''stats'' =
     Some (field (dec_pointer (dec_struct Stats_fields) Stats_zero) rs_Stats (\<lambda>x r. r\<lparr>rs_Stats := x\<rparr>))"
  "find_field (Response_fields env) ''port_rules'' =
     Some (field (dec_slice (dec_struct PortRule_fields) PortRule_zero) rs_PortRules (\<lambda>x r. r\<lparr>rs_PortRules := x\<rparr>))"
  "find_field (Response_fields env) ''conntrack'' =
     Some (field (dec_slice (dec_struct (ConntrackEntry_fields env)) ConntrackEntry_zero) rs_Conntrack (\<lambda>x r. r\<lparr>rs_Conntrack := x\<rparr>))"
  "find_field (Response_fields env) ''default_policy'' = Some (field dec_string rs_Default (\<lambda>x r. r\<lparr>rs_Default := x\<rparr>))"
  "find_field (Response_fields env) ''attach_mode'' = Some (field dec_string rs_AttachMode (\<lambda>x r. r\<lparr>rs_AttachMode := x\<rparr>))"
  by (simp_all add: find_field_def Response_fields_def)

lemma dec_Stats_pointer_arriving:
  "old = None \<Longrightarrow>
     dec_pointer (dec_struct Stats_fields) Stats_zero
       (json_utf8 (case s of None \<Rightarrow> JNull | Some x \<Rightarrow> encode_Stats x)) old = Some s"
  using decode_Stats_arriving
  by (cases s) (auto simp: dec_pointer_def encode_Stats_def)

lemma dec_slice_into_nil:
  "jslice f s = Some j \<Longrightarrow>
     (\<And>x j. x \<in> set (slice_list s) \<Longrightarrow> f x = Some j \<Longrightarrow> d (json_utf8 j) zero = Some (g x)) \<Longrightarrow>
     old = None \<Longrightarrow> dec_slice d zero (json_utf8 j) old = Some (map_option (map g) s)"
  using dec_slice_arriving [of f s j d zero g] by simp

lemma encode_Response_cases:
  assumes "encode_Response env r = Some j"
  obtains b br pr ct where "jslice (Some \<circ> JStr) (rs_Blocked r) = Some b"
    "jslice (Some \<circ> encode_BlockedRule) (rs_BlockedRules r) = Some br"
    "jslice (Some \<circ> encode_PortRule) (rs_PortRules r) = Some pr"
    "jslice (encode_ConntrackEntry env) (rs_Conntrack r) = Some ct"
    "j = JObj (concat
       [jfield ''ok'' (JBool (rs_OK r)),
        omitempty (error_text env (rs_Error r) = '''') ''error'' (JStr (error_text env (rs_Error r))),
        jfield ''blocked'' b,
        jfield ''blocked_rules'' br,
        omitempty (rs_Count r = 0) ''count'' (jint (rs_Count r)),
        omitempty (rs_Iface r = '''') ''interface'' (JStr (rs_Iface r)),
        omitempty (\<not> rs_Attached r) ''attached'' (JBool (rs_Attached r)),
        omitempty (rs_Stats r = None) ''stats'' (case rs_Stats r of None \<Rightarrow> JNull | Some s \<Rightarrow> encode_Stats s),
        jfield ''port_rules'' pr,
        jfield ''conntrack'' ct,
        omitempty (rs_Default r = '''') ''default_policy'' (JStr (rs_Default r)),
        omitempty (rs_AttachMode r = '''') ''attach_mode'' (JStr (rs_AttachMode r))])"
  using assms by (auto simp: encode_Response_def split: option.splits)

lemma decode_Response_arriving:
  assumes "codec_ok env" "int_ok (rs_Count r)" "encode_Response env r = Some j"
  shows "dec_struct (Response_fields env) (json_utf8 j) Response_zero = Some (wired_Response env r)"
  using assms(3)
proof (cases rule: encode_Response_cases)
  case (1 b br pr ct)
  have b': "old = None \<Longrightarrow> dec_slice dec_string '''' (json_utf8 b) old = Some (map_option (map to_utf8) (rs_Blocked r))"
    for old by (rule dec_slice_into_nil [OF 1(1)]) (auto simp: dec_string_def)
  have br': "old = None \<Longrightarrow> dec_slice (dec_struct BlockedRule_fields) BlockedRule_zero (json_utf8 br) old =
      Some (map_option (map wired_BlockedRule) (rs_BlockedRules r))" for old
    by (rule dec_slice_into_nil [OF 1(2)]) (auto simp: decode_BlockedRule_arriving)
  have pr': "old = None \<Longrightarrow> dec_slice (dec_struct PortRule_fields) PortRule_zero (json_utf8 pr) old =
      Some (map_option (map wired_PortRule) (rs_PortRules r))" for old
    by (rule dec_slice_into_nil [OF 1(3)]) (auto simp: decode_PortRule_arriving)
  have ct': "old = None \<Longrightarrow> dec_slice (dec_struct (ConntrackEntry_fields env)) ConntrackEntry_zero (json_utf8 ct) old =
      Some (map_option (map (wired_ConntrackEntry env)) (rs_Conntrack r))" for old
    by (rule dec_slice_into_nil [OF 1(4)]) (auto simp: decode_ConntrackEntry_arriving assms(1))
  show ?thesis unfolding 1(5) dec_struct_arriving
    by (rule arriving_intros find_Response_field dec_int_arriving [OF assms(2)] b' br' pr' ct' dec_Stats_pointer_arriving
        | (simp add: byte_def; fail) | (simp add: Response_zero_def okResponse_def error_of_text_def; fail)
        | (simp add: Response_zero_def okResponse_def wired_Response_def; fail))+
qed

section \<open>The texts can be read\<close>

lemma fits_juint [simp]: "fits d (juint n)"
  by (simp add: juint_def number_ok_nat_str)

lemma number_ok_minus: "number_ok (CHR ''-'' # nat_str n)"
proof -
  obtain c t where s: "nat_str n = c # t" by (cases "nat_str n") auto
  have "c \<noteq> CHR ''-''" using nat_str_digits [of n] s by (auto simp: is_digit_def)
  with number_ok_nat_str [of n] s show ?thesis by (simp add: number_ok_def lex_num_def)
qed

lemma fits_jint [simp]: "fits d (jint i)"
  by (simp add: jint_def number_ok_nat_str number_ok_minus)

definition members_fit :: "nat \<Rightarrow> (string \<times> json) list list \<Rightarrow> bool" where
  "members_fit d mss \<longleftrightarrow> (\<forall>(k, j) \<in> set (concat mss). fits d j)"

lemma members_fit_simps [simp]:
  "members_fit d []" "members_fit d (jfield k j # mss) \<longleftrightarrow> fits d j \<and> members_fit d mss"
  "members_fit d (omitempty b k j # mss) \<longleftrightarrow> (b \<or> fits d j) \<and> members_fit d mss"
  by (auto simp: members_fit_def jfield_def omitempty_def)

lemma fits_members: "d > 0 \<Longrightarrow> members_fit (d - 1) mss \<Longrightarrow> fits d (JObj (concat mss))"
  by (simp add: members_fit_def)

lemma fits_slice:
  assumes "jslice f s = Some j" "d > 0" "\<And>x j. x \<in> set (slice_list s) \<Longrightarrow> f x = Some j \<Longrightarrow> fits (d - 1) j"
  shows "fits d j"
proof (cases s)
  case (Some xs)
  with assms(1) obtain js where j: "j = JArr js" "map f xs = map Some js"
    by (auto simp: jslice_def those_map_Some)
  have "fits (d - 1) y" if "y \<in> set js" for y
  proof -
    from that have "Some y \<in> f ` set xs" using arg_cong [OF j(2), of set] by auto
    then obtain x where "x \<in> set xs" "f x = Some y" by auto
    with assms(3) Some show ?thesis by simp
  qed
  with j assms(2) show ?thesis by simp
qed (use assms in \<open>simp add: jslice_def\<close>)

lemma fits_Request: "d > 0 \<Longrightarrow> fits d (encode_Request r)"
  unfolding encode_Request_def by (rule fits_members) simp_all

lemma fits_rules:
  "d > 0 \<Longrightarrow> fits d (encode_PortRule r)" "d > 0 \<Longrightarrow> fits d (encode_BlockedRule b)" "d > 0 \<Longrightarrow> fits d (encode_Stats s)"
  unfolding encode_PortRule_def encode_BlockedRule_def encode_Stats_def by (rule fits_members; simp)+

lemma fits_ConntrackEntry:
  assumes "codec_ok env" "encode_ConntrackEntry env e = Some j" "d > 0"
  shows "fits d j"
  using assms(2)
proof (cases rule: encode_ConntrackEntry_cases)
  case (1 age)
  with assms(1) have "number_ok age" by (simp add: codec_ok_def)
  then show ?thesis unfolding 1(2) by (intro fits_members) (simp_all add: assms(3))
qed

lemma fits_Response:
  assumes "codec_ok env" "encode_Response env r = Some j" "d > 2"
  shows "fits d j"
  using assms(2)
proof (cases rule: encode_Response_cases)
  case (1 b br pr ct)
  have "fits (d - 1) b" by (rule fits_slice [OF 1(1)]) (use assms(3) in auto)
  moreover have "fits (d - 1) br" by (rule fits_slice [OF 1(2)]) (use assms(3) in \<open>auto simp: fits_rules\<close>)
  moreover have "fits (d - 1) pr" by (rule fits_slice [OF 1(3)]) (use assms(3) in \<open>auto simp: fits_rules\<close>)
  moreover have "fits (d - 1) ct"
    by (rule fits_slice [OF 1(4)]) (use assms in \<open>auto intro: fits_ConntrackEntry\<close>)
  moreover have "fits (d - 1) (case rs_Stats r of None \<Rightarrow> JNull | Some x \<Rightarrow> encode_Stats x)"
    using assms(3) by (simp add: fits_rules split: option.split)
  ultimately show ?thesis unfolding 1(5)
    by (intro fits_members) (use assms(3) in simp_all)
qed

text \<open>What the two sides exchange.\<close>

theorem request_text:
  assumes "t = [] \<or> t = [CHR 0x0A]"
  shows "unmarshal_Request (marshal_Request r @ t) = Some (wired_Request r)"
proof -
  have "fits max_nesting (encode_Request r)" by (rule fits_Request) (simp add: max_nesting_def)
  from document_back(1) [OF this assms] show ?thesis
    by (simp add: unmarshal_Request_def marshal_Request_def decode_Request_arriving)
qed

theorem response_text:
  assumes "codec_ok env" "int_ok (rs_Count r)" "marshal_Response env r = Some s"
  shows "decode_Response env (s @ [CHR 0x0A]) = Some (wired_Response env r)"
proof -
  from assms(3) obtain j where j: "encode_Response env r = Some j" "s = json_text j"
    by (auto simp: marshal_Response_def)
  have "fits max_nesting j" by (rule fits_Response [OF assms(1) j(1)]) (simp add: max_nesting_def)
  from document_back(2) [OF this, of "[CHR 0x0A]"] show ?thesis
    by (simp add: decode_Response_def j decode_Response_arriving [OF assms(1,2) j(1)])
qed

lemma request_printed: "printed (marshal_Request r)"
  unfolding marshal_Request_def by (rule printed_json [of max_nesting]) (simp add: fits_Request max_nesting_def)

end
