(* ===== verification/Api.thy ===== *)
theory Api
  imports Server Wire
begin

text \<open>
  \<open>control/api/api.go\<close>: the read-only HTTP view over the same \<open>Policy\<close> interface. A request is a
  method and a path as \<open>http.ServeMux\<close> sees it (the multiplexer's redirects of unclean paths are
  not modelled); a reply is a status, the two headers the code sets and the body, whose text
  \<open>http_text\<close> gives.
\<close>

record StatusResponse =
  sr_Interface :: string
  sr_AttachMode :: string
  sr_DefaultPolicy :: string
  sr_IPRuleCount :: nat
  sr_PortRuleCount :: nat

datatype http_body =
    HealthBody bool
  | StatusBody StatusResponse
  | StatsBody Stats
  | RulesBody "BlockedRule slice" "PortRule slice"
  | FlowsBody "ConntrackEntry slice"
  | ErrorBody fw_error
  | MethodNotAllowedBody
  | NotFoundBody

record http_reply =
  hr_status :: nat
  hr_Allow :: "string option"
  hr_ContentType :: string
  hr_body :: http_body

definition MethodGet :: string where "MethodGet = ''GET''"

definition writeJSON :: "nat \<Rightarrow> http_body \<Rightarrow> http_reply" where
  "writeJSON status v = \<lparr>hr_status = status, hr_Allow = None, hr_ContentType = ''application/json'', hr_body = v\<rparr>"

text \<open>\<open>http.NotFound\<close>, the multiplexer's answer to an unknown path.\<close>

definition NotFound :: http_reply where
  "NotFound = \<lparr>hr_status = 404, hr_Allow = None, hr_ContentType = ''text/plain; charset=utf-8'', hr_body = NotFoundBody\<rparr>"

definition writeErr :: "fw_error \<Rightarrow> http_reply" where
  "writeErr err = writeJSON 500 (ErrorBody err)"

definition nonNil :: "'a slice \<Rightarrow> 'a slice" where
  "nonNil s = (case s of None \<Rightarrow> Some [] | Some xs \<Rightarrow> Some xs)"

definition handleHealth :: "'w policy \<Rightarrow> 'w \<Rightarrow> http_reply" where
  "handleHealth P w = writeJSON 200 (HealthBody True)"

definition handleStatus :: "'w policy \<Rightarrow> 'w \<Rightarrow> http_reply" where
  "handleStatus P w =
     (case p_DefaultPolicy P w of
        Inl err \<Rightarrow> writeErr err
      | Inr def \<Rightarrow>
          (case p_ListBlockedRules P w of
             Inl err \<Rightarrow> writeErr err
           | Inr blocked \<Rightarrow>
               (case p_ListPortRules P w of
                  Inl err \<Rightarrow> writeErr err
                | Inr ports \<Rightarrow>
                    writeJSON 200 (StatusBody
                      \<lparr>sr_Interface = p_Interface P, sr_AttachMode = p_AttachMode P,
                       sr_DefaultPolicy = def, sr_IPRuleCount = slice_len blocked,
                       sr_PortRuleCount = slice_len ports\<rparr>))))"

definition handleStats :: "'w policy \<Rightarrow> 'w \<Rightarrow> http_reply" where
  "handleStats P w =
     (case p_Stats P w of
        Inl err \<Rightarrow> writeErr err
      | Inr stats \<Rightarrow> writeJSON 200 (StatsBody stats))"

definition handleRules :: "'w policy \<Rightarrow> 'w \<Rightarrow> http_reply" where
  "handleRules P w =
     (case p_ListBlockedRules P w of
        Inl err \<Rightarrow> writeErr err
      | Inr blocked \<Rightarrow>
          (case p_ListPortRules P w of
             Inl err \<Rightarrow> writeErr err
           | Inr ports \<Rightarrow> writeJSON 200 (RulesBody (nonNil blocked) (nonNil ports))))"

definition handleConntrack :: "'w policy \<Rightarrow> 'w \<Rightarrow> http_reply" where
  "handleConntrack P w =
     (case p_ListConntrack P w of
        Inl err \<Rightarrow> writeErr err
      | Inr flows \<Rightarrow> writeJSON 200 (FlowsBody (nonNil flows)))"

definition api_get :: "('w \<Rightarrow> http_reply) \<Rightarrow> string \<Rightarrow> 'w \<Rightarrow> http_reply" where
  "api_get h meth w =
     (if meth \<noteq> MethodGet then (writeJSON 405 MethodNotAllowedBody)\<lparr>hr_Allow := Some MethodGet\<rparr>
      else h w)"

definition API_ServeHTTP :: "'w policy \<Rightarrow> string \<Rightarrow> string \<Rightarrow> 'w \<Rightarrow> http_reply" where
  "API_ServeHTTP P meth path w =
     (if path = ''/health'' then api_get (handleHealth P) meth w
      else if path = ''/status'' then api_get (handleStatus P) meth w
      else if path = ''/stats'' then api_get (handleStats P) meth w
      else if path = ''/rules'' then api_get (handleRules P) meth w
      else if path = ''/conntrack'' then api_get (handleConntrack P) meth w
      else NotFound)"

section \<open>Texts\<close>

definition encode_HealthResponse :: "bool \<Rightarrow> json" where
  "encode_HealthResponse ok = JObj (jfield ''ok'' (JBool ok))"

definition encode_StatusResponse :: "StatusResponse \<Rightarrow> json" where
  "encode_StatusResponse r = JObj (concat
     [jfield ''interface'' (JStr (sr_Interface r)),
      jfield ''attach_mode'' (JStr (sr_AttachMode r)),
      jfield ''default_policy'' (JStr (sr_DefaultPolicy r)),
      jfield ''ip_rule_count'' (juint (sr_IPRuleCount r)),
      jfield ''port_rule_count'' (juint (sr_PortRuleCount r))])"

definition encode_RulesResponse :: "BlockedRule slice \<Rightarrow> PortRule slice \<Rightarrow> json option" where
  "encode_RulesResponse b p =
     (case (jslice (Some \<circ> encode_BlockedRule) b, jslice (Some \<circ> encode_PortRule) p) of
        (Some blocked_rules, Some port_rules) \<Rightarrow>
          Some (JObj (concat [jfield ''blocked_rules'' blocked_rules, jfield ''port_rules'' port_rules]))
      | _ \<Rightarrow> None)"

definition encode_ConntrackResponse :: "codec_env \<Rightarrow> ConntrackEntry slice \<Rightarrow> json option" where
  "encode_ConntrackResponse env f =
     map_option (\<lambda>flows. JObj (jfield ''flows'' flows)) (jslice (encode_ConntrackEntry env) f)"

definition body_json :: "codec_env \<Rightarrow> http_body \<Rightarrow> json option" where
  "body_json env b =
     (case b of
        HealthBody ok \<Rightarrow> Some (encode_HealthResponse ok)
      | StatusBody r \<Rightarrow> Some (encode_StatusResponse r)
      | StatsBody s \<Rightarrow> Some (encode_Stats s)
      | RulesBody rules ports \<Rightarrow> encode_RulesResponse rules ports
      | FlowsBody flows \<Rightarrow> encode_ConntrackResponse env flows
      | ErrorBody err \<Rightarrow> Some (JObj (jfield ''error'' (JStr (co_errorText env err))))
      | MethodNotAllowedBody \<Rightarrow> Some (JObj (jfield ''error'' (JStr ''method not allowed'')))
      | NotFoundBody \<Rightarrow> None)"

text \<open>What \<open>Encoder.Encode\<close> writes: nothing when the value cannot be encoded, else its text and a newline.\<close>

definition http_text :: "codec_env \<Rightarrow> http_body \<Rightarrow> string" where
  "http_text env b =
     (if b = NotFoundBody then ''404 page not found'' @ [CHR 0x0A]
      else (case body_json env b of None \<Rightarrow> [] | Some j \<Rightarrow> json_text j @ [CHR 0x0A]))"

section \<open>Replies\<close>

definition api_paths :: "string set" where
  "api_paths = {''/health'', ''/status'', ''/stats'', ''/rules'', ''/conntrack''}"

text \<open>A body with lists never carries a nil slice (JSON \<open>null\<close>).\<close>

fun body_non_nil :: "http_body \<Rightarrow> bool" where
  "body_non_nil (RulesBody b p) = (b \<noteq> None \<and> p \<noteq> None)"
| "body_non_nil (FlowsBody f) = (f \<noteq> None)"
| "body_non_nil b = True"

lemma nonNil_simps [simp]: "nonNil s \<noteq> None" "\<exists>xs. nonNil s = Some xs" "slice_list (nonNil s) = slice_list s"
  by (cases s; simp add: nonNil_def)+

lemmas api_handlers = handleHealth_def handleStatus_def handleStats_def handleRules_def
  handleConntrack_def

text \<open>The status line tells the outcome: 200 with the endpoint's body, 500 with the error of the
  policy, 405 with the Allow header.\<close>

definition http_ok :: "http_reply \<Rightarrow> bool" where
  "http_ok r \<longleftrightarrow> (case hr_body r of
       ErrorBody e \<Rightarrow> hr_status r = 500 \<and> hr_Allow r = None
     | MethodNotAllowedBody \<Rightarrow> hr_status r = 405 \<and> hr_Allow r = Some MethodGet
     | NotFoundBody \<Rightarrow> hr_status r = 404
     | b \<Rightarrow> hr_status r = 200 \<and> hr_Allow r = None \<and> body_non_nil b)"

lemma handlers_http_ok:
  "http_ok (handleHealth P w)" "http_ok (handleStatus P w)" "http_ok (handleStats P w)"
  "http_ok (handleRules P w)" "http_ok (handleConntrack P w)"
  by (simp_all add: api_handlers http_ok_def writeJSON_def writeErr_def split: sum.splits)

lemma api_get_http_ok: "http_ok (h w) \<Longrightarrow> http_ok (api_get h meth w)"
  by (simp add: api_get_def http_ok_def writeJSON_def)

lemma ServeHTTP_http_ok: "http_ok (API_ServeHTTP P meth path w)"
  unfolding API_ServeHTTP_def
  by (simp add: api_get_http_ok handlers_http_ok) (simp add: http_ok_def NotFound_def)

lemma ServeHTTP_405: "meth \<noteq> MethodGet \<Longrightarrow> path \<in> api_paths \<Longrightarrow> hr_status (API_ServeHTTP P meth path w) = 405"
  by (auto simp: API_ServeHTTP_def api_get_def api_paths_def writeJSON_def)

end
