(* ===== verification/Ctl.thy ===== *)
theory Ctl
  imports Protocol GoStrings
begin

text \<open>
  \<open>cmd/firewallctl/main.go\<close>: the command-line client: the option parser, the translation of a
  command line into a request, the rendering of the reply. \<open>os.Exit\<close> is a value. Printed text is
  a list of items; the two uses of floating point (the age of a flow, a scaled byte count) keep
  their operands instead of the rounded decimal.
\<close>

section \<open>Options\<close>

datatype ctl_error =
    MissingArgument string
  | InvalidNumber string string
  | UnknownOption string

record options =
  op_args :: "string list"
  op_sockPath :: string
  op_protocol :: string
  op_action :: string
  op_port :: nat
  op_sport :: nat
  op_priority :: nat

datatype option_result = HelpExit | OptionError ctl_error | Parsed options

definition parsePort :: "string \<Rightarrow> string \<Rightarrow> ctl_error + nat" where
  "parsePort s flagName =
     (case ParseUint s 16 of None \<Rightarrow> Inl (InvalidNumber flagName s) | Some n \<Rightarrow> Inr n)"

definition parsePriority :: "string \<Rightarrow> string \<Rightarrow> ctl_error + nat" where
  "parsePriority s flagName =
     (case ParseUint s 32 of None \<Rightarrow> Inl (InvalidNumber flagName s) | Some n \<Rightarrow> Inr n)"

text \<open>The options with a value, and what storing the value does.\<close>

datatype opt_name = OptSock | OptProtocol | OptAction | OptPriority | OptDport | OptSport

definition opt_text :: "opt_name \<Rightarrow> string" where
  "opt_text n =
     (case n of
        OptSock \<Rightarrow> ''-sock'' | OptProtocol \<Rightarrow> ''-protocol'' | OptAction \<Rightarrow> ''-action''
      | OptPriority \<Rightarrow> ''-priority'' | OptDport \<Rightarrow> ''-dport'' | OptSport \<Rightarrow> ''-sport'')"

definition store_option :: "opt_name \<Rightarrow> string \<Rightarrow> options \<Rightarrow> ctl_error + options" where
  "store_option n v op =
     (case n of
        OptSock \<Rightarrow> Inr (op\<lparr>op_sockPath := v\<rparr>)
      | OptProtocol \<Rightarrow> Inr (op\<lparr>op_protocol := v\<rparr>)
      | OptAction \<Rightarrow> Inr (op\<lparr>op_action := v\<rparr>)
      | OptPriority \<Rightarrow> (case parsePriority v ''-priority'' of Inl e \<Rightarrow> Inl e | Inr p \<Rightarrow> Inr (op\<lparr>op_priority := p\<rparr>))
      | OptDport \<Rightarrow> (case parsePort v ''-dport'' of Inl e \<Rightarrow> Inl e | Inr p \<Rightarrow> Inr (op\<lparr>op_port := p\<rparr>))
      | OptSport \<Rightarrow> (case parsePort v ''-sport'' of Inl e \<Rightarrow> Inl e | Inr p \<Rightarrow> Inr (op\<lparr>op_sport := p\<rparr>)))"

text \<open>How one argument is read: the cases of the \<open>switch\<close>, in its order.\<close>

datatype arg_kind = ArgHelp | ArgNeedsValue opt_name | ArgValue opt_name string | ArgUnknown | ArgPlain

definition classify_opt :: "string \<Rightarrow> opt_name \<Rightarrow> arg_kind option" where
  "classify_opt arg n =
     (let t = opt_text n in
      if arg = t \<or> arg = CHR ''-'' # t then Some (ArgNeedsValue n)
      else if HasPrefix arg (t @ ''='') then Some (ArgValue n (TrimPrefix arg (t @ ''='')))
      else if HasPrefix arg (CHR ''-'' # t @ ''='') then
        Some (ArgValue n (TrimPrefix arg (CHR ''-'' # t @ ''='')))
      else None)"

fun first_class :: "string \<Rightarrow> opt_name list \<Rightarrow> arg_kind" where
  "first_class arg [] = (if HasPrefix arg ''-'' then ArgUnknown else ArgPlain)"
| "first_class arg (n # ns) =
     (case classify_opt arg n of Some k \<Rightarrow> k | None \<Rightarrow> first_class arg ns)"

definition classify :: "string \<Rightarrow> arg_kind" where
  "classify arg =
     (if arg = ''-h'' \<or> arg = ''--help'' then ArgHelp
      else first_class arg [OptSock, OptProtocol, OptAction, OptPriority, OptDport, OptSport])"

function (sequential) extract_loop :: "string list \<Rightarrow> options \<Rightarrow> option_result" where
  "extract_loop [] op = Parsed op"
| "extract_loop (arg # rest) op =
     (case classify arg of
        ArgHelp \<Rightarrow> HelpExit
      | ArgNeedsValue n \<Rightarrow>
          (case rest of
             [] \<Rightarrow> OptionError (MissingArgument arg)
           | v # rest' \<Rightarrow>
               (case store_option n v op of
                  Inl e \<Rightarrow> OptionError e
                | Inr op' \<Rightarrow> extract_loop rest' op'))
      | ArgValue n v \<Rightarrow>
          (case store_option n v op of
             Inl e \<Rightarrow> OptionError e
           | Inr op' \<Rightarrow> extract_loop rest op')
      | ArgUnknown \<Rightarrow> OptionError (UnknownOption arg)
      | ArgPlain \<Rightarrow> extract_loop rest (op\<lparr>op_args := op_args op @ [arg]\<rparr>))"
  by pat_completeness auto
termination
  by (relation "measure (\<lambda>(raw, op). length raw)") auto

definition default_options :: options where
  "default_options = \<lparr>op_args = [], op_sockPath = ''/var/run/ebpf-firewall.sock'',
     op_protocol = '''', op_action = '''', op_port = 0, op_sport = 0, op_priority = 0\<rparr>"

definition extractOptions :: "string list \<Rightarrow> option_result" where
  "extractOptions raw = extract_loop raw default_options"

section \<open>Commands\<close>

text \<open>What \<open>main\<close> does before it talks to the daemon: exit with a code and a message, or send a request.\<close>

datatype ctl_message =
    UsageText
  | OptionMessage ctl_error
  | RequiresAddress string
  | RequiresPolicy
  | UnknownCommandUsage string

datatype ctl_plan = CtlExit nat ctl_message | CtlSend string Request

text \<open>The lines \<open>usage\<close> prints.\<close>

definition usage :: "string list" where
  "usage =
     [''Usage: firewallctl [-sock path] [-protocol p] [-dport n] [-sport n] [-action a] [-priority n] <command> [args]'',
      '''',
      ''Options may appear before or after the command, e.g.'',
      ''  firewallctl block 1.2.3.4 --protocol tcp --dport 22'',
      ''  firewallctl --dport 443 --protocol udp --sport 12345 unblock 1.2.3.4'',
      ''  firewallctl block 10.0.0.0/8 --action drop --priority 100'',
      ''  firewallctl block 10.0.0.1 --action pass --priority 200'',
      '''',
      ''Commands:'',
      ''  status                 show firewall status'',
      ''  list                   list blocked IPs/CIDRs'',
      ''  listports              list protocol/port rules'',
      ''  block <ip/cidr>        block an IP/CIDR, or with --protocol/--dport a port rule'',
      ''  unblock <ip/cidr>      unblock an IP/CIDR or port rule'',
      ''  default allow|deny     set the default (fallback) policy on no match'',
      ''  clear                  remove all rules (IP blocklist, port rules, conntrack)'',
      ''  stats                  show packet/byte counters'',
      ''  conntrack              list tracked TCP flows'',
      ''  help                   show this help'',
      '''',
      ''Options:'',
      ''  -sock path       control socket path (default /var/run/ebpf-firewall.sock)'',
      ''  -protocol p      protocol for a port rule: tcp or udp'',
      ''  -dport n         destination port for a port rule'',
      ''  -sport n         source port for a port rule (0 = any source port)'',
      ''  -action a        rule action: pass or drop (default drop)'',
      ''  -priority n      rule priority (0-4294967295, default 0); among rules that'',
      ''                   match a packet the highest priority wins. At equal'',
      ''                   priority the more specific port rule wins and a tie'',
      ''                   between an IP rule and a port rule resolves to drop'']"

definition plain_request :: "string \<Rightarrow> Request" where
  "plain_request c = \<lparr>rq_Command = c, rq_Value = '''', rq_Protocol = '''', rq_Port = 0,
     rq_SPort = 0, rq_Action = '''', rq_Priority = 0\<rparr>"

definition ctl_main :: "string list \<Rightarrow> ctl_plan" where
  "ctl_main raw =
     (case extractOptions raw of
        HelpExit \<Rightarrow> CtlExit 0 UsageText
      | OptionError e \<Rightarrow> CtlExit 2 (OptionMessage e)
      | Parsed op \<Rightarrow>
          (case op_args op of
             [] \<Rightarrow> CtlExit 2 UsageText
           | cmd # others \<Rightarrow>
               if cmd = ''block'' \<or> cmd = ''unblock'' then
                 (case others of
                    [] \<Rightarrow> CtlExit 2 (RequiresAddress cmd)
                  | value # _ \<Rightarrow>
                      CtlSend (op_sockPath op)
                        \<lparr>rq_Command = cmd, rq_Value = value, rq_Protocol = op_protocol op,
                         rq_Port = of_nat (op_port op), rq_SPort = of_nat (op_sport op),
                         rq_Action = op_action op, rq_Priority = of_nat (op_priority op)\<rparr>)
               else if cmd = ''list'' then CtlSend (op_sockPath op) (plain_request CmdList)
               else if cmd = ''listports'' then CtlSend (op_sockPath op) (plain_request CmdListPorts)
               else if cmd = ''status'' then CtlSend (op_sockPath op) (plain_request CmdStatus)
               else if cmd = ''clear'' then CtlSend (op_sockPath op) (plain_request CmdClear)
               else if cmd = ''stats'' then CtlSend (op_sockPath op) (plain_request CmdStats)
               else if cmd = ''conntrack'' then CtlSend (op_sockPath op) (plain_request CmdConntrack)
               else if cmd = ''default'' then
                 (case others of
                    [] \<Rightarrow> CtlExit 2 RequiresPolicy
                  | value # _ \<Rightarrow>
                      CtlSend (op_sockPath op) ((plain_request CmdDefault)\<lparr>rq_Value := value\<rparr>))
               else if cmd = ''help'' \<or> cmd = ''-h'' \<or> cmd = ''--help'' then CtlExit 0 UsageText
               else CtlExit 2 (UnknownCommandUsage cmd)))"

section \<open>Rendering a reply\<close>

text \<open>A printed item: literal text, an integer, a number of seconds (printed \<open>%.1f\<close>), or a byte
  count scaled by a power of 1024 (printed \<open>%.1f\<close> of the quotient).\<close>

datatype byte_text = PlainBytes u64 | ScaledBytes u64 u64 char | BytesPanic

text \<open>The loop \<open>for n := b / unit; n >= unit; n /= unit { div *= unit; exp++ }\<close>.\<close>

function scale_loop :: "u64 \<Rightarrow> u64 \<Rightarrow> nat \<Rightarrow> u64 \<times> nat" where
  "scale_loop n dv ex =
     (if n \<ge> 1024 then scale_loop (n div 1024) (dv * 1024) (ex + 1) else (dv, ex))"
  by pat_completeness auto
termination
proof (relation "measure (\<lambda>(n, dv, ex). unat n)")
  fix n dv :: u64 and ex :: nat
  assume "1024 \<le> n"
  then have "1024 \<le> unat n" by (simp add: word_le_nat_alt)
  then show "((n div 1024, dv * 1024, ex + 1), n, dv, ex) \<in> measure (\<lambda>(n, dv, ex). unat n)"
    by (simp add: unat_div)
qed simp

declare scale_loop.simps [simp del]

definition formatBytes :: "u64 \<Rightarrow> byte_text" where
  "formatBytes b =
     (if b < 1024 then PlainBytes b
      else
        (let (dv, ex) = scale_loop (b div 1024) 1024 0 in
         if ex < length ''KMGTPE'' then ScaledBytes b dv (''KMGTPE'' ! ex) else BytesPanic))"

datatype out_item = Txt string | Num nat | SInt int | AgeSec float64 | Bytes byte_text | NewLine

definition print_port_rule :: "PortRule \<Rightarrow> out_item list" where
  "print_port_rule r =
     [Txt ''  '', Txt (pr_Protocol r), Txt ''/'', Num (unat (pr_Port r))] @
     (if pr_SPort r \<noteq> 0 then [Txt '' (sport '', Num (unat (pr_SPort r)), Txt '')''] else []) @
     [Txt '' -> '', Txt (pr_Dst r), Txt '' ['', Txt (pr_Action r), Txt ''] prio '',
      Num (unat (pr_Priority r)), NewLine]"

definition print_flow :: "ConntrackEntry \<Rightarrow> out_item list" where
  "print_flow e =
     [Txt ''  '', Txt (ce_Src e), Txt '':'', Num (unat (ce_Sport e)), Txt '' -> '', Txt (ce_Dst e),
      Txt '':'', Num (unat (ce_Dport e)), Txt '' '', Txt (ce_Protocol e), Txt '' ['', Txt (ce_State e),
      Txt ''] age '', AgeSec (ce_AgeSeconds e), Txt ''s'', NewLine]"

definition print_rule :: "BlockedRule \<Rightarrow> out_item list" where
  "print_rule r =
     [Txt ''  '', Txt (br_Cidr r), Txt '' ['', Txt (br_Action r), Txt ''] prio '',
      Num (unat (br_Priority r)), NewLine]"

definition print_line :: "string \<Rightarrow> out_item list" where
  "print_line s = [Txt s, NewLine]"

definition printStats :: "Stats \<Rightarrow> out_item list" where
  "printStats s =
     print_line ''Packets:'' @
     [Txt ''  Total:   '', Num (unat (st_TotalPackets s)), NewLine,
      Txt ''  Passed:  '', Num (unat (st_PassPackets s)), NewLine,
      Txt ''  Dropped: '', Num (unat (st_DropPackets s)), NewLine, NewLine] @
     print_line ''Bytes:'' @
     [Txt ''  Total:   '', Bytes (formatBytes (st_TotalBytes s)), NewLine,
      Txt ''  Passed:  '', Bytes (formatBytes (st_PassBytes s)), NewLine,
      Txt ''  Dropped: '', Bytes (formatBytes (st_DropBytes s)), NewLine]"

text \<open>The result: printed text, or an exit with the error (code 1).\<close>

datatype print_result = Printed "out_item list" | PrintExit nat "fw_error option"

definition printResponse :: "Response \<Rightarrow> print_result" where
  "printResponse resp =
     (if \<not> rs_OK resp then PrintExit 1 (rs_Error resp)
      else Printed
        (case rs_Stats resp of
           Some s \<Rightarrow> printStats s
         | None \<Rightarrow>
             if rs_PortRules resp \<noteq> None then
               (if rs_Count resp = 0 then print_line ''no port rules''
                else print_line ''port rules:'' @ concat (map print_port_rule (slice_list (rs_PortRules resp))))
             else if rs_Conntrack resp \<noteq> None then
               (if rs_Count resp = 0 then print_line ''no tracked flows''
                else [Txt ''conntrack ('', SInt (rs_Count resp), Txt ''):'', NewLine] @
                  concat (map print_flow (slice_list (rs_Conntrack resp))))
             else if rs_Blocked resp \<noteq> None \<or> rs_BlockedRules resp \<noteq> None then
               (if rs_Count resp = 0 then print_line ''no blocked addresses''
                else [Txt ''blocked ('', SInt (rs_Count resp), Txt ''):'', NewLine] @
                  (if slice_len (rs_BlockedRules resp) > 0
                   then concat (map print_rule (slice_list (rs_BlockedRules resp)))
                   else concat (map (\<lambda>cidr. [Txt ''  '', Txt cidr, NewLine]) (slice_list (rs_Blocked resp)))))
             else if rs_Iface resp \<noteq> '''' then
               [Txt ''interface: '', Txt (rs_Iface resp), NewLine] @
               (if rs_AttachMode resp \<noteq> '''' then [Txt ''attach mode: '', Txt (rs_AttachMode resp), NewLine] else []) @
               [Txt ''control plane: '', Txt (if rs_Attached resp then ''true'' else ''false''), NewLine,
                Txt ''blocked: '', SInt (rs_Count resp), NewLine,
                Txt ''default policy: '', Txt (rs_Default resp), NewLine]
             else print_line ''ok''))"

section \<open>Facts about the parser\<close>

definition options_ok :: "options \<Rightarrow> bool" where
  "options_ok op \<longleftrightarrow> op_port op < 2 ^ 16 \<and> op_sport op < 2 ^ 16 \<and> op_priority op < 2 ^ 32"

lemma options_ok_args [simp]: "options_ok (op\<lparr>op_args := a\<rparr>) = options_ok op"
  by (simp add: options_ok_def)

lemma store_option_ok: "store_option n v op = Inr op' \<Longrightarrow> options_ok op \<Longrightarrow> options_ok op'"
  by (cases n) (auto simp: store_option_def options_ok_def parsePort_def parsePriority_def
      split: sum.splits option.splits dest: ParseUint_bound)

lemma extract_loop_ok: "extract_loop raw op = Parsed op' \<Longrightarrow> options_ok op \<Longrightarrow> options_ok op'"
proof (induction raw op rule: extract_loop.induct)
  case (2 arg rest op)
  show ?case
  proof (cases "classify arg")
    case (ArgNeedsValue n)
    with 2(4) obtain v rest' o1 where
        r: "rest = v # rest'" "store_option n v op = Inr o1" "extract_loop rest' o1 = Parsed op'"
      by (auto split: list.splits sum.splits)
    from 2(1) [OF ArgNeedsValue r] store_option_ok [OF r(2) 2(5)] show ?thesis .
  next
    case (ArgValue n v)
    with 2(4) obtain o1 where r: "store_option n v op = Inr o1" "extract_loop rest o1 = Parsed op'"
      by (auto split: sum.splits)
    from 2(2) [OF ArgValue r] store_option_ok [OF r(1) 2(5)] show ?thesis .
  qed (use 2 in simp_all)
qed simp

text \<open>Parsing a command line in two parts.\<close>

lemma extract_loop_append:
  "extract_loop xs op = Parsed op' \<Longrightarrow> extract_loop (xs @ ys) op = extract_loop ys op'"
  by (induction xs op rule: extract_loop.induct)
    (auto split: arg_kind.splits list.splits sum.splits)

text \<open>Positional arguments and options commute: only their own order matters.\<close>

definition all_plain :: "string list \<Rightarrow> bool" where
  "all_plain ys \<longleftrightarrow> (\<forall>y \<in> set ys. classify y = ArgPlain)"

lemma extract_loop_plain:
  "all_plain ys \<Longrightarrow> extract_loop (ys @ zs) op = extract_loop zs (op\<lparr>op_args := op_args op @ ys\<rparr>)"
  by (induction ys arbitrary: op) (simp_all add: all_plain_def)

lemma store_option_args:
  "store_option n v (op\<lparr>op_args := a\<rparr>) = map_sum id (\<lambda>o'. o'\<lparr>op_args := a\<rparr>) (store_option n v op)"
  by (cases n) (simp_all add: store_option_def split: sum.splits)

lemma store_option_keeps: "store_option n v op = Inr op' \<Longrightarrow> op_args op' = op_args op"
  by (cases n) (auto simp: store_option_def split: sum.splits)

lemma extract_loop_prepend:
  "extract_loop xs op = Parsed op' \<Longrightarrow>
     extract_loop xs (op\<lparr>op_args := a @ op_args op\<rparr>) = Parsed (op'\<lparr>op_args := a @ op_args op'\<rparr>)"
proof (induction xs op rule: extract_loop.induct)
  case (2 arg rest op)
  show ?case
  proof (cases "classify arg")
    case (ArgNeedsValue n)
    with 2(4) obtain v rest' o1 where
        r: "rest = v # rest'" "store_option n v op = Inr o1" "extract_loop rest' o1 = Parsed op'"
      by (auto split: list.splits sum.splits)
    from 2(1) [OF ArgNeedsValue r] ArgNeedsValue r store_option_keeps [OF r(2)] show ?thesis
      by (simp add: store_option_args)
  next
    case (ArgValue n v)
    with 2(4) obtain o1 where r: "store_option n v op = Inr o1" "extract_loop rest o1 = Parsed op'"
      by (auto split: sum.splits)
    from 2(2) [OF ArgValue r] ArgValue r store_option_keeps [OF r(1)] show ?thesis
      by (simp add: store_option_args)
  next
    case ArgPlain
    with 2 show ?thesis by simp
  qed (use 2 in simp_all)
qed simp

lemma options_commute:
  assumes "extract_loop xs default_options = Parsed op" "op_args op = []" "all_plain ys"
  shows "extractOptions (ys @ xs) = extractOptions (xs @ ys)"
proof -
  have "extractOptions (xs @ ys) = extract_loop (ys @ []) op"
    using extract_loop_append [OF assms(1), of ys] by (simp add: extractOptions_def)
  also have "\<dots> = Parsed (op\<lparr>op_args := ys\<rparr>)"
    using extract_loop_plain [OF assms(3), of "[]" op] assms(2) by simp
  also have "\<dots> = extractOptions (ys @ xs)"
    using extract_loop_plain [OF assms(3), of xs default_options]
      extract_loop_prepend [OF assms(1), of ys] assms(2)
    by (simp add: extractOptions_def default_options_def)
  finally show ?thesis by simp
qed

section \<open>Byte counts\<close>

lemma scale_loop_spec:
  assumes "scale_loop n dv ex = (dv', ex')" "unat dv = 1024 ^ Suc ex"
    "unat n = b div 1024 ^ Suc ex" "n \<noteq> 0" "b < 2 ^ 64"
  shows "unat dv' = 1024 ^ Suc ex' \<and> 1024 ^ Suc ex' \<le> b \<and> b < 1024 ^ Suc (Suc ex')"
  using assms
proof (induction n dv ex rule: scale_loop.induct)
  case (1 n dv ex)
  show ?case
  proof (cases "1024 \<le> n")
    case True
    then have "1024 \<le> unat n" by (simp add: word_le_nat_alt)
    then have "1024 * 1024 ^ Suc ex \<le> b"
      using 1(4) by (simp add: less_eq_div_iff_mult_less_eq)
    then have "1024 * unat dv < 2 ^ 64" using 1 by simp
    then have d: "unat (dv * 1024) = 1024 ^ Suc (Suc ex)"
      using 1(3) by (simp add: unat_word_ariths(2) mult.commute)
    have n: "unat (n div 1024) = b div 1024 ^ Suc (Suc ex)"
    proof -
      have "unat (n div 1024) = unat n div 1024" by (simp add: unat_div)
      also have "\<dots> = b div (1024 ^ Suc ex * 1024)" unfolding 1(4) div_mult2_eq ..
      finally show ?thesis by (simp only: power_Suc mult.commute)
    qed
    have "n div 1024 \<noteq> 0"
      using \<open>1024 \<le> unat n\<close> by (simp flip: unat_eq_0 add: unat_div)
    moreover have "scale_loop (n div 1024) (dv * 1024) (Suc ex) = (dv', ex')"
      using 1(2) True by (simp add: scale_loop.simps [of n])
    ultimately show ?thesis using 1(1) [OF True] d n 1(6) by simp
  next
    case False
    then have "unat n < 1024" by (simp add: word_le_nat_alt)
    moreover have "dv' = dv" "ex' = ex" using 1(2) False by (simp_all add: scale_loop.simps [of n])
    ultimately show ?thesis using 1
      by (auto simp: unat_eq_0 [symmetric] div_less_iff_less_mult div_greater_zero_iff)
  qed
qed

lemma formatBytes_scaled:
  assumes "b \<ge> 1024"
  shows "\<exists>dv ex. formatBytes b = ScaledBytes b dv (''KMGTPE'' ! ex) \<and> ex < 6 \<and>
    unat dv = 1024 ^ Suc ex \<and> unat dv \<le> unat b \<and> unat b < 1024 * unat dv"
proof -
  obtain dv ex where s: "scale_loop (b div 1024) 1024 0 = (dv, ex)" by fastforce
  have "unat b < 2 ^ 64" using unsigned_less [of b] by simp
  moreover have "b div 1024 \<noteq> 0"
    using assms by (simp flip: unat_eq_0 add: unat_div word_le_nat_alt)
  ultimately have r: "unat dv = 1024 ^ Suc ex" "1024 ^ Suc ex \<le> unat b" "unat b < 1024 ^ Suc (Suc ex)"
    using scale_loop_spec [OF s, of "unat b"] by (simp_all add: unat_div)
  have "ex < 6"
  proof (rule ccontr)
    assume "\<not> ex < 6"
    then have "(1024 :: nat) ^ Suc 6 \<le> 1024 ^ Suc ex" by (intro power_increasing) simp_all
    with r(2) \<open>unat b < 2 ^ 64\<close> show False by simp
  qed
  with r s assms show ?thesis by (auto simp: formatBytes_def)
qed

end
