(* ===== verification/Examples.thy ===== *)
theory Examples
  imports System Api Ctl
begin

text \<open>
  Concrete states, requests and packets on the reference kernel, evaluated once, for the witnesses
  of the properties.
\<close>

section \<open>Keys\<close>

definition k10 :: firewallIpv4LpmKey where "k10 = \<lparr>lk_Prefixlen = 8, lk_Data = 10\<rparr>"
definition drop5 :: ruleValue where "drop5 = \<lparr>rv_Action = ActionDrop, rv_Priority = 5\<rparr>"

lemma canon_k10: "canon_key k10"
  by code_simp

lemma cidr_k10: "lpm_cidr k10 = ''10.0.0.0/8''"
  by code_simp

lemma rule_key_k10: "rule_key ''10.0.0.0/8'' = Inr k10"
  using rule_key_lpm_cidr [OF canon_k10] by (simp only: cidr_k10)

lemma lpm_norm_k10: "lpm_norm k10 = k10"
  by (rule lpm_norm_canon [OF canon_k10])

lemma fits_k10: "lpm_fits k10"
  by code_simp

definition web_key :: firewallPortRuleKey where
  "web_key = \<lparr>pk_Protocol = 6, pk_Dport = portToWire 22, pk_Sport = 0, pk_Dst = le32 192 168 1 1\<rparr>"

lemma le_ip_web: "le_ip_str (le32 192 168 1 1) = ''192.168.1.1''"
  by code_simp

lemma port_key_web: "port_key ''192.168.1.1'' ''tcp'' 22 0 = Inr web_key"
  using newPortKey_str [of "le32 192 168 1 1" protoTCP 22 0]
  unfolding le_ip_web by (simp add: port_key_def web_key_def protoTCP_def)

section \<open>Worlds\<close>

definition blocked_kernel :: kernel where
  "blocked_kernel = boot_kernel\<lparr>k_ip := [(k10, drop5)], k_pres := [(0, 1)]\<rparr>"

definition web_kernel :: kernel where
  "web_kernel = boot_kernel\<lparr>k_port := [(web_key, drop5)], k_pres := [(0, 2)]\<rparr>"

lemmas op_eval = ref_eval boot_kernel_def setPresenceBit_def clearPresenceBit_def table_insert_def
  table_remove_def table_sync_def table_clear_def mapHasEntries_def rulePresenceIP_def
  rulePresencePort_def

text \<open>The loops on a literal bound, one turn at a time.\<close>

lemma iter_numeral:
  "iter_list M (numeral q) w it =
     (case m_next M w it of
        Done e \<Rightarrow> ([], e)
      | Yield k v it' \<Rightarrow> (case iter_list M (pred_numeral q) w it' of (es, e) \<Rightarrow> ((k, v) # es, e)))"
  "iter_delete M (numeral q) w it =
     (case m_next M w it of
        Done e \<Rightarrow> (w, e)
      | Yield k v it' \<Rightarrow>
          (case m_delete M w k of
             (w', Some e) \<Rightarrow> (w', Some e)
           | (w', None) \<Rightarrow> iter_delete M (pred_numeral q) w' it'))"
  by (simp_all add: numeral_eq_Suc)

lemmas loop_eval = op_eval iterate_all_def delete_all_def iter_numeral

lemma block_boot:
  "MapManager_BlockIPWithActionPriority (fw_mgr ref_fw) ''10.0.0.0/8'' ActionDrop 5 boot_kernel =
     (blocked_kernel, None)"
  by (simp add: MapManager_Block_eq rule_key_k10 op_eval fits_k10 lpm_norm_k10 blocked_kernel_def drop5_def)

lemma block_port_boot:
  "PortPolicyManager_BlockWithActionPriority (fw_portPolicyMgr ref_fw) ''192.168.1.1'' ''tcp'' 22 0
     ActionDrop 5 boot_kernel = (web_kernel, None)"
  by (simp add: PortPolicyManager_Block_eq port_key_web op_eval web_kernel_def drop5_def)

lemma unblock_blocked:
  "MapManager_UnblockIP (fw_mgr ref_fw) ''10.0.0.0/8'' blocked_kernel =
     (boot_kernel\<lparr>k_pres := [(0, 0)]\<rparr>, None)"
  by (simp add: MapManager_Unblock_eq rule_key_k10 op_eval fits_k10 lpm_norm_k10 blocked_kernel_def)

lemma unblock_web:
  "PortPolicyManager_UnblockWithAction (fw_portPolicyMgr ref_fw) ''192.168.1.1'' ''tcp'' 22 0 web_kernel =
     (boot_kernel\<lparr>k_pres := [(0, 0)]\<rparr>, None)"
  by (simp add: PortPolicyManager_Unblock_eq port_key_web op_eval web_kernel_def)

lemma boot_maps_ok: "maps_ok (kernel_maps boot_kernel)"
  by (simp add: maps_ok_def kernel_maps_def boot_kernel_def presence_ok_def config_policy_def
      array_entries_def configKey_def enum_defs)

lemma blocked_maps_ok: "maps_ok (kernel_maps blocked_kernel)"
  using ref.B.Block_effect [OF block_boot] boot_maps_ok
  by (auto simp: rule_key_k10 intro!: maps_ok_insert_ip simp: rule_ok_def)

lemma web_maps_ok: "maps_ok (kernel_maps web_kernel)"
  using ref.Po.Block_effect [OF block_port_boot] boot_maps_ok port_key_proto [OF port_key_web]
  by (auto simp: port_key_web intro!: maps_ok_insert_port simp: rule_ok_def)

section \<open>Packets\<close>

definition demo_env :: dp_env where
  "demo_env = \<lparr>dp_lpm = lpm_ref, dp_ktime = 7, dp_update_ct = (\<lambda>c k v. c(k \<mapsto> v))\<rparr>"

lemma demo_env_ok: "dp_env_ok demo_env"
  by (simp add: dp_env_ok_def demo_env_def lpm_ref_longest)

definition demo_frame :: "u32 \<Rightarrow> u32 \<Rightarrow> u16 \<Rightarrow> u16 \<Rightarrow> u8 \<Rightarrow> u8 list" where
  "demo_frame src dst sport dport flags =
     tcp_frame (replicate 12 0) (replicate 8 0) [0, 0] src dst [] sport dport (replicate 8 0) 0x50 flags
       (replicate 6 0)"

lemma parse_demo_frame:
  "parse_packet (demo_frame src dst sport dport flags) =
     Some \<lparr>pi_saddr = src, pi_daddr = dst, pi_protocol = 6, pi_dport = dport, pi_sport = sport,
       pi_tcp_flags = tcp_flag_bits flags\<rparr>"
  unfolding demo_frame_def by (rule parse_tcp_frame [where n = 0]) simp_all

text \<open>A host inside 10.0.0.0/8 talks to 192.168.1.1, port 22.\<close>

definition host10 :: u32 where "host10 = le32 10 1 2 3"
definition web_host :: u32 where "web_host = le32 192 168 1 1"

definition syn_frame :: "u8 list" where
  "syn_frame = demo_frame host10 web_host (portToWire 40000) (portToWire 22) TCP_SYN"

definition ack_frame :: "u8 list" where
  "ack_frame = demo_frame host10 web_host (portToWire 40000) (portToWire 22) TCP_ACK"

definition fin_frame :: "u8 list" where
  "fin_frame = demo_frame host10 web_host (portToWire 40000) (portToWire 22) (TCP_FIN OR TCP_ACK)"

definition demo_info :: "u8 \<Rightarrow> packet_info" where
  "demo_info flags = \<lparr>pi_saddr = host10, pi_daddr = web_host, pi_protocol = 6,
     pi_dport = portToWire 22, pi_sport = portToWire 40000, pi_tcp_flags = flags\<rparr>"

definition demo_flow :: ctKey where
  "demo_flow = \<lparr>ck_Saddr = host10, ck_Daddr = web_host, ck_Sport = portToWire 40000,
     ck_Dport = portToWire 22, ck_Protocol = 6\<rparr>"

lemma parse_frames:
  "parse_packet syn_frame = Some (demo_info TCP_SYN)"
  "parse_packet ack_frame = Some (demo_info TCP_ACK)"
  "parse_packet fin_frame = Some (demo_info (TCP_FIN OR TCP_ACK))"
  by (simp_all add: syn_frame_def ack_frame_def fin_frame_def parse_demo_frame demo_info_def)
    (code_simp, code_simp, code_simp)

lemma demo_info_key [simp]: "ct_build_key (demo_info f) = demo_flow"
  by (simp add: demo_info_def ct_build_key_def demo_flow_def)

lemma demo_info_simps [simp]:
  "pi_protocol (demo_info f) = 6" "pi_tcp_flags (demo_info f) = f" "pi_saddr (demo_info f) = host10"
  "pi_daddr (demo_info f) = web_host"
  by (simp_all add: demo_info_def)

lemma covers_host10: "covers k10 host10" "\<not> covers k10 web_host"
  by code_simp+

lemma blocked_entries:
  "blocked_ips (kernel_maps blocked_kernel) k = (if k = k10 then Some drop5 else None)"
  "dom (blocked_ips (kernel_maps blocked_kernel)) = {k10}"
  by (auto simp: kernel_maps_def blocked_kernel_def boot_kernel_def)

lemma blocked_no_ports: "port_policy (kernel_maps blocked_kernel) = Map.empty"
  by (simp add: kernel_maps_def blocked_kernel_def boot_kernel_def)

text \<open>Maps under default deny with no rule, and with a rule passing everything to the web host.\<close>

definition deny_maps :: fw_maps where
  "deny_maps = fresh_maps\<lparr>firewall_config := (firewall_config fresh_maps)(configKey \<mapsto> DefaultDeny)\<rparr>"

definition pass_maps :: fw_maps where
  "pass_maps = port_inserted web_key \<lparr>rv_Action = ActionPass, rv_Priority = 0\<rparr> deny_maps"

lemma deny_maps_ok: "maps_ok deny_maps"
  unfolding deny_maps_def by (intro maps_ok_config maps_ok_fresh) simp

lemma pass_maps_ok: "maps_ok pass_maps"
  unfolding pass_maps_def
  by (intro maps_ok_insert_port deny_maps_ok port_key_proto [OF port_key_web]) (simp add: rule_ok_def)

lemma default_deny_maps: "default_policy deny_maps = DefaultDeny" "default_policy pass_maps = DefaultDeny"
  by (simp_all add: default_policy_def deny_maps_def pass_maps_def configKey_def)

section \<open>Requests\<close>

definition demo_server :: "(kernel, nat) Server" where
  "demo_server = New_Server ''/var/run/ebpf-firewall.sock'' (firewall_policy ref_fw)"

lemma demo_server_policy: "sv_policy demo_server = firewall_policy ref_fw"
  by (simp add: demo_server_def New_Server_def)

definition block_request :: Request where
  "block_request = (plain_request ''block'')\<lparr>rq_Value := ''10.0.0.0/8'', rq_Action := ''drop'', rq_Priority := 5\<rparr>"

lemma handle_block_demo: "Server_handle demo_server block_request boot_kernel = (blocked_kernel, okResponse)"
  by (simp add: Server_handle_def demo_server_policy block_request_def plain_request_def cmd_defs
      handle_block_def reply_unit_def Firewall_BlockIPWithActionPriority_def ParseAction_def
      enum_defs [symmetric] block_boot wrap_err_def)

lemma block_request_simps [simp]:
  "rq_Command block_request = CmdBlock" "rq_Value block_request = ''10.0.0.0/8''"
  "rq_Protocol block_request = ''''" "rq_Port block_request = 0" "rq_SPort block_request = 0"
  "rq_Action block_request = ''drop''" "rq_Priority block_request = 5"
  by (simp_all add: block_request_def plain_request_def cmd_defs)

lemma handle_clear_demo:
  "Server_handle demo_server (plain_request ''clear'') blocked_kernel =
     (boot_kernel\<lparr>k_pres := [(0, 0)]\<rparr>, okResponse)"
  by (simp add: Server_handle_def demo_server_policy plain_request_def cmd_defs handle_clear_def
      reply_unit_def Firewall_Clear_def Firewall_ClearPortRules_def Firewall_ClearConntrack_def
      MapManager_Clear_eq PortPolicyManager_Clear_eq ConntrackManager_Clear_def ConntrackManager_keys_def loop_eval
      blocked_kernel_def fits_k10 lpm_norm_k10)

lemma list_blocked:
  "MapManager_ListBlockedRules (fw_mgr ref_fw) blocked_kernel =
     Inr (Some [\<lparr>br_Cidr = ''10.0.0.0/8'', br_Action = ''drop'', br_Priority = 5\<rparr>])"
  by (simp add: MapManager_ListBlockedRules_def loop_eval blocked_kernel_def append_all_def blockedRuleOf_def cidr_k10 drop5_def Action_String_def enum_defs)

lemma handle_list_demo:
  "Server_handle demo_server (plain_request ''list'') blocked_kernel =
     (blocked_kernel, okResponse\<lparr>rs_Blocked := Some [''10.0.0.0/8''],
        rs_BlockedRules := Some [\<lparr>br_Cidr = ''10.0.0.0/8'', br_Action = ''drop'', br_Priority = 5\<rparr>], rs_Count := 1\<rparr>)"
  by (simp add: Server_handle_def demo_server_policy plain_request_def cmd_defs handle_list_def firewall_policy_def
      Firewall_ListBlockedRules_def list_blocked)

section \<open>A dropped packet\<close>

lemma syn_verdict: "packet_verdict demo_env (kernel_maps blocked_kernel) (demo_info TCP_SYN) = XDP_DROP"
proof -
  let ?m = "kernel_maps blocked_kernel"
  have lp: "longest_prefix (dp_lpm demo_env)" using demo_env_ok by (simp add: dp_env_ok_def)
  have "ip_block_action demo_env ?m (demo_info TCP_SYN) = Some drop5"
    by (rule ip_block_action_source [where k = k10, OF lp maps_ok_canon [OF blocked_maps_ok]])
      (simp_all add: covers_host10 blocked_entries split: if_splits)
  moreover have "port_rule_action ?m (demo_info TCP_SYN) = None"
    by (rule port_rule_action_empty) (rule blocked_no_ports)
  ultimately show ?thesis
    by (simp add: packet_verdict_code decide_def rule_verdict_def drop5_def)
qed

definition dropped_kernel :: kernel where
  "dropped_kernel = blocked_kernel\<lparr>k_cnt := [(0, \<lparr>cnt_Packets = 1, cnt_Bytes = 54\<rparr>),
     (1, \<lparr>cnt_Packets = 1, cnt_Bytes = 54\<rparr>)]\<rparr>"

lemma syn_dropped:
  "kernel_maps dropped_kernel = fst (firewall_prog demo_env syn_frame (kernel_maps blocked_kernel))"
proof -
  let ?m = "kernel_maps blocked_kernel"
  have p: "firewall_prog demo_env syn_frame ?m = prog_spec demo_env syn_frame ?m"
    by (simp add: prog_refines maps_ok_presence blocked_maps_ok demo_env_ok)
  have l: "length syn_frame = 54"
    by (simp add: syn_frame_def demo_frame_def tcp_frame_def data_bytes_def)
  have zero: "counters ?m = [0 \<mapsto> zero_counter, 1 \<mapsto> zero_counter, 2 \<mapsto> zero_counter]"
    by (simp add: kernel_maps_def blocked_kernel_def boot_kernel_def array_entries_def
        numeral_3_eq_3 fun_eq_iff)
  have "counters (kernel_maps dropped_kernel) = counters (fst (prog_spec demo_env syn_frame ?m))"
    by (simp add: prog_spec_def verdict_of_def parse_frames syn_verdict tracks_def l count_packet_def
        incr_counter_def zero counter_idx_defs zero_counter_def)
      (simp add: dropped_kernel_def kernel_maps_def array_entries_def numeral_3_eq_3
        zero_counter_def fun_eq_iff)
  then show ?thesis
    unfolding p
    by (simp add: prog_spec_def verdict_of_def parse_frames syn_verdict tracks_def)
       (simp add: dropped_kernel_def kernel_maps_def)
qed

end
