(* ===== verification/DatapathProps.thy ===== *)
theory DatapathProps
  imports Examples
begin

text \<open>
  The properties of the XDP program, each with a witness on the concrete states and packets of the
  theory of examples: the parser, the rule lookups, the decision, the fast path, the counters and
  connection tracking.
\<close>

section \<open>Parsing\<close>

text \<open>Claim C32: a well-formed TCP frame, whatever its IPv4 options and payload, is parsed to the
  addresses, ports and flags it was built from.\<close>

theorem tcp_frame_parsed:
  assumes "length mac = 12" "length h1 = 8" "length csum = 2" "length opts = 4 * n" "n \<le> 10"
    "length sa = 8" "6 \<le> length rest"
  shows "parse_packet (tcp_frame mac h1 csum src dst opts sport dport sa off flags rest) =
    Some \<lparr>pi_saddr = src, pi_daddr = dst, pi_protocol = IPPROTO_TCP, pi_dport = dport,
      pi_sport = sport, pi_tcp_flags = tcp_flag_bits flags\<rparr>"
  using parse_tcp_frame [OF assms] by (simp add: IPPROTO_TCP_def)

theorem tcp_frame_parsed_witness:
  "parse_packet (tcp_frame (replicate 12 1) (replicate 8 0) [0, 0] host10 web_host [1, 1, 1, 1]
     (portToWire 40000) (portToWire 22) (replicate 8 0) 0x50 0x12 (replicate 9 0)) =
   Some \<lparr>pi_saddr = host10, pi_daddr = web_host, pi_protocol = IPPROTO_TCP,
     pi_dport = portToWire 22, pi_sport = portToWire 40000, pi_tcp_flags = tcp_flag_bits 0x12\<rparr>"
  by (rule tcp_frame_parsed [where n = 1]) simp_all

section \<open>Lookups and decision\<close>

text \<open>Claim C16: the IP table's rule for a packet is the entry with the longest prefix covering the
  source, else the one with the longest prefix covering the destination, else none.\<close>

theorem ip_lookup_longest:
  assumes "longest_prefix (dp_lpm env)" "\<forall>k \<in> dom (blocked_ips m). canon_key k"
  shows "case ip_block_action env m info of
      Some v \<Rightarrow> \<exists>k q. blocked_ips m k = Some v \<and> covers k q \<and>
        (\<forall>k' \<in> dom (blocked_ips m). covers k' q \<longrightarrow> unat (lk_Prefixlen k') \<le> unat (lk_Prefixlen k)) \<and>
        (q = pi_saddr info \<or>
         q = pi_daddr info \<and> (\<forall>k' \<in> dom (blocked_ips m). \<not> covers k' (pi_saddr info)))
    | None \<Rightarrow> \<forall>k \<in> dom (blocked_ips m). \<not> covers k (pi_saddr info) \<and> \<not> covers k (pi_daddr info)"
proof (cases "dp_lpm env (blocked_ips m) (host_key (pi_saddr info))")
  case (Some v)
  then have a: "ip_block_action env m info = Some v"
    by (simp add: ip_block_action_def host_key_def)
  from longest_prefix_Some [OF assms Some] show ?thesis unfolding a option.case by blast
next
  case None
  note src = longest_prefix_None [OF assms None]
  from None have a: "ip_block_action env m info = dp_lpm env (blocked_ips m) (host_key (pi_daddr info))"
    by (simp add: ip_block_action_def host_key_def)
  show ?thesis
  proof (cases "dp_lpm env (blocked_ips m) (host_key (pi_daddr info))")
    case (Some v)
    then obtain k where "blocked_ips m k = Some v" "covers k (pi_daddr info)"
        "\<forall>k' \<in> dom (blocked_ips m). covers k' (pi_daddr info) \<longrightarrow>
          unat (lk_Prefixlen k') \<le> unat (lk_Prefixlen k)"
      by (rule longest_prefix_Some [OF assms])
    then show ?thesis unfolding a Some option.case
      by (intro exI [of _ k] exI [of _ "pi_daddr info"] conjI disjI2 ballI) (simp_all add: src)
  next
    case None
    from longest_prefix_None [OF assms None] src show ?thesis unfolding a None option.case by blast
  qed
qed

theorem ip_lookup_longest_witness:
  "case ip_block_action demo_env (kernel_maps blocked_kernel) (demo_info TCP_SYN) of
      Some v \<Rightarrow> v = drop5 | None \<Rightarrow> False"
proof -
  let ?m = "kernel_maps blocked_kernel"
  have "longest_prefix (dp_lpm demo_env)" using demo_env_ok by (simp add: dp_env_ok_def)
  from ip_lookup_longest [OF this maps_ok_canon [OF blocked_maps_ok], of "demo_info TCP_SYN"]
  show ?thesis
    using covers_host10 by (auto split: option.splits if_splits simp: blocked_entries)
qed

text \<open>Claim C17: of the four probes of the port table the program keeps a rule of the highest
  priority, and among those the most specific one; it finds none exactly when all probes miss.\<close>

theorem port_rule_first_best:
  "case port_rule_action m info of
      Some v \<Rightarrow> (\<exists>xs ys. port_candidates m info = xs @ v # ys \<and>
        (\<forall>x \<in> set xs. rv_Priority x < rv_Priority v) \<and> (\<forall>y \<in> set ys. rv_Priority y \<le> rv_Priority v))
    | None \<Rightarrow> port_candidates m info = []"
  using port_rule_action_None [of m info] port_rule_action_Some [of m info]
  by (auto simp: first_best_def split: option.splits)

theorem port_rule_first_best_witness:
  "port_candidates pass_maps (demo_info TCP_SYN) = [\<lparr>rv_Action = ActionPass, rv_Priority = 0\<rparr>] \<and>
   port_rule_action pass_maps (demo_info TCP_SYN) = Some \<lparr>rv_Action = ActionPass, rv_Priority = 0\<rparr>"
proof -
  have "port_candidates pass_maps (demo_info TCP_SYN) = [\<lparr>rv_Action = ActionPass, rv_Priority = 0\<rparr>]"
    by (simp add: port_candidates_def List.map_filter_def port_probe_def pass_maps_def port_inserted_def
        web_key_def demo_info_def web_host_def deny_maps_def fresh_maps_def portToWire_inj)
  then show ?thesis
    using port_rule_first_best [of pass_maps "demo_info TCP_SYN"]
    by (auto split: option.splits simp: append_eq_Cons_conv Cons_eq_append_conv)
qed

text \<open>Claim C15: the decision over the matched rules is the strictest verdict (DROP above PASS)
  among those of highest priority, and the default policy when nothing matched.\<close>

theorem decide_strictest:
  "decide m ip port =
     (let R = set_option ip \<union> set_option port in
      if R = {} then default_verdict (default_policy m)
      else Max (rule_verdict ` {r \<in> R. rv_Priority r = Max (rv_Priority ` R)}))"
  by (simp add: decide_matches matches_verdict_def Let_def)

section \<open>The fast path\<close>

text \<open>Claim C14: with conservative presence flags the program, which skips the lookups of tables
  flagged empty, has exactly the verdict and effect of the specification that always looks both
  tables up.\<close>

theorem fast_path_exact:
  assumes "presence_ok m" "longest_prefix (dp_lpm env)"
  shows "firewall_prog env pkt m = prog_spec env pkt m"
  by (rule firewall_prog_refines [OF assms])

theorem fast_path_exact_witness:
  "snd (firewall_prog demo_env syn_frame (kernel_maps blocked_kernel)) = XDP_DROP"
proof -
  have "longest_prefix (dp_lpm demo_env)" using demo_env_ok by (simp add: dp_env_ok_def)
  then show ?thesis
    unfolding fast_path_exact [OF maps_ok_presence [OF blocked_maps_ok]]
    by (simp add: fast_path_exact [OF maps_ok_presence [OF blocked_maps_ok]] verdict_of_def
        parse_frames syn_verdict)
qed

section \<open>Counters\<close>

text \<open>Every packet is counted exactly once in total and once under its verdict, with its
  length, and the control plane's reading of the counters shows it.\<close>

lemma packet_counted:
  assumes "presence_ok m" "dp_env_ok env" "counters_ready m"
    "firewall_prog env pkt m = (m', v)"
  shows "counters_ready m' \<and> stats_of m' = counted v (of_nat (length pkt)) (stats_of m)"
  using assms stats_of_prog_spec [OF assms(3), of env pkt] counters_ready_prog_spec [of env pkt m]
    snd_prog_spec [of env pkt m]
  by (simp add: prog_refines)

lemma fresh_ready: "counters_ready fresh_maps" "counters_ready deny_maps" "counters_ready pass_maps"
  by (auto simp: counters_ready_def fresh_maps_def deny_maps_def pass_maps_def)

section \<open>Connection tracking\<close>

text \<open>Claim C21: a packet leaves the conntrack entry of a flow alone, or belongs to that flow, was
  accepted under default deny, and makes one transition of the flow automaton.\<close>

theorem flow_simulation:
  assumes "presence_ok m" "dp_env_ok env" "firewall_prog env pkt m = (m', v)"
  shows "conntrack m' k = conntrack m k \<or>
    v = XDP_PASS \<and> default_policy m = DefaultDeny \<and>
    (\<exists>info. parse_packet pkt = Some info \<and> ct_build_key info = k \<and> pi_protocol info = IPPROTO_TCP \<and>
       flow_step (flow_state m k) (pi_tcp_flags info) (flow_state m' k))"
proof -
  have p: "firewall_prog env pkt m = prog_spec env pkt m" using assms by (simp add: prog_refines)
  have m': "m' = fst (prog_spec env pkt m)" and v: "v = verdict_of env m pkt"
    using assms(3) unfolding p by (simp_all add: prod_eq_iff)
  have t: "tracks env m pkt = Some info \<Longrightarrow> parse_packet pkt = Some info \<and> v = XDP_PASS \<and>
      default_policy m = DefaultDeny \<and> pi_protocol info = IPPROTO_TCP" for info
    by (auto simp: tracks_def v verdict_of_def split: option.splits if_splits)
  from prog_spec_flow [OF assms(2), of pkt m k] show ?thesis
    unfolding m' using t by blast
qed

lemma pass_rule_syn: "ip_block_action demo_env pass_maps (demo_info f) = None"
    "port_rule_action pass_maps (demo_info f) = Some \<lparr>rv_Action = ActionPass, rv_Priority = 0\<rparr>"
proof -
  show "ip_block_action demo_env pass_maps (demo_info f) = None"
    by (rule ip_block_action_empty)
      (simp_all add: demo_env_def lpm_ref_longest pass_maps_def deny_maps_def fresh_maps_def)
  show "port_rule_action pass_maps (demo_info f) = Some \<lparr>rv_Action = ActionPass, rv_Priority = 0\<rparr>"
    by (simp add: port_rule_action_def try_lookup_def port_probe_def pass_maps_def port_inserted_def
        web_key_def demo_info_def web_host_def deny_maps_def fresh_maps_def portToWire_inj Let_def)
qed

lemma pass_verdict: "packet_verdict demo_env pass_maps (demo_info f) = XDP_PASS"
  by (simp add: packet_verdict_code pass_rule_syn decide_def rule_verdict_def enum_defs Let_def)

theorem flow_simulation_witness:
  "flow_step None TCP_SYN (flow_state (fst (firewall_prog demo_env syn_frame pass_maps)) demo_flow) \<and>
   flow_state (fst (firewall_prog demo_env syn_frame pass_maps)) demo_flow = Some ctStateNew"
proof -
  have c: "conntrack pass_maps = Map.empty" by (simp add: pass_maps_def deny_maps_def fresh_maps_def)
  have s: "flow_state (fst (firewall_prog demo_env syn_frame pass_maps)) demo_flow = Some ctStateNew"
    by (simp add: prog_refines maps_ok_presence pass_maps_ok demo_env_ok flow_state_def
        conntrack_prog_spec tracks_def parse_frames default_deny_maps pass_verdict IPPROTO_TCP_def
        ct_update_def c Let_def) (simp add: demo_env_def ct_first_def TCP_FIN_def TCP_RST_def TCP_SYN_def)
  from flow_simulation [OF maps_ok_presence [OF pass_maps_ok] demo_env_ok prod.collapse [symmetric],
      of syn_frame demo_flow] s c
  show ?thesis by (auto simp: parse_frames flow_state_def)
qed

text \<open>Claim C22: no fabricated flow. Under default deny, as long as no rule matches the packets of an
  untracked flow, every one of them is dropped and the flow stays untracked, whatever flags they
  carry and whatever other packets arrive in between.\<close>

theorem no_fabricated_flow:
  assumes "presence_ok m" "envs_ok ps" "default_policy m = DefaultDeny" "conntrack m k = None"
    "\<forall>(env, pkt) \<in> set ps. of_flow k pkt \<longrightarrow> unmatched_packet k env m pkt"
    "run_packets ps m = (m', vs)"
  shows "conntrack m' k = None \<and>
    (\<forall>i < length ps. of_flow k (snd (ps ! i)) \<longrightarrow> vs ! i = XDP_DROP)"
  using run_unmatched [OF assms(1-5)] assms(6) by simp

theorem no_fabricated_flow_witness:
  "snd (run_packets [(demo_env, ack_frame), (demo_env, ack_frame)] deny_maps) ! 1 = XDP_DROP"
proof -
  have e: "blocked_ips deny_maps = Map.empty" "port_policy deny_maps = Map.empty" "conntrack deny_maps = Map.empty"
    by (simp_all add: deny_maps_def fresh_maps_def)
  have "matched_rules demo_env deny_maps (demo_info TCP_ACK) = {}"
    using demo_env_ok
    by (simp add: matched_rules_def ip_block_action_empty port_rule_action_empty e dp_env_ok_def)
  then have u: "unmatched_packet demo_flow demo_env deny_maps ack_frame" "of_flow demo_flow ack_frame"
    by (simp_all add: unmatched_packet_def of_flow_def parse_frames)
  show ?thesis
    using no_fabricated_flow [OF maps_ok_presence [OF deny_maps_ok] _ default_deny_maps(1) _ _
        prod.collapse [symmetric], of "[(demo_env, ack_frame), (demo_env, ack_frame)]" demo_flow]
    by (simp add: envs_ok_def demo_env_ok e u)
qed

text \<open>A closed flow stays closed over any run of packets; only the control plane removes
  it.\<close>

lemma closed_absorbing:
  assumes "presence_ok m" "envs_ok ps" "flow_state m k = Some ctStateClosed"
  shows "flow_state (fst (run_packets ps m)) k = Some ctStateClosed"
  using run_packets_invariant [OF assms(1,2), of "\<lambda>m. flow_state m k = Some ctStateClosed"]
    assms(3) closed_kept by simp

text \<open>The steps that leave an established flow alone: packets, unless one of the flow with FIN or RST passes, and
  steps of the control plane - rules, flags, the default policy, other flows - unless they remove the flow.\<close>

definition has_closing :: "u8 list \<Rightarrow> bool" where
  "has_closing pkt \<longleftrightarrow> (\<exists>info. parse_packet pkt = Some info \<and> closing (pi_tcp_flags info))"

inductive flow_kept :: "ctKey \<Rightarrow> fw_maps \<Rightarrow> fw_maps \<Rightarrow> bool" for k where
  packet: "dp_env_ok env \<Longrightarrow> firewall_prog env pkt m = (m', v) \<Longrightarrow>
    \<not> (of_flow k pkt \<and> has_closing pkt \<and> v = XDP_PASS) \<Longrightarrow> flow_kept k m m'"
| control: "mgr_step m m' \<Longrightarrow> conntrack m' k = conntrack m k \<Longrightarrow> flow_kept k m m'"

text \<open>Every packet of the flow that no rule matches has the verdict.\<close>

definition without_rule :: "ctKey \<Rightarrow> xdp_action \<Rightarrow> fw_maps \<Rightarrow> bool" where
  "without_rule k v m \<longleftrightarrow>
     (\<forall>env pkt. dp_env_ok env \<longrightarrow> unmatched_packet k env m pkt \<longrightarrow> snd (firewall_prog env pkt m) = v)"

lemma without_rule_state:
  assumes "maps_ok m" "default_policy m = DefaultDeny" "ck_Protocol k = IPPROTO_TCP"
  shows "without_rule k (if flow_state m k = Some ctStateEstablished then XDP_PASS else XDP_DROP) m"
  using assms by (auto simp: without_rule_def prog_refines maps_ok_presence unmatched_packet_def verdict_of_def
      packet_verdict_def stateful_pass_def ct_is_established_def flow_state_def default_verdict_def ct_build_key_def
      split: option.splits)

lemma flow_kept_established:
  assumes "flow_kept k m m'" "maps_ok m" "flow_state m k = Some ctStateEstablished"
  shows "maps_ok m' \<and> flow_state m' k = Some ctStateEstablished"
  using assms(1)
proof cases
  case (packet env pkt v)
  then have p: "m' = fst (prog_spec env pkt m)" "v = verdict_of env m pkt"
    using assms(2) by (simp_all add: prog_refines maps_ok_presence prod_eq_iff)
  have "maps_ok m'" using packet(1,2) maps_ok_packet [OF assms(2), of env pkt] by simp
  moreover have "flow_state m' k = Some ctStateEstablished"
    using prog_spec_flow [OF packet(1), of pkt m k]
  proof
    assume "\<exists>info. tracks env m pkt = Some info \<and> ct_build_key info = k \<and>
        flow_step (flow_state m k) (pi_tcp_flags info) (flow_state (fst (prog_spec env pkt m)) k)"
    then obtain info where i: "tracks env m pkt = Some info" "ct_build_key info = k"
        "flow_step (flow_state m k) (pi_tcp_flags info) (flow_state m' k)"
      unfolding p(1) by blast
    then have "\<not> closing (pi_tcp_flags info)"
      using packet(3) by (auto simp: p(2) tracks_def verdict_of_def of_flow_def has_closing_def split: option.splits if_splits)
    with i(3) assms(3) show ?thesis by (auto simp: flow_step_Some_simp)
  qed (use assms(3) p(1) in \<open>simp add: flow_state_def\<close>)
  ultimately show ?thesis ..
next
  case control
  with assms mgr_step_maps_ok show ?thesis by (simp add: flow_state_def)
qed

lemma flow_kept_run:
  "(flow_kept k)\<^sup>*\<^sup>* m m' \<Longrightarrow> maps_ok m \<Longrightarrow> flow_state m k = Some ctStateEstablished \<Longrightarrow>
     maps_ok m' \<and> flow_state m' k = Some ctStateEstablished"
  by (induction rule: rtranclp_induct) (auto dest: flow_kept_established)

lemma closing_closes:
  assumes "maps_ok m" "default_policy m = DefaultDeny" "ck_Protocol k = IPPROTO_TCP"
    "flow_state m k = Some ctStateEstablished" "dp_env_ok env" "unmatched_packet k env m pkt" "has_closing pkt"
  shows "flow_state (fst (firewall_prog env pkt m)) k = Some ctStateClosed"
proof -
  obtain info where i: "parse_packet pkt = Some info" "ct_build_key info = k" "matched_rules env m info = {}"
      "closing (pi_tcp_flags info)"
    using assms(6,7) by (auto simp: unmatched_packet_def has_closing_def)
  then have "pi_protocol info = IPPROTO_TCP" using assms(3) by (auto simp: ct_build_key_def)
  with i assms have "tracks env m pkt = Some info"
    by (auto simp: tracks_def packet_verdict_def stateful_pass_def ct_is_established_def flow_state_def split: option.splits)
  with i assms show ?thesis
    by (auto simp: prog_refines maps_ok_presence flow_state_def conntrack_prog_spec ct_update_def ct_next_def closing_def
        Let_def split: option.splits)
qed

text \<open>A flow with a closing packet behind it, whatever packets follow.\<close>

lemma closed_denied:
  assumes "maps_ok m" "default_policy m = DefaultDeny" "ck_Protocol k = IPPROTO_TCP"
    "flow_state m k = Some ctStateClosed" "envs_ok ps"
  shows "without_rule k XDP_DROP (fst (run_packets ps m))"
proof -
  have "flow_state (fst (run_packets ps m)) k = Some ctStateClosed \<and> same_tables m (fst (run_packets ps m))"
    using run_packets_invariant [OF maps_ok_presence [OF assms(1)] assms(5), of "\<lambda>m. flow_state m k = Some ctStateClosed"]
      assms(4) closed_kept by simp
  moreover from this have "maps_ok (fst (run_packets ps m))" "default_policy (fst (run_packets ps m)) = DefaultDeny"
    using assms(1,2) maps_ok_same_tables [of m] same_tables_judge(2) [of m] by simp_all
  ultimately show ?thesis
    using without_rule_state [OF _ _ assms(3), of "fst (run_packets ps m)"] by (simp add: enum_defs)
qed

lemma established_until_closed:
  assumes "(flow_kept k)\<^sup>*\<^sup>* m2 m3" "maps_ok m2" "flow_state m2 k = Some ctStateEstablished" "ck_Protocol k = IPPROTO_TCP"
  shows "flow_state m3 k = Some ctStateEstablished \<and>
    (default_policy m3 = DefaultDeny \<longrightarrow> without_rule k XDP_PASS m3 \<and>
      (\<forall>env pkt ps. dp_env_ok env \<and> unmatched_packet k env m3 pkt \<and> has_closing pkt \<and> envs_ok ps \<longrightarrow>
         without_rule k XDP_DROP (fst (run_packets ((env, pkt) # ps) m3))))"
proof -
  have m3: "maps_ok m3" "flow_state m3 k = Some ctStateEstablished"
    using flow_kept_run [OF assms(1-3)] by simp_all
  moreover have "without_rule k XDP_DROP (fst (run_packets ((env, pkt) # ps) m3))"
    if d: "default_policy m3 = DefaultDeny" and e: "dp_env_ok env" "unmatched_packet k env m3 pkt" "has_closing pkt" "envs_ok ps"
    for env pkt ps
  proof -
    let ?m4 = "fst (firewall_prog env pkt m3)"
    have "same_tables m3 ?m4"
      using m3 e by (simp add: prog_refines maps_ok_presence same_tables_prog_spec)
    then have "maps_ok ?m4" "default_policy ?m4 = DefaultDeny"
      using m3 d maps_ok_same_tables by (simp_all add: same_tables_judge)
    from closed_denied [OF this assms(4) closing_closes [OF m3(1) d assms(4) m3(2) e(1-3)] e(4)]
    show ?thesis by (simp add: split_def)
  qed
  ultimately show ?thesis using without_rule_state [OF m3(1) _ assms(4)] by simp
qed

text \<open>The two packets of a handshake.\<close>

lemma handshake_run:
  assumes "maps_ok m" "dp_env_ok env1" "dp_env_ok env2" "default_policy m = DefaultDeny"
    and syn: "parse_packet p1 = Some i1" "ct_build_key i1 = k" "has_syn (pi_tcp_flags i1)"
      "\<not> closing (pi_tcp_flags i1)" "packet_verdict env1 m i1 = XDP_PASS"
    and ack: "parse_packet p2 = Some i2" "ct_build_key i2 = k" "has_ack (pi_tcp_flags i2)"
      "\<not> closing (pi_tcp_flags i2)" "matched_rules env2 m i2 \<noteq> {}" "packet_verdict env2 m i2 = XDP_PASS"
    and new: "conntrack m k = None" "ck_Protocol k = IPPROTO_TCP"
      "\<And>v. dp_update_ct env1 (conntrack m) k v = (conntrack m)(k \<mapsto> v)"
    and run: "run_packets [(env1, p1), (env2, p2)] m = (m2, vs)"
  shows "vs = [XDP_PASS, XDP_PASS] \<and> maps_ok m2 \<and>
    conntrack m2 k = Some \<lparr>cv_LastSeen = dp_ktime env2, cv_State = ctStateEstablished\<rparr>"
proof -
  note pres = maps_ok_presence [OF assms(1)]
  have proto: "pi_protocol i = IPPROTO_TCP" if "ct_build_key i = k" for i
    using that new(2) by (auto simp: ct_build_key_def)
  let ?m1 = "fst (prog_spec env1 p1 m)"
  let ?m2 = "fst (prog_spec env2 p2 ?m1)"
  have r1: "firewall_prog env1 p1 m = (?m1, XDP_PASS)"
    using pres assms(2) syn by (simp add: prog_refines verdict_of_def prod_eq_iff)
  have s: "same_tables m ?m1" by (rule same_tables_prog_spec)
  have v2: "packet_verdict env2 ?m1 i2 = XDP_PASS"
    using ack(5,6) by (simp add: packet_verdict_def same_tables_judge [OF s])
  have r2: "firewall_prog env2 p2 ?m1 = (?m2, XDP_PASS)"
    using pres assms(3) ack(1) v2 by (simp add: prog_refines same_tables_judge [OF s] verdict_of_def prod_eq_iff)
  have c1: "conntrack ?m1 k = Some \<lparr>cv_LastSeen = dp_ktime env1, cv_State = ctStateNew\<rparr>"
    using syn proto [OF syn(2)] assms(4) new
    by (simp add: conntrack_prog_spec tracks_def ct_update_def ct_first_def Let_def has_syn_def closing_def)
  have "conntrack ?m2 k = Some \<lparr>cv_LastSeen = dp_ktime env2, cv_State = ctStateEstablished\<rparr>"
    using ack v2 proto [OF ack(2)] assms(4) c1
    by (simp add: conntrack_prog_spec tracks_def same_tables_judge [OF s] ct_update_def ct_next_def
        Let_def has_ack_def closing_def)
  moreover from run r1 r2 have "m2 = ?m2" "vs = [XDP_PASS, XDP_PASS]" by (simp_all del: snd_prog_spec)
  ultimately show ?thesis using assms(1) by (simp add: maps_ok_same_tables [OF same_tables_prog_spec])
qed

text \<open>Claim C23: the stateful fast path works from its first packet to its last. Under default deny, a SYN and then an
  ACK of an untracked flow, each accepted by a rule, establish the flow, provided the map takes the entry. From then
  on - through any packets of this and other flows, and any changes of the rules, the policy and other flows, until the
  flow is removed or closed - the program passes every TCP packet of the flow that no rule matches under default deny. Such a packet with
  FIN or RST passes and closes the flow: after it, whatever packets follow, the program drops the packets
  of the flow that no rule matches.\<close>

theorem handshake_passes:
  assumes "maps_ok m" "dp_env_ok env1" "dp_env_ok env2" "default_policy m = DefaultDeny"
    and syn: "parse_packet p1 = Some i1" "ct_build_key i1 = k" "has_syn (pi_tcp_flags i1)"
      "\<not> closing (pi_tcp_flags i1)" "matched_rules env1 m i1 \<noteq> {}" "packet_verdict env1 m i1 = XDP_PASS"
    and ack: "parse_packet p2 = Some i2" "ct_build_key i2 = k" "has_ack (pi_tcp_flags i2)"
      "\<not> closing (pi_tcp_flags i2)" "matched_rules env2 m i2 \<noteq> {}" "packet_verdict env2 m i2 = XDP_PASS"
    and tcp: "ck_Protocol k = IPPROTO_TCP"
    and new: "conntrack m k = None"
      "\<And>v. dp_update_ct env1 (conntrack m) k v = (conntrack m)(k \<mapsto> v)"
    and run: "run_packets [(env1, p1), (env2, p2)] m = (m2, vs)"
  shows "vs = [XDP_PASS, XDP_PASS] \<and>
    conntrack m2 k = Some \<lparr>cv_LastSeen = dp_ktime env2, cv_State = ctStateEstablished\<rparr> \<and>
    (\<forall>m3. (flow_kept k)\<^sup>*\<^sup>* m2 m3 \<longrightarrow>
       flow_state m3 k = Some ctStateEstablished \<and>
       (default_policy m3 = DefaultDeny \<longrightarrow> without_rule k XDP_PASS m3 \<and>
         (\<forall>env pkt ps. dp_env_ok env \<and> unmatched_packet k env m3 pkt \<and> has_closing pkt \<and> envs_ok ps \<longrightarrow>
            without_rule k XDP_DROP (fst (run_packets ((env, pkt) # ps) m3)))))"
proof -
  have "vs = [XDP_PASS, XDP_PASS] \<and> maps_ok m2 \<and>
      conntrack m2 k = Some \<lparr>cv_LastSeen = dp_ktime env2, cv_State = ctStateEstablished\<rparr>"
    by (rule handshake_run [OF assms(1-4) syn(1-4,6) ack new(1) tcp new(2) run])
  then show ?thesis using established_until_closed [OF _ _ _ tcp, of m2] by (simp add: flow_state_def)
qed

text \<open>The rule that accepted the flow is taken back: its packets still pass, until one of them has a FIN.\<close>

lemma pass_tables:
  assumes "same_tables pass_maps m"
  shows "matched_rules demo_env (m\<lparr>port_policy := Map.empty\<rparr>) info = {}"
    "default_policy (m\<lparr>port_policy := Map.empty\<rparr>) = DefaultDeny"
proof -
  have "blocked_ips m = Map.empty"
    using assms by (simp add: same_tables_def pass_maps_def deny_maps_def fresh_maps_def port_inserted_def)
  then show "matched_rules demo_env (m\<lparr>port_policy := Map.empty\<rparr>) info = {}"
    using demo_env_ok by (simp add: matched_rules_def ip_block_action_empty port_rule_action_empty dp_env_ok_def)
  show "default_policy (m\<lparr>port_policy := Map.empty\<rparr>) = DefaultDeny"
    using same_tables_judge(2) [OF assms] default_deny_maps(2) by (simp add: default_policy_def)
qed

theorem handshake_passes_witness:
  "\<exists>m2. run_packets [(demo_env, syn_frame), (demo_env, ack_frame)] pass_maps = (m2, [XDP_PASS, XDP_PASS]) \<and>
     snd (firewall_prog demo_env ack_frame (m2\<lparr>port_policy := Map.empty\<rparr>)) = XDP_PASS \<and>
     snd (firewall_prog demo_env ack_frame (fst (run_packets [(demo_env, fin_frame)] (m2\<lparr>port_policy := Map.empty\<rparr>)))) = XDP_DROP"
proof -
  let ?ps = "[(demo_env, syn_frame), (demo_env, ack_frame)]"
  obtain m2 vs where run: "run_packets ?ps pass_maps = (m2, vs)" by fastforce
  let ?m3 = "m2\<lparr>port_policy := Map.empty\<rparr>"
  let ?m4 = "fst (run_packets [(demo_env, fin_frame)] ?m3)"
  have s2: "same_tables pass_maps m2"
    using run_packets_invariant [OF maps_ok_presence [OF pass_maps_ok], of ?ps "\<lambda>_. True"] demo_env_ok run by simp
  have rules: "matched_rules demo_env pass_maps (demo_info f) \<noteq> {}" for f
    by (simp add: matched_rules_def pass_rule_syn)
  have f: "has_syn TCP_SYN" "\<not> closing TCP_SYN" "has_ack TCP_ACK" "\<not> closing TCP_ACK" "closing (TCP_FIN OR TCP_ACK)"
    by code_simp+
  have up: "dp_update_ct demo_env c k v = c(k \<mapsto> v)" for c k v by (simp add: demo_env_def)
  have kept: "(flow_kept demo_flow)\<^sup>*\<^sup>* m2 ?m3"
    by (rule r_into_rtranclp, rule flow_kept.control [OF mgr_step.lose_port]) simp_all
  have flow: "conntrack pass_maps demo_flow = None" "ck_Protocol demo_flow = IPPROTO_TCP"
    by (simp_all add: pass_maps_def deny_maps_def fresh_maps_def demo_flow_def IPPROTO_TCP_def)
  have u: "unmatched_packet demo_flow demo_env ?m3 fin_frame" "has_closing fin_frame" "envs_ok []" "default_policy ?m3 = DefaultDeny"
    using f(5) by (simp_all add: unmatched_packet_def has_closing_def parse_frames pass_tables [OF s2])
  have "vs = [XDP_PASS, XDP_PASS] \<and> without_rule demo_flow XDP_PASS ?m3 \<and> without_rule demo_flow XDP_DROP ?m4"
    using handshake_passes [OF pass_maps_ok demo_env_ok demo_env_ok
        default_deny_maps(2) parse_frames(1) demo_info_key _ _ rules pass_verdict
        parse_frames(2) demo_info_key _ _ rules pass_verdict flow(2,1) up run] f(1-4) kept u demo_env_ok
    by (simp del: run_packets.simps)
  moreover have "unmatched_packet demo_flow demo_env ?m3 ack_frame"
    by (simp add: unmatched_packet_def parse_frames pass_tables [OF s2])
  moreover have "same_tables ?m3 ?m4"
    using run_packets_invariant [of ?m3 "[(demo_env, fin_frame)]" "\<lambda>_. True"] demo_env_ok
      maps_ok_presence [OF mgr_step_maps_ok [OF mgr_step.lose_port [of Map.empty]]] maps_ok_same_tables [OF s2] pass_maps_ok by simp
  ultimately show ?thesis
    using run demo_env_ok by (simp add: without_rule_def unmatched_same_tables del: run_packets.simps)
qed

definition reverse_key :: "ctKey \<Rightarrow> ctKey" where
  "reverse_key k = \<lparr>ck_Saddr = ck_Daddr k, ck_Daddr = ck_Saddr k, ck_Sport = ck_Dport k,
     ck_Dport = ck_Sport k, ck_Protocol = ck_Protocol k\<rparr>"

text \<open>Claim C24: tracking is one-way. The conntrack entry of the reversed addresses and ports, whatever it holds, has no
  influence on what the program does with a packet; so under default deny a packet that no rule matches is dropped
  unless its own direction is established, and the replies of an established flow do not pass with it.\<close>

theorem replies_not_covered:
  assumes "presence_ok m" "dp_env_ok env" "parse_packet pkt = Some info" "ct_build_key info = k" "reverse_key k \<noteq> k"
  shows "snd (firewall_prog env pkt (m\<lparr>conntrack := (conntrack m)(reverse_key k := e)\<rparr>)) = snd (firewall_prog env pkt m) \<and>
    (default_policy m = DefaultDeny \<and> matched_rules env m info = {} \<and> flow_state m k \<noteq> Some ctStateEstablished \<longrightarrow>
       snd (firewall_prog env pkt (m\<lparr>conntrack := (conntrack m)(reverse_key k := e)\<rparr>)) = XDP_DROP)"
proof -
  let ?m = "m\<lparr>conntrack := (conntrack m)(reverse_key k := e)\<rparr>"
  have s: "same_tables m ?m" by (simp add: same_tables_def)
  have "ct_is_established ?m info = ct_is_established m info"
    using assms(4,5) by (auto simp: ct_is_established_def)
  then have "verdict_of env ?m pkt = verdict_of env m pkt"
    using assms(3) by (simp add: verdict_of_def packet_verdict_def stateful_pass_def same_tables_judge [OF s])
  moreover have "snd (firewall_prog env pkt ?m) = verdict_of env ?m pkt" "snd (firewall_prog env pkt m) = verdict_of env m pkt"
    using assms(1,2) same_tables_judge(3) [OF s] by (simp_all add: prog_refines)
  moreover have "verdict_of env m pkt = XDP_DROP"
    if "default_policy m = DefaultDeny" "matched_rules env m info = {}" "flow_state m k \<noteq> Some ctStateEstablished"
    using that assms(3,4) by (auto simp: verdict_of_def packet_verdict_def stateful_pass_def ct_is_established_def
        flow_state_def default_verdict_def split: option.splits)
  ultimately show ?thesis by simp
qed

text \<open>The flow from the web host to its client is established; the packets of the client are dropped.\<close>

theorem replies_not_covered_witness:
  "snd (firewall_prog demo_env ack_frame
     (deny_maps\<lparr>conntrack := [reverse_key demo_flow \<mapsto> \<lparr>cv_LastSeen = 7, cv_State = ctStateEstablished\<rparr>]\<rparr>)) = XDP_DROP"
proof -
  have e: "blocked_ips deny_maps = Map.empty" "port_policy deny_maps = Map.empty" "conntrack deny_maps = Map.empty"
    by (simp_all add: deny_maps_def fresh_maps_def)
  have "matched_rules demo_env deny_maps (demo_info TCP_ACK) = {}"
    using demo_env_ok by (simp add: matched_rules_def ip_block_action_empty port_rule_action_empty e dp_env_ok_def)
  moreover have "reverse_key demo_flow \<noteq> demo_flow"
    by (simp add: reverse_key_def demo_flow_def portToWire_inj)
  ultimately show ?thesis
    using replies_not_covered [OF maps_ok_presence [OF deny_maps_ok] demo_env_ok parse_frames(2) demo_info_key,
        where e = "Some \<lparr>cv_LastSeen = 7, cv_State = ctStateEstablished\<rparr>"] default_deny_maps(1)
    by (auto simp: e flow_state_def)
qed

end
