(* ===== verification/ManagerProps.thy ===== *)
theory ManagerProps
  imports Examples
begin

text \<open>
  The properties of the control plane's managers and of the rule parser. The hypotheses
  \<open>blocklist_env\<close>, \<open>port_env\<close>, \<dots> are the locales that state what a manager relies on in
  the eBPF library and the kernel; the witnesses discharge them by their interpretations on the
  reference kernel.
\<close>

section \<open>Rule strings\<close>

text \<open>Every dotted-quad CIDR is accepted and normalised: the parsed network is the address
  with its host bits cleared, and a bare address is a /32.\<close>

lemma cidr_parsed:
  assumes "n \<le> 32"
  shows "ParseIPOrCIDR (ipv4_str a b c d @ ''/'' @ nat_str n) =
      Inr \<lparr>net_IP = map2 (AND) [a, b, c, d] (CIDRMask n 32), net_Mask = CIDRMask n 32\<rparr> \<and>
    ParseIPOrCIDR (ipv4_str a b c d) = Inr \<lparr>net_IP = [a, b, c, d], net_Mask = CIDRMask 32 32\<rparr>"
  using ParseIPOrCIDR_str [OF assms] ParseIPOrCIDR_bare by simp

lemma ParseIPOrCIDR_no_panic: "ParseIPOrCIDR s \<noteq> Inl PanicSliceBounds"
  by (auto simp: ParseIPOrCIDR_def Let_def split: option.splits)

lemma ipBytesOf_length: "ipBytesOf s = Inr ip \<Longrightarrow> length ip = 4"
  using ParseIPOrCIDR_denotes To4_length
  by (fastforce simp: ipBytesOf_def split: option.splits sum.splits)

lemma ipToKey_host: "ipToKey s = Inr k \<Longrightarrow> \<exists>q. k = host_key q"
  by (auto simp: ipToKey_def newLpmKey_def host_key_def split: sum.splits list.splits)

text \<open>No rule string makes the key construction panic, and every key the managers build
  from one is canonical or is rejected by the trie for its length.\<close>

lemma rule_key_safe:
  "rule_key s \<noteq> Inl PanicSliceBounds \<and> ipToKey s \<noteq> Inl PanicSliceBounds \<and>
   (case rule_key s of
      Inl err \<Rightarrow> ParseIPOrCIDR s = Inl err
    | Inr k \<Rightarrow> canon_key k \<or> \<not> lpm_fits k)"
proof -
  have "ipToKey s \<noteq> Inl PanicSliceBounds"
  proof (cases "ipBytesOf s")
    case (Inl err)
    moreover have "err \<noteq> PanicSliceBounds"
      using Inl ParseIPOrCIDR_no_panic by (auto simp: ipBytesOf_def split: option.splits sum.splits)
    ultimately show ?thesis by (simp add: ipToKey_def)
  next
    case (Inr ip)
    from newLpmKey_4 [OF ipBytesOf_length [OF Inr], of 32] Inr show ?thesis
      by (auto simp: ipToKey_def)
  qed
  moreover have "rule_key s \<noteq> Inl PanicSliceBounds"
    using rule_key_cases [of s] ParseIPOrCIDR_no_panic [of s] by auto
  ultimately show ?thesis using rule_key_cases [of s] by auto
qed

section \<open>The IP blocklist\<close>

text \<open>Adding an IP rule. A rejected string changes nothing; otherwise on success exactly
  the entry of the string's canonical key is set, with the IP flag, and on failure at most the flag
  has been set.\<close>

lemma block_ip_effect:
  assumes "blocklist_env view lpm cursor pcursor pm P"
    "MapManager_BlockIPWithActionPriority pm s a p w = (w', e)"
  shows "case rule_key s of
      Inl err \<Rightarrow> w' = w \<and> e = Some err
    | Inr k \<Rightarrow>
        (e = None \<and> canon_key k \<and> view w' = ip_inserted k \<lparr>rv_Action = a, rv_Priority = p\<rparr> (view w)) \<or>
        (e \<noteq> None \<and> view w' \<in> {view w, advertise rulePresenceIP (view w)})"
  by (rule blocklist_env.Block_effect [OF assms])

text \<open>Removing an IP rule. On success the entry was there, is gone, and the flag says
  whether any entry is left; a failure removes at most that entry and never touches the flag.\<close>

lemma unblock_ip_effect:
  assumes "blocklist_env view lpm cursor pcursor pm P" "MapManager_UnblockIP pm s w = (w', e)"
  shows "case rule_key s of
      Inl err \<Rightarrow> w' = w \<and> e = Some err
    | Inr k \<Rightarrow>
        (e = None \<and> k \<in> dom (blocked_ips (view w)) \<and> view w' = ip_removed k (view w)) \<or>
        (e \<noteq> None \<and>
         view w' \<in> {view w, (view w)\<lparr>blocked_ips := (blocked_ips (view w))(k := None)\<rparr>})"
  by (rule blocklist_env.Unblock_effect [OF assms])

text \<open>Clearing the blocklist. On success it is empty and its flag cleared; a failure has
  removed some entries, added none, and left the flags alone.\<close>

lemma clear_ips_effect:
  assumes "blocklist_env view lpm cursor pcursor pm P" "MapManager_Clear pm w = (w', e)"
    "\<forall>k \<in> dom (blocked_ips (view w)). canon_key k"
  shows "(e = None \<and> view w' = sync_ip ((view w)\<lparr>blocked_ips := Map.empty\<rparr>) \<and> \<not> bit_set rulePresenceIP (view w')) \<or>
    (e \<noteq> None \<and> (\<exists>c. c \<subseteq>\<^sub>m blocked_ips (view w) \<and> view w' = (view w)\<lparr>blocked_ips := c\<rparr>))"
  using blocklist_env.Clear_effect [OF assms]
  by (auto simp: sync_ip_def sync_flags_def bit_set_def)

lemma clear_blocked: "MapManager_Clear (fw_mgr ref_fw) blocked_kernel = (boot_kernel\<lparr>k_pres := [(0, 0)]\<rparr>, None)"
  by (simp add: MapManager_Clear_eq loop_eval blocked_kernel_def fits_k10 lpm_norm_k10)

text \<open>The listing is exact and can be replayed. It holds one item per entry of the table,
  and the CIDR, action and priority of an item parse back to the key and value of its entry.\<close>

lemma list_rules_roundtrip:
  assumes "blocklist_env view lpm cursor pcursor pm P" "MapManager_ListBlockedRules pm w = Inr rules"
    "\<forall>k v. blocked_ips (view w) k = Some v \<longrightarrow> canon_key k \<and> rule_ok v"
  shows "\<exists>es. distinct (map fst es) \<and> map_of es = blocked_ips (view w) \<and>
    slice_list rules = map blockedRuleOf es \<and>
    (\<forall>(k, v) \<in> set es. rule_key (br_Cidr (blockedRuleOf (k, v))) = Inr k \<and>
       ParseAction (br_Action (blockedRuleOf (k, v))) = Inr (rv_Action v) \<and>
       br_Priority (blockedRuleOf (k, v)) = rv_Priority v)"
proof -
  obtain es where es: "distinct (map fst es)" "map_of es = blocked_ips (view w)"
      "rules = append_all (map blockedRuleOf es)"
    using blocklist_env.List_effect [OF assms(1,2)] by blast
  have "rule_key (br_Cidr (blockedRuleOf (k, v))) = Inr k \<and>
       ParseAction (br_Action (blockedRuleOf (k, v))) = Inr (rv_Action v) \<and>
       br_Priority (blockedRuleOf (k, v)) = rv_Priority v" if "(k, v) \<in> set es" for k v
  proof -
    from that es(1,2) have "blocked_ips (view w) k = Some v" by (metis map_of_is_SomeI)
    with assms(3) have "canon_key k" "rule_ok v" by auto
    then show ?thesis
      by (auto simp: blockedRuleOf_def rule_key_lpm_cidr rule_ok_def ParseAction_def Action_String_def enum_defs)
  qed
  with es show ?thesis by (intro exI [of _ es]) auto
qed

text \<open>\<open>IsBlocked\<close> answers whether some entry, of either action, covers one single address
  denoted by its argument; it never asks about the rest of a CIDR.\<close>

lemma is_blocked_covered:
  assumes "blocklist_env view lpm cursor pcursor pm P" "MapManager_IsBlocked pm s w = Inr r"
    "\<forall>k \<in> dom (blocked_ips (view w)). canon_key k"
  shows "\<exists>q. ipToKey s = Inr (host_key q) \<and> (r \<longleftrightarrow> (\<exists>k \<in> dom (blocked_ips (view w)). covers k q))"
proof -
  from assms(2) obtain k where "ipToKey s = Inr k"
    by (auto simp: MapManager_IsBlocked_def split: sum.splits)
  moreover from ipToKey_host [OF this] obtain q where "k = host_key q" by blast
  ultimately have q: "ipToKey s = Inr (host_key q)" by simp
  with blocklist_env.IsBlocked_effect [OF assms(1,2) q assms(3)] show ?thesis by blast
qed
lemma ipToKey_demo: "ipToKey ''10.1.2.3'' = Inr (host_key host10)"
proof -
  have s: "''10.1.2.3'' = ipv4_str 10 1 2 3" by code_simp
  show ?thesis
    unfolding s ipToKey_def ipBytesOf_def ParseIP_def ParseAddr_ipv4_str
    by (simp add: newLpmKey_def host_key_def host10_def)
qed

lemma is_blocked_demo: "MapManager_IsBlocked (fw_mgr ref_fw) ''10.1.2.3'' blocked_kernel = Inr True"
proof -
  have "lpm_ref (map_of (k_ip blocked_kernel)) (host_key host10) = Some drop5"
  proof (rule longest_prefix_eq [OF lpm_ref_longest])
    show "map_of (k_ip blocked_kernel) k10 = Some drop5" by (simp add: blocked_kernel_def)
  qed (auto simp: blocked_kernel_def canon_k10 covers_host10 split: if_splits)
  then show ?thesis by (simp add: MapManager_IsBlocked_def ipToKey_demo lpm_handle_eval)
qed

section \<open>Presence flags\<close>

text \<open>Setting or clearing a presence bit changes that bit and nothing else: the other
  tables' flags and all other maps stay, and a failure changes nothing.\<close>

lemma presence_bit_effect:
  assumes "presence_map view pcursor P" "b AND c = 0" "b \<noteq> 0"
  shows "(case setPresenceBit (Some P) b w of (w', e) \<Rightarrow>
      if e = None then bit_set b (view w') \<and> bit_set c (view w') = bit_set c (view w) \<and>
        view w' = (view w)\<lparr>rule_presence := rule_presence (view w')\<rparr>
      else view w' = view w) \<and>
    (case clearPresenceBit (Some P) b w of (w', e) \<Rightarrow>
      if e = None then \<not> bit_set b (view w') \<and> bit_set c (view w') = bit_set c (view w) \<and>
        view w' = (view w)\<lparr>rule_presence := rule_presence (view w')\<rparr>
      else view w' = view w)"
proof -
  obtain w1 e1 w2 e2 where s: "setPresenceBit (Some P) b w = (w1, e1)" "clearPresenceBit (Some P) b w = (w2, e2)"
    by fastforce
  have frame: "set_flags f m = m\<lparr>rule_presence := rule_presence (set_flags f m)\<rparr>" for f m
    by (simp add: set_flags_def)
  from presence_map.setPresenceBit_effect [OF assms(1) s(1)]
    presence_map.clearPresenceBit_effect [OF assms(1) s(2)] assms(2,3) s frame
  show ?thesis
    by (auto simp: bit_set_set_or bit_set_clear bit_set_other_or bit_set_other_clear)
qed

section \<open>The port policy\<close>

text \<open>Adding a port rule. A rejected protocol or destination changes nothing; on success
  exactly the entry of the rule's key is set, with the port flag; on failure at most the flag.\<close>

lemma block_port_effect:
  assumes "port_env view cursor pcursor pm P"
    "PortPolicyManager_BlockWithActionPriority pm dst proto dport sport a p w = (w', e)"
  shows "case port_key dst proto dport sport of
      Inl err \<Rightarrow> w' = w \<and> e = Some err
    | Inr k \<Rightarrow> port_key_ok k \<and>
        ((e = None \<and> view w' = port_inserted k \<lparr>rv_Action = a, rv_Priority = p\<rparr> (view w)) \<or>
         (e \<noteq> None \<and> view w' \<in> {view w, advertise rulePresencePort (view w)}))"
  using port_env.Block_effect [OF assms] port_key_proto [of dst proto dport sport]
  by (auto split: sum.splits)

text \<open>Removing a port rule. On success the entry was there, is gone, and the flag says
  whether any entry is left.\<close>

lemma unblock_port_effect:
  assumes "port_env view cursor pcursor pm P"
    "PortPolicyManager_UnblockWithAction pm dst proto dport sport w = (w', e)"
  shows "case port_key dst proto dport sport of
      Inl err \<Rightarrow> w' = w \<and> e = Some err
    | Inr k \<Rightarrow>
        (e = None \<and> k \<in> dom (port_policy (view w)) \<and> view w' = port_removed k (view w)) \<or>
        (e \<noteq> None \<and>
         view w' \<in> {view w, (view w)\<lparr>port_policy := (port_policy (view w))(k := None)\<rparr>})"
  by (rule port_env.Unblock_effect [OF assms])

text \<open>The port listing is exact and can be replayed: the fields of each item name the key
  of its entry again, ports converted from and to network byte order.\<close>

lemma list_ports_roundtrip:
  assumes "port_env view cursor pcursor pm P" "PortPolicyManager_List pm w = Inr rules"
    "\<forall>k v. port_policy (view w) k = Some v \<longrightarrow> port_key_ok k \<and> rule_ok v"
  shows "\<exists>es. distinct (map fst es) \<and> map_of es = port_policy (view w) \<and>
    rules = Some (map portRuleOf es) \<and>
    (\<forall>(k, v) \<in> set es. let r = portRuleOf (k, v) in
       port_key (pr_Dst r) (pr_Protocol r) (pr_Port r) (pr_SPort r) = Inr k \<and>
       ParseAction (pr_Action r) = Inr (rv_Action v) \<and> pr_Priority r = rv_Priority v)"
proof -
  obtain es where es: "distinct (map fst es)" "map_of es = port_policy (view w)"
      "rules = Some (map portRuleOf es)"
    using port_env.List_effect [OF assms(1,2)] by blast
  have "let r = portRuleOf (k, v) in
       port_key (pr_Dst r) (pr_Protocol r) (pr_Port r) (pr_SPort r) = Inr k \<and>
       ParseAction (pr_Action r) = Inr (rv_Action v) \<and> pr_Priority r = rv_Priority v"
    if "(k, v) \<in> set es" for k v
  proof -
    from that es(1,2) have "port_policy (view w) k = Some v" by (metis map_of_is_SomeI)
    with assms(3) have k: "pk_Protocol k \<in> {portAnyProtocol, protoTCP, protoUDP}" and "rule_ok v"
      by (auto simp: port_key_ok_def)
    with port_key_portRuleOf [OF k, of v] show ?thesis
      by (auto simp: Let_def portRuleOf_def rule_ok_def ParseAction_def Action_String_def enum_defs)
  qed
  with es show ?thesis by (intro exI [of _ es]) auto
qed

section \<open>Counters and default policy\<close>

text \<open>A default policy that was set is the one the datapath applies and the one read back.\<close>

lemma policy_set_get:
  assumes "firewall_env G fw" "Firewall_SetDefaultPolicy fw s w = (w', None)"
    "Firewall_DefaultPolicy fw w' = Inr d"
  shows "\<exists>p. ParseDefaultPolicy s = Inr p \<and> default_policy (gh_view G w') = p \<and>
    ParseDefaultPolicy d = Inr p"
proof -
  from firewall_env.SetDefaultPolicy_effect [OF assms(1,2)] obtain p where
      p: "ParseDefaultPolicy s = Inr p" and
      v: "gh_view G w' = (gh_view G w)\<lparr>firewall_config := (firewall_config (gh_view G w))(configKey \<mapsto> p)\<rparr>"
    by auto
  have c: "config_policy (gh_view G w') = p" by (simp add: v config_policy_def)
  from assms(3) obtain q where q: "ConfigManager_DefaultPolicy (fw_configMgr fw) w' = Inr q" "d = DefaultPolicy_String q"
    by (auto simp: Firewall_DefaultPolicy_def split: sum.splits)
  have "config_env (gh_view G) (gh_cur_idx G) (fw_configMgr fw)"
    using assms(1) by (simp add: firewall_env_def)
  from config_env.DefaultPolicy_effect [OF this q(1)] c q(2) p ParseDefaultPolicy_String [OF p]
  show ?thesis by (simp add: default_policy_config)
qed

lemma policy_demo:
  "Firewall_SetDefaultPolicy ref_fw ''deny'' boot_kernel = (boot_kernel\<lparr>k_cfg := [(0, 1)]\<rparr>, None)"
  "Firewall_DefaultPolicy ref_fw (boot_kernel\<lparr>k_cfg := [(0, 1)]\<rparr>) = Inr ''deny''"
  by (simp_all add: Firewall_SetDefaultPolicy_def ParseDefaultPolicy_def wrap_err_def
      ConfigManager_SetDefaultPolicy_def Firewall_DefaultPolicy_def ConfigManager_DefaultPolicy_def
      op_eval configKey_def DefaultPolicy_String_def enum_defs)

section \<open>The conntrack table\<close>

text \<open>Claim C30: reaping. Either nothing happened, or the clock was read and: on success exactly the
  stale entries are gone and their number is returned; on failure no entry that is not stale is
  lost.\<close>

theorem reap_effect:
  assumes "conntrack_env view cursor cm" "ConntrackManager_Reap cm idle w = (w', n, e)"
  shows "(e \<noteq> None \<and> w' = w \<and> n = 0) \<or>
    (\<exists>now. monotonicNanos (ct_clock cm) w = Inr now \<and>
      (e = None \<and>
        view w' = (view w)\<lparr>conntrack := conntrack (view w) |`
          {k. \<exists>v. conntrack (view w) k = Some v \<and> \<not> reap_stale idle now v}\<rparr> \<and>
        n = card {k. \<exists>v. conntrack (view w) k = Some v \<and> reap_stale idle now v} \<or>
       e \<noteq> None \<and> (\<exists>c. c \<subseteq>\<^sub>m conntrack (view w) \<and> view w' = (view w)\<lparr>conntrack := c\<rparr> \<and>
        (\<forall>k v. conntrack (view w) k = Some v \<longrightarrow> \<not> reap_stale idle now v \<longrightarrow> c k = Some v))))"
  by (rule conntrack_env.Reap_effect [OF assms])

definition old_flow :: ctValue where "old_flow = \<lparr>cv_LastSeen = 1000000000, cv_State = ctStateEstablished\<rparr>"

lemma reap_demo:
  "ConntrackManager_Reap (fw_ctMgr ref_fw) 300000000000 (boot_kernel\<lparr>k_ct := [(demo_flow, old_flow)]\<rparr>) =
     (boot_kernel, 1, None)"
proof -
  have "reap_stale 300000000000 1000000000000 old_flow" by code_simp
  then show ?thesis
    by (simp add: ConntrackManager_Reap_def monotonicNanos_def Let_def loop_eval)
qed

theorem reap_effect_witness:
  "card {k. \<exists>v. conntrack (kernel_maps (boot_kernel\<lparr>k_ct := [(demo_flow, old_flow)]\<rparr>)) k = Some v \<and>
     reap_stale 300000000000 1000000000000 v} = 1"
proof -
  have c: "monotonicNanos (ct_clock (fw_ctMgr ref_fw)) (boot_kernel\<lparr>k_ct := [(demo_flow, old_flow)]\<rparr>) =
      Inr 1000000000000"
    by (simp add: monotonicNanos_def boot_kernel_def)
  from reap_effect [OF ref_conntrack.conntrack_env_axioms reap_demo] show ?thesis
    unfolding c by simp
qed

text \<open>Which entries are stale. A positive timeout takes an entry whose age in nanoseconds
  is at least the timeout, the word arithmetic notwithstanding; a timeout that is not positive takes
  every entry.\<close>

lemma stale_is_idle:
  assumes "cv_LastSeen v \<noteq> 0 \<or> idle \<le> now"
  shows "reap_stale idle now v \<longleftrightarrow> sint idle \<le> 0 \<or> unat (cv_LastSeen v) + unat idle \<le> unat now"
  using reap_stale_age [of idle v now] reap_stale_all [of idle now v] assms by (cases "0 < sint idle") auto

section \<open>Both rule tables\<close>

text \<open>Claim C19: adding a rule. Strings that name no rule change nothing; otherwise, in either rule table, success means that
  exactly the entry of the rule's key is set, to the action and priority given, with the table's flag, and failure
  that at most the flag has been set. The key of an IP rule is canonical, that of a port rule has a known protocol.\<close>

theorem block_effects:
  assumes "firewall_env G fw"
    "MapManager_BlockIPWithActionPriority (fw_mgr fw) s a p w = (w1, e1)"
    "PortPolicyManager_BlockWithActionPriority (fw_portPolicyMgr fw) dst proto dport sport a p w = (w2, e2)"
  shows "(case rule_key s of
      Inl err \<Rightarrow> w1 = w \<and> e1 = Some err
    | Inr k \<Rightarrow>
        (e1 = None \<and> canon_key k \<and> gh_view G w1 = ip_inserted k \<lparr>rv_Action = a, rv_Priority = p\<rparr> (gh_view G w)) \<or>
        (e1 \<noteq> None \<and> gh_view G w1 \<in> {gh_view G w, advertise rulePresenceIP (gh_view G w)})) \<and>
    (case port_key dst proto dport sport of
      Inl err \<Rightarrow> w2 = w \<and> e2 = Some err
    | Inr k \<Rightarrow> port_key_ok k \<and>
        ((e2 = None \<and> gh_view G w2 = port_inserted k \<lparr>rv_Action = a, rv_Priority = p\<rparr> (gh_view G w)) \<or>
         (e2 \<noteq> None \<and> gh_view G w2 \<in> {gh_view G w, advertise rulePresencePort (gh_view G w)})))"
  using block_ip_effect [OF _ assms(2)] block_port_effect [OF _ assms(3)] assms(1)
  unfolding firewall_env_def by blast

theorem block_effects_witness:
  "kernel_maps blocked_kernel = ip_inserted k10 \<lparr>rv_Action = ActionDrop, rv_Priority = 5\<rparr> (kernel_maps boot_kernel) \<and>
   kernel_maps web_kernel = port_inserted web_key \<lparr>rv_Action = ActionDrop, rv_Priority = 5\<rparr> (kernel_maps boot_kernel)"
  using block_effects [OF ref_firewall_env block_boot block_port_boot] by (simp add: rule_key_k10 port_key_web)

text \<open>Claim C20: removing a rule. Success, in either rule table, means that the entry was there, is gone, and the flag
  says whether any entry is left; a failure removes at most that entry and never touches the flag.\<close>

theorem unblock_effects:
  assumes "firewall_env G fw" "MapManager_UnblockIP (fw_mgr fw) s w = (w1, e1)"
    "PortPolicyManager_UnblockWithAction (fw_portPolicyMgr fw) dst proto dport sport v = (v1, e2)"
  shows "(case rule_key s of
      Inl err \<Rightarrow> w1 = w \<and> e1 = Some err
    | Inr k \<Rightarrow>
        (e1 = None \<and> k \<in> dom (blocked_ips (gh_view G w)) \<and> gh_view G w1 = ip_removed k (gh_view G w)) \<or>
        (e1 \<noteq> None \<and> gh_view G w1 \<in>
          {gh_view G w, (gh_view G w)\<lparr>blocked_ips := (blocked_ips (gh_view G w))(k := None)\<rparr>})) \<and>
    (case port_key dst proto dport sport of
      Inl err \<Rightarrow> v1 = v \<and> e2 = Some err
    | Inr k \<Rightarrow>
        (e2 = None \<and> k \<in> dom (port_policy (gh_view G v)) \<and> gh_view G v1 = port_removed k (gh_view G v)) \<or>
        (e2 \<noteq> None \<and> gh_view G v1 \<in>
          {gh_view G v, (gh_view G v)\<lparr>port_policy := (port_policy (gh_view G v))(k := None)\<rparr>}))"
  using unblock_ip_effect [OF _ assms(2)] unblock_port_effect [OF _ assms(3)] assms(1)
  unfolding firewall_env_def by blast

theorem unblock_effects_witness:
  "kernel_maps (boot_kernel\<lparr>k_pres := [(0, 0)]\<rparr>) = ip_removed k10 (kernel_maps blocked_kernel) \<and>
   kernel_maps (boot_kernel\<lparr>k_pres := [(0, 0)]\<rparr>) = port_removed web_key (kernel_maps web_kernel)"
  using unblock_effects [OF ref_firewall_env unblock_blocked unblock_web]
  unfolding rule_key_k10 port_key_web sum.case ref_ghost_simps by blast

text \<open>Claim C28: the listings are exact and can be replayed. Each holds one item per entry of its table; the CIDR, action and
  priority of an IP item parse back to the key and value of its entry, and so do the fields of a port item, the
  ports converted from and to network byte order.\<close>

theorem lists_roundtrip:
  assumes "firewall_env G fw" "maps_ok (gh_view G w)"
    "MapManager_ListBlockedRules (fw_mgr fw) w = Inr rules" "PortPolicyManager_List (fw_portPolicyMgr fw) w = Inr ports"
  shows "(\<exists>es. distinct (map fst es) \<and> map_of es = blocked_ips (gh_view G w) \<and>
      slice_list rules = map blockedRuleOf es \<and>
      (\<forall>(k, v) \<in> set es. rule_key (br_Cidr (blockedRuleOf (k, v))) = Inr k \<and>
         ParseAction (br_Action (blockedRuleOf (k, v))) = Inr (rv_Action v) \<and>
         br_Priority (blockedRuleOf (k, v)) = rv_Priority v)) \<and>
    (\<exists>es. distinct (map fst es) \<and> map_of es = port_policy (gh_view G w) \<and>
      ports = Some (map portRuleOf es) \<and>
      (\<forall>(k, v) \<in> set es. let r = portRuleOf (k, v) in
         port_key (pr_Dst r) (pr_Protocol r) (pr_Port r) (pr_SPort r) = Inr k \<and>
         ParseAction (pr_Action r) = Inr (rv_Action v) \<and> pr_Priority r = rv_Priority v))"
proof -
  have "blocklist_env (gh_view G) (gh_lpm G) (gh_cur_ip G) (gh_cur_idx G) (fw_mgr fw) (fw_presence fw)"
      "port_env (gh_view G) (gh_cur_port G) (gh_cur_idx G) (fw_portPolicyMgr fw) (fw_presence fw)"
    using assms(1) by (simp_all add: firewall_env_def)
  from list_rules_roundtrip [OF this(1) assms(3)] list_ports_roundtrip [OF this(2) assms(4)] assms(2)
  show ?thesis by (simp add: maps_ok_def)
qed

theorem lists_roundtrip_witness:
  "\<exists>es ports. map_of es = blocked_ips (kernel_maps blocked_kernel) \<and> length es = 1 \<and>
     (\<forall>(k, v) \<in> set es. rule_key (br_Cidr (blockedRuleOf (k, v))) = Inr k) \<and>
     PortPolicyManager_List (fw_portPolicyMgr ref_fw) blocked_kernel = Inr ports"
proof -
  have p: "PortPolicyManager_List (fw_portPolicyMgr ref_fw) blocked_kernel = Inr (Some [])"
    by (simp add: PortPolicyManager_List_def loop_eval blocked_kernel_def)
  have "maps_ok (gh_view ref_ghost blocked_kernel)" using blocked_maps_ok by simp
  from lists_roundtrip [OF ref_firewall_env this list_blocked p] obtain es where
      es: "map_of es = blocked_ips (kernel_maps blocked_kernel)"
      "slice_list (Some [\<lparr>br_Cidr = ''10.0.0.0/8'', br_Action = ''drop'', br_Priority = 5\<rparr>]) =
        map blockedRuleOf es"
      "\<forall>(k, v) \<in> set es. rule_key (br_Cidr (blockedRuleOf (k, v))) = Inr k \<and>
       ParseAction (br_Action (blockedRuleOf (k, v))) = Inr (rv_Action v) \<and>
       br_Priority (blockedRuleOf (k, v)) = rv_Priority v"
    unfolding ref_ghost_simps by blast
  from es(2) [THEN arg_cong, of length] have "length es = 1" by simp
  with es p show ?thesis by blast
qed

end
