(* ===== verification/ControlProps.thy ===== *)
theory ControlProps
  imports Examples
begin

text \<open>
  The properties of the server, the HTTP view, the command-line client, the program's life cycle
  and the daemon.
\<close>

section \<open>The control server\<close>

text \<open>Every reply is well formed: it is OK without an error, or it is an error reply that
  carries exactly one error; the commands that only read, and unknown ones, leave the world as it
  is.\<close>

lemma server_replies:
  "reply_ok (snd (Server_handle s req w)) \<and>
   (rq_Command req \<in> write_commands \<or> fst (Server_handle s req w) = w)"
  using Server_handle_reply [of s req w] Server_handle_reads [of req s w] by blast

text \<open>A request, whatever it asks and whether it succeeds or fails half-way, keeps the
  maps well formed (keys canonical, actions and protocols known, presence flags conservative),
  leaves the counters alone and never adds or changes a tracked flow.\<close>

lemma request_keeps_maps_ok:
  assumes "firewall_env G fw" "sv_policy s = firewall_policy fw" "maps_ok (gh_view G w)"
    "Server_handle s req w = (w', r)"
  shows "maps_ok (gh_view G w') \<and> counters (gh_view G w') = counters (gh_view G w) \<and>
    conntrack (gh_view G w') \<subseteq>\<^sub>m conntrack (gh_view G w)"
  using firewall_env.request_effect [OF assms(1,4,2,3)] by blast

text \<open>A granted clear request leaves no rule and no tracked flow behind.\<close>

lemma clear_request_empties:
  assumes "firewall_env G fw" "sv_policy s = firewall_policy fw" "maps_ok (gh_view G w)"
    "Server_handle s req w = (w', r)" "rq_Command req = CmdClear" "rs_OK r"
  shows "blocked_ips (gh_view G w') = Map.empty \<and> port_policy (gh_view G w') = Map.empty \<and>
    conntrack (gh_view G w') = Map.empty"
  using firewall_env.clear_request_effect [OF assms(1,4,2,3,5,6)] by blast

text \<open>A granted block request stores the rule it asked for. With a protocol or a port in the
  request it is the entry of the port key, otherwise that of the address prefix; the value is the
  requested action and priority, but DROP at priority 0 when no action is given: the priority of
  such a request is ignored.\<close>

lemma block_request_granted:
  assumes "firewall_env G fw" "sv_policy s = firewall_policy fw"
    "Server_handle s req w = (w', r)" "rq_Command req = CmdBlock" "rs_OK r"
  shows "\<exists>v. granted_rule req = Inr v \<and>
    (if rq_Protocol req = '''' \<and> rq_Port req = 0 \<and> rq_SPort req = 0
     then \<exists>k. rule_key (rq_Value req) = Inr k \<and> gh_view G w' = ip_inserted k v (gh_view G w)
     else \<exists>k. port_key (rq_Value req) (rq_Protocol req) (rq_Port req) (rq_SPort req) = Inr k \<and>
       gh_view G w' = port_inserted k v (gh_view G w)) \<and>
    (rq_Action req = '''' \<longrightarrow> v = \<lparr>rv_Action = ActionDrop, rv_Priority = 0\<rparr>)"
proof (cases "rq_Protocol req = '''' \<and> rq_Port req = 0 \<and> rq_SPort req = 0")
  case True
  with firewall_env.block_request_ip [OF assms(1,3,2,4) _ _ _ assms(5)] show ?thesis
    by (auto simp: granted_rule_def)
next
  case False
  with firewall_env.block_request_port [OF assms(1,3,2,4) _ assms(5)] show ?thesis
    by (auto simp: granted_rule_def)
qed

section \<open>The HTTP view\<close>

text \<open>Every HTTP reply has the status of its outcome: 200 with a body in which no list is
  JSON null, 500 with the policy's error, 405 with the Allow header for a method other than GET, 404
  for an unknown path.\<close>

lemma api_replies:
  "http_ok (API_ServeHTTP P meth path w) \<and>
   hr_status (API_ServeHTTP P meth path w) \<in>
     (if path \<notin> api_paths then {404} else if meth = MethodGet then {200, 500} else {405})"
proof -
  have "hr_status (api_get h meth w) \<in> (if meth = MethodGet then {200, 500} else {405})"
    if "hr_status (h w) \<in> {200, 500}" for h
    using that by (auto simp: api_get_def writeJSON_def)
  moreover have "hr_status (handleHealth P w) \<in> {200, 500}" "hr_status (handleStatus P w) \<in> {200, 500}"
    "hr_status (handleStats P w) \<in> {200, 500}" "hr_status (handleRules P w) \<in> {200, 500}"
    "hr_status (handleConntrack P w) \<in> {200, 500}"
    by (simp_all add: api_handlers writeJSON_def writeErr_def split: sum.splits)
  ultimately show ?thesis
    using ServeHTTP_http_ok [of P meth path w]
    by (auto simp: API_ServeHTTP_def api_paths_def NotFound_def)
qed

section \<open>The command-line client\<close>

lemma of_nat_fits:
  "n < 2 ^ 16 \<Longrightarrow> unat (of_nat n :: u16) = n" "p < 2 ^ 32 \<Longrightarrow> unat (of_nat p :: u32) = p"
  by (simp_all add: unsigned_of_nat take_bit_nat_eq_self)

text \<open>Claim C40: every request the client sends has a command the server knows, and carries the
  numbers of the command line undiminished: the parser has checked that each fits its field.\<close>

theorem client_requests:
  assumes "ctl_main raw = CtlSend sock req"
  shows "\<exists>op. extractOptions raw = Parsed op \<and> sock = op_sockPath op \<and>
    rq_Command req \<in> read_commands \<union> write_commands \<and>
    (rq_Command req \<in> {CmdBlock, CmdUnblock} \<longrightarrow>
       unat (rq_Port req) = op_port op \<and> unat (rq_SPort req) = op_sport op \<and>
       unat (rq_Priority req) = op_priority op \<and> rq_Value req = op_args op ! 1)"
proof -
  from assms obtain op where op: "extractOptions raw = Parsed op"
    by (auto simp: ctl_main_def split: option_result.splits)
  have "options_ok op"
    using extract_loop_ok [OF op [unfolded extractOptions_def]]
    by (simp add: options_ok_def default_options_def)
  then have fits: "unat (of_nat (op_port op) :: u16) = op_port op"
      "unat (of_nat (op_sport op) :: u16) = op_sport op"
      "unat (of_nat (op_priority op) :: u32) = op_priority op"
    by (simp_all add: options_ok_def of_nat_fits)
  from assms op obtain cmd others where a: "op_args op = cmd # others"
    by (auto simp: ctl_main_def split: list.splits)
  note m = assms [unfolded ctl_main_def op option_result.case a list.case]
  show ?thesis
    by (intro exI [of _ op])
      (use m a in \<open>auto simp: op fits read_commands_def write_commands_def cmd_defs plain_request_def
        split: if_split_asm list.split_asm\<close>)
qed

lemma classify_demo:
  "classify ''block'' = ArgPlain" "classify ''10.0.0.0/8'' = ArgPlain" "classify ''10.0.0.1'' = ArgPlain"
  "classify ''--priority'' = ArgNeedsValue OptPriority" "classify ''--dport=22'' = ArgValue OptDport ''22''"
  by code_simp+

lemma numbers_demo: "ParseUint ''100'' 32 = Some 100" "ParseUint ''22'' 16 = Some 22"
  by (simp_all add: ParseUint_def digit_val_def is_digit_def)

lemma ctl_demo:
  "ctl_main [''block'', ''10.0.0.0/8'', ''--priority'', ''100''] =
     CtlSend ''/var/run/ebpf-firewall.sock''
       ((plain_request ''block'')\<lparr>rq_Value := ''10.0.0.0/8'', rq_Priority := 100\<rparr>)"
  by (simp add: ctl_main_def extractOptions_def classify_demo store_option_def parsePriority_def
      numbers_demo default_options_def plain_request_def)

theorem client_requests_witness:
  "\<exists>op. extractOptions [''block'', ''10.0.0.0/8'', ''--priority'', ''100''] = Parsed op \<and> op_priority op = 100"
  using client_requests [OF ctl_demo] by (auto simp: plain_request_def cmd_defs)

text \<open>The position of the options is free: options in front of the positional arguments
  and behind them are read the same.\<close>

lemma options_position_free:
  assumes "extract_loop xs default_options = Parsed op" "op_args op = []" "all_plain ys"
  shows "extractOptions (ys @ xs) = extractOptions (xs @ ys) \<and> ctl_main (ys @ xs) = ctl_main (xs @ ys)"
  using options_commute [OF assms] by (simp add: ctl_main_def)

text \<open>A byte count from 1024 on is printed scaled by the largest power of 1024 that does
  not exceed it, with the matching prefix; the prefix index never leaves the table and the divisor
  never overflows.\<close>

lemma byte_counts_scaled:
  assumes "b \<ge> 1024"
  shows "\<exists>dv ex. formatBytes b = ScaledBytes b dv (''KMGTPE'' ! ex) \<and> ex < 6 \<and>
    unat dv = 1024 ^ Suc ex \<and> unat dv \<le> unat b \<and> unat b < 1024 * unat dv"
  by (rule formatBytes_scaled [OF assms])

section \<open>The life cycle\<close>

text \<open>Claim C34: the life of the program: loaded, it is not attached; a start that succeeds attaches it
  in driver mode when the driver takes it and in generic mode otherwise, and a second start changes
  nothing; the close detaches the link, then releases the loaded objects - the program and the six
  maps in turn, all of them when none fails - and reports the first of the two errors.\<close>

theorem xdp_life_cycle:
  assumes "LoadXDP env i w = (w1, Inr x)" "XDPProgram_Start env x w1 = (w2, x2, None)"
    "XDPProgram_Close env x2 w3 = (w4, x4, e)"
  shows "\<not> xdp_attached x \<and> xdp_attached x2 \<and>
    x_attachMode x2 =
      (if \<exists>l. snd (xe_AttachXDP env (x_prog x) (x_ifaceIndex x) XDPDriverMode w1) = Inr l
       then AttachModeDriver else AttachModeGeneric) \<and>
    XDPProgram_Start env x2 w3 = (w3, x2, None) \<and> \<not> xdp_attached x4 \<and>
    (\<exists>l w' le oe. x_link x2 = Some l \<and> xe_linkClose env l w3 = (w', le) \<and>
       firewallObjects_Close (xe_collection env) (x_objs x) w' = (w4, oe) \<and>
       (oe = None \<longrightarrow> w4 = close_all (object_closers (xe_collection env) (x_objs x)) w') \<and>
       e = map_option SysError (case le of None \<Rightarrow> oe | Some _ \<Rightarrow> le))"
proof -
  have x: "xdp_ok x" "\<not> xdp_attached x" using LoadXDP_ok [OF assms(1)] by blast+
  from Start_spec [OF assms(2) x] have s: "xdp_ok x2" "xdp_attached x2" "x_objs x2 = x_objs x"
      "x_attachMode x2 = AttachModeDriver \<longleftrightarrow>
        (\<exists>l. snd (xe_AttachXDP env (x_prog x) (x_ifaceIndex x) XDPDriverMode w1) = Inr l)"
    by auto
  then obtain l where l: "x_link x2 = Some l" by (auto simp: xdp_attached_def)
  from s(1,2) have "x_attachMode x2 = AttachModeDriver \<or> x_attachMode x2 = AttachModeGeneric"
    by (auto simp: xdp_ok_def)
  with s(4) have mode: "x_attachMode x2 =
      (if \<exists>l. snd (xe_AttachXDP env (x_prog x) (x_ifaceIndex x) XDPDriverMode w1) = Inr l
       then AttachModeDriver else AttachModeGeneric)"
    by auto
  have closed: "firewallObjects_Close (xe_collection env) (x_objs x) w = (w', None) \<Longrightarrow>
      w' = close_all (object_closers (xe_collection env) (x_objs x)) w" for w w'
    using FirewallClose_prefix [of "object_closers (xe_collection env) (x_objs x)" w w' None]
    by (simp add: objects_closed)
  from Close_spec [OF assms(3)] show ?thesis
    using x(2) s mode Start_attached [OF s(2), of env w3] by (auto simp: l dest: closed)
qed

definition ref_program :: "(kernel, ref_iter, nat) XDPProgram" where
  "ref_program = fw_prog ref_fw"

lemma ref_life:
  "LoadXDP ref_env ''eth0'' boot_kernel = (boot_kernel, Inr ref_program)"
  "XDPProgram_Start ref_env ref_program boot_kernel =
     (boot_kernel\<lparr>k_links := [(2, XDPGenericMode)]\<rparr>,
      ref_program\<lparr>x_attachMode := AttachModeGeneric, x_link := Some 0\<rparr>, None)"
  "XDPProgram_Close ref_env (ref_program\<lparr>x_attachMode := AttachModeGeneric, x_link := Some 0\<rparr>)
     (boot_kernel\<lparr>k_links := [(2, XDPGenericMode)]\<rparr>) =
     (boot_kernel, ref_program\<lparr>x_attachMode := AttachModeGeneric\<rparr>, None)"
  by (simp_all add: fresh_kernel_def ref_program_def ref_fw_def wire_firewall_def XDPProgram_maps Let_def LoadXDP_def ref_env_def
      XDPProgram_Start_def XDPProgram_attach_def XDPProgram_Close_def boot_kernel_def)
    (simp_all add: ref_objs_def)

theorem xdp_life_cycle_witness:
  "x_attachMode (ref_program\<lparr>x_attachMode := AttachModeGeneric, x_link := Some (0 :: nat)\<rparr>) = AttachModeGeneric \<and>
   \<not> xdp_attached (ref_program\<lparr>x_attachMode := AttachModeGeneric\<rparr>)"
  using xdp_life_cycle [OF ref_life] by simp

section \<open>The block list of the daemon\<close>

text \<open>The daemon's block list. Its outcomes are logged for the trimmed, non-empty elements
  in order; afterwards the table holds a DROP rule for exactly the elements logged as blocked,
  besides what it held before, and the maps stay well formed.\<close>

lemma block_list_populates:
  assumes "firewall_env G fw" "maps_ok (gh_view G w)" "populate fw bl w = (w', logs)"
  shows "map fst logs = filter (\<lambda>s. s \<noteq> '''') (map TrimSpace (if bl = '''' then [] else split_on (CHR '','') bl)) \<and>
    maps_ok (gh_view G w') \<and>
    (\<forall>k. blocked_ips (gh_view G w') k =
      (if \<exists>s. (s, None) \<in> set logs \<and> rule_key s = Inr k
       then Some \<lparr>rv_Action = ActionDrop, rv_Priority = 0\<rparr> else blocked_ips (gh_view G w) k))"
proof (cases "bl = ''''")
  case True
  with assms show ?thesis by (simp add: populate_def)
next
  case False
  with assms(3) have b: "block_loop fw (split_on (CHR '','') bl) w = (w', logs)" by (simp add: populate_def)
  from firewall_env.block_loop_effect [OF assms(1) b] block_loop_logs [of fw "split_on (CHR '','') bl" w]
  show ?thesis using False b assms(2) mgr_steps_maps_ok by auto
qed

definition drop0 :: ruleValue where "drop0 = \<lparr>rv_Action = ActionDrop, rv_Priority = 0\<rparr>"

lemma block_words:
  "split_on (CHR '','') '' 10.0.0.0/8, ,x'' = ['' 10.0.0.0/8'', '' '', ''x'']"
  "TrimSpace '' 10.0.0.0/8'' = ''10.0.0.0/8''" "TrimSpace '' '' = []" "TrimSpace ''x'' = ''x''"
  "rule_key ''x'' = Inl (InvalidIPAddress ''x'')"
  by code_simp+

lemma populate_demo:
  "populate ref_fw '' 10.0.0.0/8, ,x'' boot_kernel =
     (boot_kernel\<lparr>k_ip := [(k10, drop0)], k_pres := [(0, 1)]\<rparr>,
      [(''10.0.0.0/8'', None), (''x'', Some (Wrapped ''blocking'' (InvalidIPAddress ''x'')))])"
  by (simp add: populate_def block_words Firewall_BlockIP_def MapManager_BlockIP_def MapManager_BlockIPWithAction_def wrap_err_def
      defaultBlockAction_def MapManager_Block_eq rule_key_k10 op_eval fits_k10 lpm_norm_k10
      drop0_def Let_def)

end
