(* ===== verification/Interleave.thy ===== *)
theory Interleave
  imports Server
begin

text \<open>
  Concurrency. The kernel judges packets while the daemon is in the middle of a request, and the
  conntrack reaper runs beside the server without its mutex. Here every operation that writes is a
  program (\<open>prog\<close>) of atomic map calls; running one alone is the function of the manager
  (\<open>run_\<dots>\<close> lemmas), and running one among packets and the reaper is the relation
  \<open>micro_step\<close>. The datapath and the reaper never write the control part of the maps
  (\<open>ctl\<close>), so the weakest preconditions \<open>wp\<close> reason about that part as if the request ran alone
  and ask for an invariant before and after every single call.
\<close>

section \<open>Programs of atomic calls\<close>

datatype ('w, 'r) prog = Return 'r | Atom "'w \<Rightarrow> 'w" "'w \<Rightarrow> ('w, 'r) prog"

primrec run :: "('w, 'r) prog \<Rightarrow> 'w \<Rightarrow> 'w \<times> 'r" where
  "run (Return r) w = (w, r)"
| "run (Atom f k) w = run (k w) (f w)"

primrec andthen :: "('w, 'a) prog \<Rightarrow> ('a \<Rightarrow> ('w, 'b) prog) \<Rightarrow> ('w, 'b) prog" where
  "andthen (Return r) g = g r"
| "andthen (Atom f k) g = Atom f (\<lambda>w. andthen (k w) g)"

definition call :: "('w \<Rightarrow> 'w \<times> 'r) \<Rightarrow> ('w, 'r) prog" where
  "call c = Atom (\<lambda>w. fst (c w)) (\<lambda>w. Return (snd (c w)))"

definition reading :: "('w \<Rightarrow> 'r) \<Rightarrow> ('w, 'r) prog" where
  "reading g = Atom (\<lambda>w. w) (\<lambda>w. Return (g w))"

lemma run_andthen [simp]: "run (andthen p g) w = (case run p w of (w', r) \<Rightarrow> run (g r) w')"
  by (induction p arbitrary: w) simp_all

lemma run_call [simp]: "run (call c) w = c w" "run (reading g) w = (w, g w)"
  by (simp_all add: call_def reading_def)

section \<open>The table operations, call by call\<close>

definition setbit_prog :: "('w, 'i) presence_handle \<Rightarrow> u32 \<Rightarrow> ('w, map_err option) prog" where
  "setbit_prog presence b =
     (case presence of
        None \<Rightarrow> Return None
      | Some P \<Rightarrow> andthen (reading (\<lambda>w. m_lookup P w presenceMapKey)) (\<lambda>r.
          case r of
            Inl err \<Rightarrow>
              if \<not> errors_Is err ErrKeyNotExist then Return (Some err)
              else call (\<lambda>w. m_put P w presenceMapKey (0 OR b))
          | Inr flags \<Rightarrow> call (\<lambda>w. m_put P w presenceMapKey (flags OR b))))"

definition clearbit_prog :: "('w, 'i) presence_handle \<Rightarrow> u32 \<Rightarrow> ('w, map_err option) prog" where
  "clearbit_prog presence b =
     (case presence of
        None \<Rightarrow> Return None
      | Some P \<Rightarrow> andthen (reading (\<lambda>w. m_lookup P w presenceMapKey)) (\<lambda>r.
          case r of
            Inl err \<Rightarrow>
              if \<not> errors_Is err ErrKeyNotExist then Return (Some err)
              else call (\<lambda>w. m_put P w presenceMapKey (0 AND NOT b))
          | Inr flags \<Rightarrow> call (\<lambda>w. m_put P w presenceMapKey (flags AND NOT b))))"

definition sync_prog ::
    "('w, 'i, 'k, 'v) bpf_handle \<Rightarrow> ('w, 'i) presence_handle \<Rightarrow> u32 \<Rightarrow> ('w, map_err option) prog" where
  "sync_prog M presence b =
     andthen (reading (mapHasEntries M)) (\<lambda>r.
       case r of
         Inl err \<Rightarrow> Return (Some err)
       | Inr has \<Rightarrow> if has then setbit_prog presence b else clearbit_prog presence b)"

definition insert_prog ::
    "('w, 'i, 'k, 'v) bpf_handle \<Rightarrow> ('w, 'i) presence_handle \<Rightarrow> u32 \<Rightarrow> 'k \<Rightarrow> 'v
      \<Rightarrow> ('w, map_err option) prog" where
  "insert_prog M presence b k v =
     andthen (setbit_prog presence b) (\<lambda>e.
       case e of Some err \<Rightarrow> Return (Some err) | None \<Rightarrow> call (\<lambda>w. m_put M w k v))"

definition remove_prog ::
    "('w, 'i, 'k, 'v) bpf_handle \<Rightarrow> ('w, 'i) presence_handle \<Rightarrow> u32 \<Rightarrow> 'k
      \<Rightarrow> ('w, map_err option) prog" where
  "remove_prog M presence b k =
     andthen (call (\<lambda>w. m_delete M w k)) (\<lambda>e.
       case e of Some err \<Rightarrow> Return (Some err) | None \<Rightarrow> sync_prog M presence b)"

fun iter_delete_prog ::
    "('w, 'i, 'k, 'v) bpf_handle \<Rightarrow> nat \<Rightarrow> 'i \<Rightarrow> ('w, map_err option) prog" where
  "iter_delete_prog M 0 it = Return (Some ErrIterationAborted)"
| "iter_delete_prog M (Suc n) it =
     andthen (reading (\<lambda>w. m_next M w it)) (\<lambda>r.
       case r of
         Done e \<Rightarrow> Return e
       | Yield k v it' \<Rightarrow> andthen (call (\<lambda>w. m_delete M w k)) (\<lambda>e.
           case e of Some err \<Rightarrow> Return (Some err) | None \<Rightarrow> iter_delete_prog M n it'))"

definition clear_prog ::
    "('w, 'i, 'k, 'v) bpf_handle \<Rightarrow> ('w, 'i) presence_handle \<Rightarrow> u32 \<Rightarrow> ('w, map_err option) prog" where
  "clear_prog M presence b =
     andthen (andthen (reading (m_iterate M)) (iter_delete_prog M (m_max_entries M + 2))) (\<lambda>e.
       case e of Some err \<Rightarrow> Return (Some err) | None \<Rightarrow> sync_prog M presence b)"

fun iter_prog ::
    "('w, 'i, 'k, 'v) bpf_handle \<Rightarrow> nat \<Rightarrow> 'i \<Rightarrow> ('w, ('k \<times> 'v) list \<times> map_err option) prog" where
  "iter_prog M 0 it = Return ([], Some ErrIterationAborted)"
| "iter_prog M (Suc n) it =
     andthen (reading (\<lambda>w. m_next M w it)) (\<lambda>r.
       case r of
         Done e \<Rightarrow> Return ([], e)
       | Yield k v it' \<Rightarrow> andthen (iter_prog M n it') (\<lambda>(es, e). Return ((k, v) # es, e)))"

definition scan_prog ::
    "('w, 'i, 'k, 'v) bpf_handle \<Rightarrow> ('w, ('k \<times> 'v) list \<times> map_err option) prog" where
  "scan_prog M = andthen (reading (m_iterate M)) (iter_prog M (m_max_entries M + 2))"

fun delete_prog ::
    "('w, 'i, 'k, 'v) bpf_handle \<Rightarrow> 'k list \<Rightarrow> ('w, nat \<times> map_err option) prog" where
  "delete_prog M [] = Return (0, None)"
| "delete_prog M (k # ks) =
     andthen (call (\<lambda>w. m_delete M w k)) (\<lambda>e.
       case e of
         Some err \<Rightarrow> Return (0, Some err)
       | None \<Rightarrow> andthen (delete_prog M ks) (\<lambda>(n, e). Return (Suc n, e)))"

text \<open>Alone, they are the functions of the managers.\<close>

lemma run_bits: "run (setbit_prog presence b) w = setPresenceBit presence b w"
    "run (clearbit_prog presence b) w = clearPresenceBit presence b w"
  by (simp_all add: setbit_prog_def setPresenceBit_def clearbit_prog_def clearPresenceBit_def
      split: option.split sum.split)

lemma run_sync: "run (sync_prog M presence b) w = table_sync M presence b w"
  by (simp add: sync_prog_def table_sync_def run_bits split: sum.split)

lemma run_insert: "run (insert_prog M presence b k v) w = table_insert M presence b k v w"
  by (simp add: insert_prog_def table_insert_def run_bits split: prod.split option.split)

lemma run_remove: "run (remove_prog M presence b k) w = table_remove M presence b k w"
  by (simp add: remove_prog_def table_remove_def run_sync split: prod.split option.split)

lemma run_iter_delete: "run (iter_delete_prog M n it) w = iter_delete M n w it"
  by (induction n arbitrary: w it) (simp_all split: next_result.split prod.split option.split)

lemma run_clear: "run (clear_prog M presence b) w = table_clear M presence b w"
  by (simp del: add_2_eq_Suc' add: clear_prog_def table_clear_def delete_all_def run_iter_delete run_sync
      split: prod.split option.split)

lemma run_iter: "run (iter_prog M n it) w = (w, iter_list M n w it)"
  by (induction n arbitrary: it) (simp_all split: next_result.split prod.split)

lemma run_scan: "run (scan_prog M) w = (w, iterate_all M w)"
  by (simp del: add_2_eq_Suc' add: scan_prog_def iterate_all_def run_iter)

lemma run_delete: "run (delete_prog M ks) w = delete_keys M ks w"
  by (induction ks arbitrary: w) (simp_all split: prod.split option.split)

lemmas run_table = run_insert run_remove run_clear run_scan run_delete

section \<open>The control part, and preconditions that survive interference\<close>

definition ctl :: "fw_maps \<Rightarrow> fw_maps" where
  "ctl m = m\<lparr>conntrack := Map.empty, counters := Map.empty\<rparr>"

lemma ctl_simps [simp]:
  "blocked_ips (ctl m) = blocked_ips m" "port_policy (ctl m) = port_policy m"
  "firewall_config (ctl m) = firewall_config m" "rule_presence (ctl m) = rule_presence m"
  "ctl (ctl m) = ctl m" "ctl (m\<lparr>conntrack := c\<rparr>) = ctl m" "ctl (m\<lparr>counters := d\<rparr>) = ctl m"
  "ctl (m\<lparr>blocked_ips := e\<rparr>) = (ctl m)\<lparr>blocked_ips := e\<rparr>"
  "ctl (m\<lparr>port_policy := f\<rparr>) = (ctl m)\<lparr>port_policy := f\<rparr>"
  "ctl (m\<lparr>firewall_config := g\<rparr>) = (ctl m)\<lparr>firewall_config := g\<rparr>"
  "ctl (m\<lparr>rule_presence := h\<rparr>) = (ctl m)\<lparr>rule_presence := h\<rparr>"
  by (simp_all add: ctl_def)

lemma ctl_flags [simp]:
  "presence_flags (ctl m) = presence_flags m" "bit_set b (ctl m) = bit_set b m"
  "ctl (set_flags f m) = set_flags f (ctl m)" "ctl (advertise b m) = advertise b (ctl m)"
  by (simp_all add: presence_flags_def bit_set_def set_flags_def advertise_def)

lemma ctl_eq_iff: "ctl m = ctl m' \<longleftrightarrow> same_tables m m'"
  by (cases m; cases m') (auto simp: ctl_def same_tables_def)

lemma maps_ok_ctl [simp]: "maps_ok (ctl m) = maps_ok m"
  by (rule maps_ok_same_tables) (simp flip: ctl_eq_iff)

text \<open>\<open>wp\<close>: from control part \<open>m\<close> the program keeps \<open>I\<close> before and after each of its calls, whatever
  the others do to the rest of the world in between, and ends with \<open>Q\<close> of its result and the final
  control part.\<close>

primrec wp :: "('w \<Rightarrow> fw_maps) \<Rightarrow> (fw_maps \<Rightarrow> bool) \<Rightarrow> ('w, 'r) prog \<Rightarrow> ('r \<Rightarrow> fw_maps \<Rightarrow> bool) \<Rightarrow> fw_maps \<Rightarrow> bool"
where
  "wp view I (Return r) Q m \<longleftrightarrow> I m \<and> Q r m"
| "wp view I (Atom f k) Q m \<longleftrightarrow> I m \<and>
     (\<forall>w. ctl (view w) = m \<longrightarrow> wp view I (k w) Q (ctl (view (f w))))"

lemma wp_inv: "wp view I p Q m \<Longrightarrow> I m"
  by (cases p) simp_all

lemma wp_mono: "wp view I p Q m \<Longrightarrow> (\<And>r m. I m \<Longrightarrow> Q r m \<Longrightarrow> R r m) \<Longrightarrow> wp view I p R m"
  by (induction p arbitrary: m) auto

lemma wp_andthen: "wp view I p (\<lambda>r. wp view I (g r) Q) m \<Longrightarrow> wp view I (andthen p g) Q m"
  by (induction p arbitrary: m) auto

lemma wp_reading:
  "I m \<Longrightarrow> (\<And>w. ctl (view w) = m \<Longrightarrow> Q (g w) m) \<Longrightarrow> wp view I (reading g) Q m"
  by (simp add: reading_def)

lemma wp_call:
  "I m \<Longrightarrow> (\<And>w w' r. ctl (view w) = m \<Longrightarrow> c w = (w', r) \<Longrightarrow> I (ctl (view w')) \<and> Q r (ctl (view w')))
    \<Longrightarrow> wp view I (call c) Q m"
  by (simp add: call_def) (metis prod.collapse)

text \<open>A program that never changes the control part.\<close>

primrec framed :: "('w \<Rightarrow> fw_maps) \<Rightarrow> ('w, 'r) prog \<Rightarrow> bool" where
  "framed view (Return r) = True"
| "framed view (Atom f k) = (\<forall>w. ctl (view (f w)) = ctl (view w) \<and> framed view (k w))"

lemma framed_wp: "framed view p \<Longrightarrow> I m \<Longrightarrow> wp view I p (\<lambda>r m'. m' = m) m"
  by (induction p) auto

lemma framed_andthen: "framed view p \<Longrightarrow> (\<And>r. framed view (g r)) \<Longrightarrow> framed view (andthen p g)"
  by (induction p) auto

lemma framed_reading [simp]: "framed view (reading g)"
  by (simp add: reading_def)

lemma framed_call: "(\<And>w w' r. c w = (w', r) \<Longrightarrow> ctl (view w') = ctl (view w)) \<Longrightarrow> framed view (call c)"
  by (simp add: call_def) (metis prod.collapse)

section \<open>The rule tables among packets\<close>

text \<open>A table whose changes keep an invariant of the control part that is at least conservative.\<close>

locale micro_table = rule_table view get upd sel canon fits cursor M pcursor P b
  for view :: "'w \<Rightarrow> fw_maps"
    and get :: "fw_maps \<Rightarrow> ('k \<rightharpoonup> 'v)"
    and upd :: "('k \<rightharpoonup> 'v) \<Rightarrow> fw_maps \<Rightarrow> fw_maps"
    and sel :: "('k \<rightharpoonup> 'v) \<Rightarrow> 'k \<Rightarrow> 'v option"
    and canon :: "'k \<Rightarrow> bool"
    and fits :: "'k \<Rightarrow> bool"
    and cursor :: "'i \<Rightarrow> 'k option"
    and M :: "('w, 'i, 'k, 'v) bpf_handle"
    and pcursor :: "'i \<Rightarrow> u32 option"
    and P :: "('w, 'i, u32, u32) bpf_handle"
    and b :: u32 +
  fixes I :: "fw_maps \<Rightarrow> bool" and key_ok :: "'k \<Rightarrow> bool" and val_ok :: "'v \<Rightarrow> bool"
  assumes ctl_get: "get (ctl m) = get m"
    and ctl_upd: "ctl (upd c m) = upd c (ctl m)"
    and I_canon: "I m \<Longrightarrow> k \<in> dom (get m) \<Longrightarrow> canon k"
    and I_advertise: "I m \<Longrightarrow> I (advertise b m)"
    and I_insert: "I m \<Longrightarrow> bit_set b m \<Longrightarrow> key_ok k \<Longrightarrow> val_ok v \<Longrightarrow> I (upd ((get m)(k \<mapsto> v)) m)"
    and I_shrink: "I m \<Longrightarrow> c \<subseteq>\<^sub>m get m \<Longrightarrow> I (upd c m)"
    and I_clear: "I m \<Longrightarrow> get m = Map.empty \<Longrightarrow> I (set_flags (presence_flags m AND NOT b) m)"
begin

lemma put_flags_ctl:
  "m_put P w presenceMapKey f = (w', e) \<Longrightarrow>
     ctl (view w') = (if e = None then set_flags f (ctl (view w)) else ctl (view w))"
  using put_flags [of w f w'] by (cases e) auto

lemma flags_read:
  "ctl (view w) = m \<Longrightarrow> m_lookup P w presenceMapKey = Inr f \<Longrightarrow> f = presence_flags m"
  "ctl (view w) = m \<Longrightarrow> m_lookup P w presenceMapKey = Inl e \<Longrightarrow> errors_Is e ErrKeyNotExist \<Longrightarrow>
     presence_flags m = 0"
  using lookup_flags [of w] by auto

lemma wp_put_flags:
  assumes "I m" "I (set_flags f m)"
  shows "wp view I (call (\<lambda>w. m_put P w presenceMapKey f))
    (\<lambda>e m'. m' = (if e = None then set_flags f m else m)) m"
  using assms by (intro wp_call) (auto simp: put_flags_ctl)

lemma wp_flags:
  assumes "I m" "I (set_flags (g (presence_flags m)) m)"
  shows "wp view I
    (andthen (reading (\<lambda>w. m_lookup P w presenceMapKey)) (\<lambda>r.
       case r of
         Inl err \<Rightarrow>
           if \<not> errors_Is err ErrKeyNotExist then Return (Some err)
           else call (\<lambda>w. m_put P w presenceMapKey (g 0))
       | Inr flags \<Rightarrow> call (\<lambda>w. m_put P w presenceMapKey (g flags))))
    (\<lambda>e m'. m' = (if e = None then set_flags (g (presence_flags m)) m else m)) m"
proof (intro wp_andthen wp_reading assms(1))
  fix w assume w: "ctl (view w) = m"
  show "wp view I
     (case m_lookup P w presenceMapKey of
        Inl err \<Rightarrow>
          if \<not> errors_Is err ErrKeyNotExist then Return (Some err)
          else call (\<lambda>w. m_put P w presenceMapKey (g 0))
      | Inr flags \<Rightarrow> call (\<lambda>w. m_put P w presenceMapKey (g flags)))
     (\<lambda>e m'. m' = (if e = None then set_flags (g (presence_flags m)) m else m)) m"
  proof (cases "m_lookup P w presenceMapKey")
    case (Inl err)
    then show ?thesis
      using wp_put_flags [OF assms] flags_read(2) [OF w Inl] assms(1)
      by (cases "errors_Is err ErrKeyNotExist") simp_all
  next
    case (Inr flags)
    then show ?thesis using wp_put_flags [OF assms] flags_read(1) [OF w Inr] by simp
  qed
qed

lemma wp_setbit:
  assumes "I m"
  shows "wp view I (setbit_prog (Some P) b) (\<lambda>e m'. m' = (if e = None then advertise b m else m)) m"
  unfolding setbit_prog_def option.case advertise_def
  using assms I_advertise [OF assms, unfolded advertise_def]
  by (rule wp_flags [where g = "\<lambda>f. f OR b"])

lemma wp_clearbit:
  assumes "I m" "get m = Map.empty"
  shows "wp view I (clearbit_prog (Some P) b)
    (\<lambda>e m'. m' = (if e = None then set_flags (presence_flags m AND NOT b) m else m)) m"
  unfolding clearbit_prog_def option.case 
  using assms(1) I_clear [OF assms] by (rule wp_flags [where g = "\<lambda>f. f AND NOT b"])

text \<open>Between the look at the table and the update of the flag nobody else writes the table.\<close>

lemma wp_sync:
  assumes "I m"
  shows "wp view I (sync_prog M (Some P) b) (\<lambda>e m'. m' = (if e = None then exact_flags m else m)) m"
  unfolding sync_prog_def
proof (intro wp_andthen wp_reading assms)
  fix w assume w: "ctl (view w) = m"
  have g: "get (view w) = get m" using ctl_get [of "view w"] by (simp add: w)
  show "wp view I (case mapHasEntries M w of Inl err \<Rightarrow> Return (Some err)
      | Inr has \<Rightarrow> if has then setbit_prog (Some P) b else clearbit_prog (Some P) b)
      (\<lambda>e m'. m' = (if e = None then exact_flags m else m)) m"
  proof (cases "mapHasEntries M w")
    case (Inl err)
    with assms show ?thesis by simp
  next
    case (Inr has)
    with mapHasEntries_spec [OF Inr] g have "has \<longleftrightarrow> get m \<noteq> Map.empty" by simp
    with Inr wp_setbit [OF assms] wp_clearbit [OF assms] show ?thesis
      by (auto simp: exact_flags_def sync_flags_def advertise_def elim!: wp_mono split: if_splits)
  qed
qed

lemma upd_same_ctl: "\<exists>c. c \<subseteq>\<^sub>m get m \<and> m = upd c m"
  by (rule exI [of _ "get m"]) (simp add: T.upd_get)

lemma put_ctl:
  assumes "ctl (view w) = m" "m_put M w k v = (w', e)" "canon k \<or> \<not> fits k"
  shows "ctl (view w') = (if e = None then upd ((get m)(k \<mapsto> v)) m else m)" "e = None \<Longrightarrow> canon k"
proof -
  have g: "get (view w) = get m" using ctl_get [of "view w"] by (simp add: assms(1))
  show "e = None \<Longrightarrow> canon k" using assms(2,3) T.put_fits [of w k v w'] by auto
  then show "ctl (view w') = (if e = None then upd ((get m)(k \<mapsto> v)) m else m)"
    using assms(1,2) T.put_ok [of w k v w'] T.put_err [of w k v w'] by (cases e) (auto simp: ctl_upd g)
qed

lemma delete_ctl:
  assumes "ctl (view w) = m" "m_delete M w k = (w', e)" "canon k \<or> \<not> fits k"
  shows "ctl (view w') = (if e = None then upd ((get m)(k := None)) m else m)"
    "e = None \<Longrightarrow> k \<in> dom (get m) \<and> canon k"
proof -
  have g: "get (view w) = get m" using ctl_get [of "view w"] by (simp add: assms(1))
  have c: "e = None \<Longrightarrow> canon k" using assms(2,3) T.delete_fits [of w k w'] by auto
  then show "e = None \<Longrightarrow> k \<in> dom (get m) \<and> canon k"
    using assms(2) T.delete_ok [of w k w'] by (simp add: g)
  from c show "ctl (view w') = (if e = None then upd ((get m)(k := None)) m else m)"
    using assms(1,2) T.delete_ok [of w k w'] T.delete_err [of w k w'] by (cases e) (auto simp: ctl_upd g)
qed

text \<open>The three sequences: after an insertion, a removal or a clearing the table and its flag are what
  they would be without interference, and the invariant held at every call in between.\<close>

lemma wp_insert:
  assumes "I m" "canon k \<or> \<not> fits k" "val_ok v" "canon k \<Longrightarrow> key_ok k"
  shows "wp view I (insert_prog M (Some P) b k v)
    (\<lambda>e m'. if e = None then canon k \<and> m' = upd ((get m)(k \<mapsto> v)) (advertise b m)
       else m' \<in> {m, advertise b m}) m"
  unfolding insert_prog_def
proof (intro wp_andthen wp_mono [OF wp_setbit [OF assms(1)]])
  fix e :: "map_err option" and m1
  assume I: "I m1" and m1: "m1 = (if e = None then advertise b m else m)"
  show "wp view I (case e of None \<Rightarrow> call (\<lambda>w. m_put M w k v) | Some err \<Rightarrow> Return (Some err))
    (\<lambda>e m'. if e = None then canon k \<and> m' = upd ((get m)(k \<mapsto> v)) (advertise b m)
       else m' \<in> {m, advertise b m}) m1"
  proof (cases e)
    case None
    with m1 have a: "m1 = advertise b m" by simp
    have s: "bit_set b m1" "get m1 = get m" by (simp_all add: a advertise_def bit_set_def bit_nonzero)
    show ?thesis
      unfolding None option.case
    proof (rule wp_call)
      show "I m1" by (rule I)
      fix w w' and e' :: "map_err option"
      assume "ctl (view w) = m1" "m_put M w k v = (w', e')"
      from put_ctl [OF this assms(2)] I I_insert [OF I s(1) assms(4) assms(3)] s a
      show "I (ctl (view w')) \<and> (if e' = None then canon k \<and>
          ctl (view w') = upd ((get m)(k \<mapsto> v)) (advertise b m)
          else ctl (view w') \<in> {m, advertise b m})"
        by (cases e') simp_all
    qed
  next
    case (Some err)
    with I m1 show ?thesis by simp
  qed
qed

lemma wp_remove:
  assumes "I m" "canon k \<or> \<not> fits k"
  shows "wp view I (remove_prog M (Some P) b k)
    (\<lambda>e m'. if e = None then k \<in> dom (get m) \<and> m' = exact_flags (upd ((get m)(k := None)) m)
       else m' \<in> {m, upd ((get m)(k := None)) m}) m"
  unfolding remove_prog_def
proof (intro wp_andthen wp_call assms(1))
  fix w w' and e :: "map_err option"
  assume "ctl (view w) = m" "m_delete M w k = (w', e)"
  note d = delete_ctl [OF this assms(2)]
  have I': "I (upd ((get m)(k := None)) m)" by (rule I_shrink [OF assms(1) upd_None_map_le])
  show "I (ctl (view w')) \<and>
    wp view I (case e of None \<Rightarrow> sync_prog M (Some P) b | Some err \<Rightarrow> Return (Some err))
     (\<lambda>e m'. if e = None then k \<in> dom (get m) \<and> m' = exact_flags (upd ((get m)(k := None)) m)
        else m' \<in> {m, upd ((get m)(k := None)) m}) (ctl (view w'))"
  proof (cases e)
    case None
    with d have v: "ctl (view w') = upd ((get m)(k := None)) m" and k: "k \<in> dom (get m)" by auto
    show ?thesis
      unfolding None v option.case
      by (intro conjI I' wp_mono [OF wp_sync [OF I']]) (auto simp: k)
  next
    case (Some err)
    with d(1) assms(1) show ?thesis by simp
  qed
qed

lemma wp_iter_delete:
  assumes "I m" "\<And>k. cursor it = Some k \<Longrightarrow> get m k = None"
  shows "wp view I (iter_delete_prog M n it)
    (\<lambda>e m'. \<exists>c. c \<subseteq>\<^sub>m get m \<and> m' = upd c m \<and> (e = None \<longrightarrow> c = Map.empty)) m"
  using assms
proof (induction n arbitrary: it m)
  case 0
  then show ?case
    using upd_same_ctl by auto
next
  case (Suc n)
  show ?case
    unfolding iter_delete_prog.simps
  proof (intro wp_andthen wp_reading Suc.prems(1))
    fix w assume w: "ctl (view w) = m"
    have g: "get (view w) = get m" using ctl_get [of "view w"] by (simp add: w)
    let ?Q = "\<lambda>e m'. \<exists>c. c \<subseteq>\<^sub>m get m \<and> m' = upd c m \<and> (e = None \<longrightarrow> c = Map.empty)"
    show "wp view I (case m_next M w it of Done e \<Rightarrow> Return e
        | Yield k v it' \<Rightarrow> andthen (call (\<lambda>w. m_delete M w k)) (\<lambda>e.
            case e of None \<Rightarrow> iter_delete_prog M n it' | Some err \<Rightarrow> Return (Some err))) ?Q m"
    proof (cases "m_next M w it")
      case (Done e)
      then have "e = None \<Longrightarrow> get m = Map.empty"
        using T.next_end [of w it] Suc.prems(2) g by simp
      with Done Suc.prems(1) show ?thesis by (auto intro!: exI [of _ "get m"] simp: T.upd_get)
    next
      case (Yield k v it')
      then have k: "get m k = Some v" "cursor it' = Some k"
        using T.next_entry [OF Yield] g by simp_all
      then have can: "canon k \<or> \<not> fits k" using I_canon [OF Suc.prems(1)] by auto
      let ?m1 = "upd ((get m)(k := None)) m"
      have I1: "I ?m1" by (rule I_shrink [OF Suc.prems(1) upd_None_map_le])
      have rest: "wp view I (iter_delete_prog M n it') ?Q ?m1"
      proof (rule wp_mono [OF Suc.IH [OF I1]])
        show "\<And>k'. cursor it' = Some k' \<Longrightarrow> get ?m1 k' = None" using k(2) by simp
        fix e m' assume "\<exists>c. c \<subseteq>\<^sub>m get ?m1 \<and> m' = upd c ?m1 \<and> (e = None \<longrightarrow> c = Map.empty)"
        then obtain c where "c \<subseteq>\<^sub>m (get m)(k := None)" "m' = upd c m" "e = None \<longrightarrow> c = Map.empty"
          by (auto simp: T.upd_upd)
        moreover from this(1) have "c \<subseteq>\<^sub>m get m" using upd_None_map_le by (rule map_le_trans)
        ultimately show "?Q e m'" by (intro exI [of _ c]) simp
      qed
      show ?thesis
        unfolding Yield next_result.case
      proof (intro wp_andthen wp_call Suc.prems(1))
        fix w1 w1' and e :: "map_err option"
        assume "ctl (view w1) = m" "m_delete M w1 k = (w1', e)"
        from delete_ctl(1) [OF this can] rest I1 Suc.prems(1)
        show "I (ctl (view w1')) \<and> wp view I
            (case e of None \<Rightarrow> iter_delete_prog M n it' | Some err \<Rightarrow> Return (Some err)) ?Q (ctl (view w1'))"
          using upd_same_ctl by (cases e) auto
      qed
    qed
  qed
qed

lemma wp_clear:
  assumes "I m"
  shows "wp view I (clear_prog M (Some P) b)
    (\<lambda>e m'. if e = None then m' = exact_flags (upd Map.empty m)
       else \<exists>c. c \<subseteq>\<^sub>m get m \<and> m' = upd c m) m"
  unfolding clear_prog_def
proof (intro wp_andthen wp_reading assms)
  fix w assume "ctl (view w) = m"
  have "\<And>k. cursor (m_iterate M w) = Some k \<Longrightarrow> get m k = None" by (simp add: T.iterate_start)
  from wp_iter_delete [OF assms this, where n = "m_max_entries M + 2"]
  show "wp view I (iter_delete_prog M (m_max_entries M + 2) (m_iterate M w))
     (\<lambda>e. wp view I (case e of None \<Rightarrow> sync_prog M (Some P) b | Some err \<Rightarrow> Return (Some err))
       (\<lambda>e m'. if e = None then m' = exact_flags (upd Map.empty m)
          else \<exists>c. c \<subseteq>\<^sub>m get m \<and> m' = upd c m)) m"
  proof (rule wp_mono)
    fix e :: "map_err option" and m1
    assume I: "I m1" and c: "\<exists>c. c \<subseteq>\<^sub>m get m \<and> m1 = upd c m \<and> (e = None \<longrightarrow> c = Map.empty)"
    show "wp view I (case e of None \<Rightarrow> sync_prog M (Some P) b | Some err \<Rightarrow> Return (Some err))
       (\<lambda>e m'. if e = None then m' = exact_flags (upd Map.empty m)
          else \<exists>c. c \<subseteq>\<^sub>m get m \<and> m' = upd c m) m1"
    proof (cases e)
      case None
      with c have m1: "m1 = upd Map.empty m" by auto
      show ?thesis
        unfolding None option.case
        by (rule wp_mono [OF wp_sync [OF I]]) (auto simp: m1 intro: exI [of _ Map.empty])
    next
      case (Some err)
      with I c show ?thesis by auto
    qed
  qed
qed

end

end
