(* ===== verification/Concurrent.thy ===== *)
theory Concurrent
  imports Interleave System
begin

text \<open>
  The running daemon call by call: the request the server is handling (one at a time, under its
  mutex), the reaper's tick, and packets, interleaved at every single map call (\<open>micro_step\<close>). The
  request programs are the methods of the facade and the managers over the table programs of
  \<open>Interleave\<close>; run alone they are \<open>Server_handle\<close>. What a
  listing shows among packets is the subject of \<open>History\<close> and \<open>Listing\<close>.
\<close>

section \<open>The writing methods as programs\<close>

definition mapped :: "('a \<Rightarrow> 'b) \<Rightarrow> ('w, 'a) prog \<Rightarrow> ('w, 'b) prog" where
  "mapped h p = andthen p (\<lambda>r. Return (h r))"

lemma run_mapped [simp]: "run (mapped h p) w = map_prod id h (run p w)"
  by (simp add: mapped_def split: prod.split)

definition block_ip_prog ::
    "('w, 'i, 'l) Firewall \<Rightarrow> string \<Rightarrow> u32 \<Rightarrow> u32 \<Rightarrow> ('w, fw_error option) prog" where
  "block_ip_prog fw s a p =
     (case rule_key s of
        Inl err \<Rightarrow> Return (Some err)
      | Inr k \<Rightarrow> mapped (map_option MapError)
          (insert_prog (mm_blockedIps (fw_mgr fw)) (mm_presence (fw_mgr fw)) rulePresenceIP k
             \<lparr>rv_Action = a, rv_Priority = p\<rparr>))"

definition unblock_ip_prog :: "('w, 'i, 'l) Firewall \<Rightarrow> string \<Rightarrow> ('w, fw_error option) prog" where
  "unblock_ip_prog fw s =
     (case rule_key s of
        Inl err \<Rightarrow> Return (Some err)
      | Inr k \<Rightarrow> mapped (map_option MapError)
          (remove_prog (mm_blockedIps (fw_mgr fw)) (mm_presence (fw_mgr fw)) rulePresenceIP k))"

definition clear_ip_prog :: "('w, 'i, 'l) Firewall \<Rightarrow> ('w, fw_error option) prog" where
  "clear_ip_prog fw =
     mapped (map_option MapError)
       (clear_prog (mm_blockedIps (fw_mgr fw)) (mm_presence (fw_mgr fw)) rulePresenceIP)"

definition block_port_prog ::
    "('w, 'i, 'l) Firewall \<Rightarrow> string \<Rightarrow> string \<Rightarrow> u16 \<Rightarrow> u16 \<Rightarrow> u32 \<Rightarrow> u32 \<Rightarrow> ('w, fw_error option) prog"
where
  "block_port_prog fw dst proto dport sport a p =
     (case port_key dst proto dport sport of
        Inl err \<Rightarrow> Return (Some err)
      | Inr k \<Rightarrow> mapped (map_option MapError)
          (insert_prog (pp_portPolicy (fw_portPolicyMgr fw)) (pp_presence (fw_portPolicyMgr fw))
             rulePresencePort k \<lparr>rv_Action = a, rv_Priority = p\<rparr>))"

definition unblock_port_prog ::
    "('w, 'i, 'l) Firewall \<Rightarrow> string \<Rightarrow> string \<Rightarrow> u16 \<Rightarrow> u16 \<Rightarrow> ('w, fw_error option) prog" where
  "unblock_port_prog fw dst proto dport sport =
     (case port_key dst proto dport sport of
        Inl err \<Rightarrow> Return (Some err)
      | Inr k \<Rightarrow> mapped (map_option MapError)
          (remove_prog (pp_portPolicy (fw_portPolicyMgr fw)) (pp_presence (fw_portPolicyMgr fw))
             rulePresencePort k))"

definition clear_port_prog :: "('w, 'i, 'l) Firewall \<Rightarrow> ('w, fw_error option) prog" where
  "clear_port_prog fw =
     mapped (map_option MapError)
       (clear_prog (pp_portPolicy (fw_portPolicyMgr fw)) (pp_presence (fw_portPolicyMgr fw))
          rulePresencePort)"

definition clear_ct_prog :: "('w, 'i, 'l) Firewall \<Rightarrow> ('w, fw_error option) prog" where
  "clear_ct_prog fw =
     andthen (scan_prog (ct_conntrack (fw_ctMgr fw))) (\<lambda>(es, e).
       case e of
         Some err \<Rightarrow> Return (Some (MapError err))
       | None \<Rightarrow> mapped (\<lambda>(n, e). map_option MapError e)
           (delete_prog (ct_conntrack (fw_ctMgr fw)) (map fst es)))"

definition reap_prog :: "('w, 'i, 'l) Firewall \<Rightarrow> u64 \<Rightarrow> ('w, nat \<times> fw_error option) prog" where
  "reap_prog fw idle =
     andthen (reading (monotonicNanos (ct_clock (fw_ctMgr fw)))) (\<lambda>r.
       case r of
         Inl err \<Rightarrow> Return (0, Some err)
       | Inr nowNs \<Rightarrow>
           andthen (scan_prog (ct_conntrack (fw_ctMgr fw))) (\<lambda>(es, e).
             case e of
               Some err \<Rightarrow> Return (0, Some (MapError err))
             | None \<Rightarrow> mapped (\<lambda>(n, e). (n, map_option MapError e))
                 (delete_prog (ct_conntrack (fw_ctMgr fw))
                    (map fst (filter (\<lambda>(key, value). reap_stale idle nowNs value) es)))))"

definition set_default_prog :: "('w, 'i, 'l) Firewall \<Rightarrow> string \<Rightarrow> ('w, fw_error option) prog" where
  "set_default_prog fw s =
     (case ParseDefaultPolicy s of
        Inl err \<Rightarrow> Return (Some err)
      | Inr policy \<Rightarrow>
          mapped (map_option (Wrapped ''setting default policy''))
            (call (ConfigManager_SetDefaultPolicy (fw_configMgr fw) policy)))"

text \<open>\<open>Server.handle\<close> with the facade inlined.\<close>

definition reply_of :: "fw_error option \<Rightarrow> Response" where
  "reply_of e = (case e of None \<Rightarrow> okResponse | Some err \<Rightarrow> errResponse err)"

definition wrapping :: "string \<Rightarrow> ('w, fw_error option) prog \<Rightarrow> ('w, fw_error option) prog" where
  "wrapping msg p = mapped (map_option (Wrapped msg)) p"

definition block_prog :: "('w, 'i, 'l) Firewall \<Rightarrow> Request \<Rightarrow> ('w, fw_error option) prog" where
  "block_prog fw req =
     (if rq_Protocol req \<noteq> '''' \<or> rq_Port req \<noteq> 0 \<or> rq_SPort req \<noteq> 0 then
        (if rq_Action req \<noteq> '''' then
           (case ParseAction (rq_Action req) of
              Inl err \<Rightarrow> Return (Some err)
            | Inr a \<Rightarrow> wrapping ''adding port rule''
                (block_port_prog fw (rq_Value req) (rq_Protocol req) (rq_Port req) (rq_SPort req) a
                   (rq_Priority req)))
         else wrapping ''blocking port rule''
           (block_port_prog fw (rq_Value req) (rq_Protocol req) (rq_Port req) (rq_SPort req) ActionDrop 0))
      else if rq_Action req \<noteq> '''' then
        (case ParseAction (rq_Action req) of
           Inl err \<Rightarrow> Return (Some err)
         | Inr a \<Rightarrow> wrapping ''adding'' (block_ip_prog fw (rq_Value req) a (rq_Priority req)))
      else wrapping ''blocking'' (block_ip_prog fw (rq_Value req) ActionDrop 0))"

definition unblock_prog :: "('w, 'i, 'l) Firewall \<Rightarrow> Request \<Rightarrow> ('w, fw_error option) prog" where
  "unblock_prog fw req =
     (if rq_Protocol req \<noteq> '''' \<or> rq_Port req \<noteq> 0 \<or> rq_SPort req \<noteq> 0 then
        wrapping ''unblocking port rule''
          (unblock_port_prog fw (rq_Value req) (rq_Protocol req) (rq_Port req) (rq_SPort req))
      else wrapping ''unblocking'' (unblock_ip_prog fw (rq_Value req)))"

definition clear_all_prog :: "('w, 'i, 'l) Firewall \<Rightarrow> ('w, fw_error option) prog" where
  "clear_all_prog fw =
     andthen (clear_ip_prog fw) (\<lambda>e.
       case e of
         Some err \<Rightarrow> Return (Some err)
       | None \<Rightarrow> andthen (clear_port_prog fw) (\<lambda>e.
           case e of Some err \<Rightarrow> Return (Some err) | None \<Rightarrow> clear_ct_prog fw))"

text \<open>The commands that only read, lookup by lookup and entry by entry.\<close>

definition scanned ::
    "(('k \<times> 'v) list \<Rightarrow> 'r) \<Rightarrow> ('w, 'i, 'k, 'v) bpf_handle \<Rightarrow> ('w, fw_error + 'r) prog" where
  "scanned g M =
     mapped (\<lambda>(es, e). case e of Some err \<Rightarrow> Inl (MapError err) | None \<Rightarrow> Inr (g es)) (scan_prog M)"

definition list_rules_prog :: "('w, 'i, 'l) Firewall \<Rightarrow> ('w, fw_error + BlockedRule slice) prog" where
  "list_rules_prog fw = scanned (\<lambda>es. append_all (map blockedRuleOf es)) (mm_blockedIps (fw_mgr fw))"

definition list_ports_prog :: "('w, 'i, 'l) Firewall \<Rightarrow> ('w, fw_error + PortRule slice) prog" where
  "list_ports_prog fw = scanned (\<lambda>es. Some (map portRuleOf es)) (pp_portPolicy (fw_portPolicyMgr fw))"

definition list_ct_prog :: "('w, 'i, 'l) Firewall \<Rightarrow> ('w, fw_error + ConntrackEntry slice) prog" where
  "list_ct_prog fw =
     andthen (reading (monotonicNanos (ct_clock (fw_ctMgr fw)))) (\<lambda>r.
       case r of
         Inl err \<Rightarrow> Return (Inl err)
       | Inr nowNs \<Rightarrow> scanned (\<lambda>es. Some (map (\<lambda>(key, value). ctEntry key value nowNs) es))
           (ct_conntrack (fw_ctMgr fw)))"

fun slots_prog ::
    "('w, 'i) CounterManager \<Rightarrow> nat \<Rightarrow> u32 \<Rightarrow> Stats \<Rightarrow> ('w, fw_error + Stats) prog" where
  "slots_prog cm 0 i stats = Return (Inr stats)"
| "slots_prog cm (Suc n) i stats =
     andthen (reading (\<lambda>w. m_lookup (cm_counters cm) w i)) (\<lambda>r.
       case r of
         Inl err \<Rightarrow>
           if errors_Is err ErrKeyNotExist then slots_prog cm n (i + 1) stats
           else Return (Inl (MapError err))
       | Inr val \<Rightarrow> slots_prog cm n (i + 1) (store_slot i val stats))"

definition status_prog :: "('w, 'n) Server \<Rightarrow> ('w, 'i, 'l) Firewall \<Rightarrow> ('w, Response) prog" where
  "status_prog srv fw =
     andthen (list_rules_prog fw) (\<lambda>r.
       case r of
         Inl err \<Rightarrow> Return (errResponse err)
       | Inr rules \<Rightarrow> mapped (\<lambda>d.
           case d of
             Inl err \<Rightarrow> errResponse err
           | Inr def \<Rightarrow> okResponse\<lparr>rs_Iface := Firewall_Interface fw, rs_Attached := sv_live srv,
               rs_Count := int (slice_len rules), rs_Default := def,
               rs_AttachMode := Firewall_AttachMode fw\<rparr>) (reading (Firewall_DefaultPolicy fw)))"

definition replying :: "('r \<Rightarrow> Response) \<Rightarrow> fw_error + 'r \<Rightarrow> Response" where
  "replying g x = (case x of Inl err \<Rightarrow> errResponse err | Inr r \<Rightarrow> g r)"

definition handle_prog ::
    "('w, 'n) Server \<Rightarrow> ('w, 'i, 'l) Firewall \<Rightarrow> Request \<Rightarrow> ('w, Response) prog" where
  "handle_prog srv fw req =
     (let c = rq_Command req in
      if c = CmdBlock then mapped reply_of (block_prog fw req)
      else if c = CmdUnblock then mapped reply_of (unblock_prog fw req)
      else if c = CmdList then
        mapped (replying (\<lambda>rules.
          let blocked = map br_Cidr (slice_list rules)
          in okResponse\<lparr>rs_Blocked := Some blocked, rs_BlockedRules := rules, rs_Count := int (length blocked)\<rparr>))
          (list_rules_prog fw)
      else if c = CmdListPorts then
        mapped (replying (\<lambda>rules. okResponse\<lparr>rs_PortRules := rules, rs_Count := int (slice_len rules)\<rparr>))
          (list_ports_prog fw)
      else if c = CmdStatus then status_prog srv fw
      else if c = CmdSetDefault \<or> c = CmdDefault then mapped reply_of (set_default_prog fw (rq_Value req))
      else if c = CmdClear then mapped reply_of (clear_all_prog fw)
      else if c = CmdConntrack then
        mapped (replying (\<lambda>entries. okResponse\<lparr>rs_Conntrack := entries, rs_Count := int (slice_len entries)\<rparr>))
          (list_ct_prog fw)
      else if c = CmdStats then
        mapped (replying (\<lambda>stats. okResponse\<lparr>rs_Stats := Some stats\<rparr>))
          (slots_prog (fw_counterMgr fw) counterMax 0 zeroStats)
      else Return (errResponse (UnknownCommand c)))"

section \<open>Alone, the programs are the methods\<close>

lemma run_ip_progs:
  "run (block_ip_prog fw s a p) w = MapManager_BlockIPWithActionPriority (fw_mgr fw) s a p w"
  "run (unblock_ip_prog fw s) w = MapManager_UnblockIP (fw_mgr fw) s w"
  "run (clear_ip_prog fw) w = MapManager_Clear (fw_mgr fw) w"
  by (simp_all add: block_ip_prog_def unblock_ip_prog_def clear_ip_prog_def MapManager_Block_eq
      MapManager_Unblock_eq MapManager_Clear_eq run_table split: sum.split)

lemma run_port_progs:
  "run (block_port_prog fw dst proto dport sport a p) w =
     PortPolicyManager_BlockWithActionPriority (fw_portPolicyMgr fw) dst proto dport sport a p w"
  "run (unblock_port_prog fw dst proto dport sport) w =
     PortPolicyManager_UnblockWithAction (fw_portPolicyMgr fw) dst proto dport sport w"
  "run (clear_port_prog fw) w = PortPolicyManager_Clear (fw_portPolicyMgr fw) w"
  by (simp_all add: block_port_prog_def unblock_port_prog_def clear_port_prog_def
      PortPolicyManager_Block_eq PortPolicyManager_Unblock_eq PortPolicyManager_Clear_eq run_table
      split: sum.split)

lemma run_ct_progs:
  "run (clear_ct_prog fw) w = ConntrackManager_Clear (fw_ctMgr fw) w"
  "run (reap_prog fw idle) w = ConntrackManager_Reap (fw_ctMgr fw) idle w"
  by (simp_all add: clear_ct_prog_def reap_prog_def ConntrackManager_Clear_def
      ConntrackManager_keys_def ConntrackManager_Reap_def run_table Let_def
      split: prod.split option.split sum.split)

lemma run_set_default: "run (set_default_prog fw s) w = Firewall_SetDefaultPolicy fw s w"
  by (simp add: set_default_prog_def Firewall_SetDefaultPolicy_def wrap_err_def map_prod_def
      split: sum.split prod.split)

lemmas run_progs = run_ip_progs run_port_progs run_ct_progs run_set_default

lemma run_scanned:
  "run (scanned g M) w =
     (w, case iterate_all M w of (es, Some err) \<Rightarrow> Inl (MapError err) | (es, None) \<Rightarrow> Inr (g es))"
  by (simp add: scanned_def run_scan split: prod.split option.split)

lemma run_list_progs:
  "run (list_rules_prog fw) w = (w, MapManager_ListBlockedRules (fw_mgr fw) w)"
  "run (list_ports_prog fw) w = (w, PortPolicyManager_List (fw_portPolicyMgr fw) w)"
  "run (list_ct_prog fw) w = (w, ConntrackManager_List (fw_ctMgr fw) w)"
  by (simp_all add: list_rules_prog_def list_ports_prog_def list_ct_prog_def run_scanned
      MapManager_ListBlockedRules_def PortPolicyManager_List_def ConntrackManager_List_def
      split: sum.split)

lemma run_slots: "run (slots_prog cm n i s) w = (w, read_slots cm w n i s)"
  by (induction n arbitrary: i s) (simp_all split: sum.split)

lemma run_status:
  "sv_policy srv = firewall_policy fw \<Longrightarrow> run (status_prog srv fw) w = handle_status srv w"
  by (simp add: status_prog_def handle_status_def run_list_progs Firewall_ListBlockedIPs_def
      MapManager_ListBlockedIPs_def slice_len_def slice_list_def split: sum.split option.split)

lemma run_reply [simp]: "map_prod id reply_of x = reply_unit x"
  by (simp add: reply_unit_def reply_of_def map_prod_def split: prod.split option.split)

lemma run_wrapping: "run (wrapping msg p) w = wrap_err msg (run p w)"
  by (simp add: wrapping_def wrap_err_def map_prod_def split: prod.split)

lemma run_write_handlers:
  "run (mapped reply_of (block_prog fw req)) w = handle_block (firewall_policy fw) req w"
  "run (mapped reply_of (unblock_prog fw req)) w = handle_unblock (firewall_policy fw) req w"
  "run (mapped reply_of (set_default_prog fw s)) w =
     reply_unit (p_SetDefaultPolicy (firewall_policy fw) s w)"
  by (simp_all add: block_prog_def handle_block_def unblock_prog_def handle_unblock_def run_wrapping
      run_progs Firewall_BlockIP_def Firewall_BlockIPWithActionPriority_def Firewall_BlockPortRule_def
      Firewall_BlockPortRuleWithActionPriority_def MapManager_BlockIP_def
      MapManager_BlockIPWithAction_def defaultBlockAction_def PortPolicyManager_BlockWithAction_def
      Firewall_UnblockIP_def Firewall_UnblockPortRule_def split: sum.split)

lemma run_clear_handler:
  "run (mapped reply_of (clear_all_prog fw)) w = handle_clear (firewall_policy fw) w"
  by (simp add: clear_all_prog_def handle_clear_def run_progs reply_unit_def
      Firewall_Clear_def Firewall_ClearPortRules_def Firewall_ClearConntrack_def
      split: prod.split option.split)

lemma run_replying:
  "run p w = (w, x) \<Longrightarrow> run (mapped (replying g) p) w =
     (w, case x of Inl err \<Rightarrow> errResponse err | Inr r \<Rightarrow> g r)"
  by (simp add: replying_def)

lemma run_if: "run (if c then p else q) w = (if c then run p w else run q w)"
  by simp

lemma run_handle:
  assumes "sv_policy srv = firewall_policy fw"
  shows "run (handle_prog srv fw req) w = Server_handle srv req w"
  unfolding handle_prog_def Server_handle_def Let_def assms run_if
  by (intro if_cong refl)
    (simp_all del: run_mapped add: run_write_handlers run_clear_handler run_status [OF assms] run_replying [OF run_list_progs(1)]
      run_replying [OF run_list_progs(2)] run_replying [OF run_list_progs(3)] run_replying [OF run_slots]
      handle_list_def handle_listports_def handle_conntrack_def handle_stats_def
      Firewall_ListBlockedRules_def Firewall_ListPortRules_def Firewall_ListConntrack_def
      Firewall_Stats_def CounterManager_GetCounters_def Let_def split: sum.split)

section \<open>Among packets\<close>

lemma framed_mapped: "framed view p \<Longrightarrow> framed view (mapped h p)"
  by (simp add: mapped_def framed_andthen)

lemma wp_mapped: "wp view I p (\<lambda>r. Q (h r)) m \<Longrightarrow> wp view I (mapped h p) Q m"
  by (auto simp: mapped_def intro!: wp_andthen elim!: wp_mono dest: wp_inv)

lemma framed_iter: "framed view (iter_prog M n it)"
  by (induction n arbitrary: it)
    (auto intro!: framed_andthen framed_reading split: next_result.split)

lemma framed_scan: "framed view (scan_prog M)"
  unfolding scan_prog_def by (intro framed_andthen framed_reading framed_iter)

lemma framed_scanned: "framed view (scanned g M)"
  by (simp add: scanned_def framed_mapped framed_scan)

lemma framed_slots: "framed view (slots_prog cm n i s)"
  by (induction n arbitrary: i s) (auto intro!: framed_andthen split: sum.split)

lemma framed_delete:
  "(\<And>w w' k e. m_delete M w k = (w', e) \<Longrightarrow> ctl (view w') = ctl (view w)) \<Longrightarrow>
     framed view (delete_prog M ks)"
  by (induction ks) (auto intro!: framed_andthen framed_call split: option.split)

lemma framed_reads:
  "framed view (list_rules_prog fw)" "framed view (list_ports_prog fw)" "framed view (list_ct_prog fw)"
  "framed view (status_prog srv fw)"
  by (auto simp: list_rules_prog_def list_ports_prog_def list_ct_prog_def status_prog_def
      intro!: framed_andthen framed_scanned framed_mapped split: sum.split)

sublocale firewall_env \<subseteq> mip: micro_table "gh_view G" blocked_ips "\<lambda>c m. m\<lparr>blocked_ips := c\<rparr>" "gh_lpm G"
    canon_key lpm_fits "gh_cur_ip G" "mm_blockedIps (fw_mgr fw)" "gh_cur_idx G" "fw_presence fw"
    rulePresenceIP maps_ok canon_key rule_ok
proof unfold_locales
  fix m k v
  assume "maps_ok m" "bit_set rulePresenceIP m" "canon_key k" "rule_ok v"
  then show "maps_ok (m\<lparr>blocked_ips := (blocked_ips m)(k \<mapsto> v)\<rparr>)"
    by (auto simp: maps_ok_def presence_ok_def split: if_splits)
next
  fix m
  assume "maps_ok m" "blocked_ips m = Map.empty"
  then show "maps_ok (set_flags (presence_flags m AND NOT rulePresenceIP) m)"
    using maps_ok_sync_ip [of m] by (simp add: sync_ip_def sync_flags_def)
qed (auto intro: table_intro dest: bspec [OF maps_ok_canon])

sublocale firewall_env \<subseteq> mport: micro_table "gh_view G" port_policy "\<lambda>c m. m\<lparr>port_policy := c\<rparr>" "\<lambda>c k. c k"
    "\<lambda>_. True" "\<lambda>_. True" "gh_cur_port G" "pp_portPolicy (fw_portPolicyMgr fw)" "gh_cur_idx G"
    "fw_presence fw" rulePresencePort maps_ok port_key_ok rule_ok
proof unfold_locales
  fix m k v
  assume "maps_ok m" "bit_set rulePresencePort m" "port_key_ok k" "rule_ok v"
  then show "maps_ok (m\<lparr>port_policy := (port_policy m)(k \<mapsto> v)\<rparr>)"
    by (auto simp: maps_ok_def presence_ok_def split: if_splits)
next
  fix m
  assume "maps_ok m" "port_policy m = Map.empty"
  then show "maps_ok (set_flags (presence_flags m AND NOT rulePresencePort) m)"
    using maps_ok_sync_port [of m] by (simp add: sync_port_def sync_flags_def)
qed (auto intro: table_intro)

text \<open>What a request that is granted does to the control part of the maps.\<close>

definition port_request :: "Request \<Rightarrow> bool" where
  "port_request req \<longleftrightarrow> rq_Protocol req \<noteq> '''' \<or> rq_Port req \<noteq> 0 \<or> rq_SPort req \<noteq> 0"

definition request_port_key :: "Request \<Rightarrow> fw_error + firewallPortRuleKey" where
  "request_port_key req = port_key (rq_Value req) (rq_Protocol req) (rq_Port req) (rq_SPort req)"

definition carries_out :: "fw_error + ruleValue \<Rightarrow> Request \<Rightarrow> fw_maps \<Rightarrow> fw_maps \<Rightarrow> bool" where
  "carries_out rule req m m' \<longleftrightarrow>
     (let c = rq_Command req in
      if c = CmdBlock then
        (\<exists>v. rule = Inr v \<and>
          (if port_request req then \<exists>k. request_port_key req = Inr k \<and> m' = port_inserted k v m
           else \<exists>k. rule_key (rq_Value req) = Inr k \<and> canon_key k \<and> m' = ip_inserted k v m))
      else if c = CmdUnblock then
        (if port_request req then
           \<exists>k. request_port_key req = Inr k \<and> k \<in> dom (port_policy m) \<and> m' = port_removed k m
         else \<exists>k. rule_key (rq_Value req) = Inr k \<and> k \<in> dom (blocked_ips m) \<and> m' = ip_removed k m)
      else if c = CmdClear then
        m' = sync_port ((sync_ip (m\<lparr>blocked_ips := Map.empty\<rparr>))\<lparr>port_policy := Map.empty\<rparr>)
      else if c = CmdSetDefault \<or> c = CmdDefault then
        (\<exists>p. ParseDefaultPolicy (rq_Value req) = Inr p \<and>
          m' = m\<lparr>firewall_config := (firewall_config m)(configKey \<mapsto> p)\<rparr>)
      else m' = m)"

text \<open>What the code does, and what the request asks for. They are the same but for one kind of request: a block
  that carries a priority and no action is stored at priority 0.\<close>

definition request_done :: "Request \<Rightarrow> fw_maps \<Rightarrow> fw_maps \<Rightarrow> bool" where
  "request_done req = carries_out (granted_rule req) req"

definition asked_rule :: "Request \<Rightarrow> fw_error + ruleValue" where
  "asked_rule req =
     (case (if rq_Action req = '''' then Inr ActionDrop else ParseAction (rq_Action req)) of
        Inl err \<Rightarrow> Inl err
      | Inr a \<Rightarrow> Inr \<lparr>rv_Action = a, rv_Priority = rq_Priority req\<rparr>)"

definition request_asked :: "Request \<Rightarrow> fw_maps \<Rightarrow> fw_maps \<Rightarrow> bool" where
  "request_asked req = carries_out (asked_rule req) req"

definition priority_lost :: "Request \<Rightarrow> bool" where
  "priority_lost req \<longleftrightarrow> rq_Command req = CmdBlock \<and> rq_Action req = '''' \<and> rq_Priority req \<noteq> 0"

lemmas request_done_def' = request_done_def carries_out_def

lemma inserted_inj:
  "ip_inserted k v m = ip_inserted k v' m \<longleftrightarrow> v = v'" "port_inserted k' v m = port_inserted k' v' m \<longleftrightarrow> v = v'"
proof -
  have "blocked_ips (ip_inserted k v m) k = Some v" "port_policy (port_inserted k' v m) k' = Some v" for v
    by (simp_all add: ip_inserted_def port_inserted_def)
  then show "ip_inserted k v m = ip_inserted k v' m \<longleftrightarrow> v = v'" "port_inserted k' v m = port_inserted k' v' m \<longleftrightarrow> v = v'"
    by (metis option.inject)+
qed

lemma asked_granted: "\<not> priority_lost req \<Longrightarrow> rq_Command req = CmdBlock \<Longrightarrow> asked_rule req = granted_rule req"
  by (auto simp: asked_rule_def granted_rule_def priority_lost_def split: sum.split)

lemma request_done_asked:
  assumes "request_done req m m'"
  shows "request_asked req m m' \<longleftrightarrow> \<not> priority_lost req"
proof (cases "priority_lost req")
  case True
  then have "granted_rule req = Inr \<lparr>rv_Action = ActionDrop, rv_Priority = 0\<rparr>"
      "asked_rule req = Inr \<lparr>rv_Action = ActionDrop, rv_Priority = rq_Priority req\<rparr>"
      "rq_Command req = CmdBlock" "rq_Priority req \<noteq> 0"
    by (simp_all add: priority_lost_def granted_rule_def asked_rule_def)
  with True assms show ?thesis
    by (auto simp: request_done_def request_asked_def carries_out_def inserted_inj split: if_splits)
next
  case False
  with assms asked_granted [OF False] show ?thesis
    by (cases "rq_Command req = CmdBlock") (simp_all add: request_done_def request_asked_def carries_out_def Let_def)
qed

context firewall_env
begin

abbreviation awp :: "('w, 'r) prog \<Rightarrow> ('r \<Rightarrow> fw_maps \<Rightarrow> bool) \<Rightarrow> fw_maps \<Rightarrow> bool" where
  "awp \<equiv> wp (gh_view G) maps_ok"

lemma awp_block_ip:
  assumes "maps_ok m" "rule_ok \<lparr>rv_Action = a, rv_Priority = p\<rparr>"
  shows "awp (block_ip_prog fw s a p)
    (\<lambda>e m'. case e of
       None \<Rightarrow> \<exists>k. rule_key s = Inr k \<and> canon_key k \<and> m' = ip_inserted k \<lparr>rv_Action = a, rv_Priority = p\<rparr> m
     | Some err \<Rightarrow> mgr_step m m') m"
proof (cases "rule_key s")
  case (Inl err)
  with assms show ?thesis by (simp add: block_ip_prog_def mgr_step.keep)
next
  case (Inr k)
  then have k: "canon_key k \<or> \<not> lpm_fits k" using rule_key_cases [of s] by simp
  show ?thesis
    unfolding block_ip_prog_def Inr sum.case B.presence_attached
    by (intro wp_mapped wp_mono [OF mip.wp_insert [OF assms(1) k assms(2)]])
      (auto simp: ip_inserted_def intro: mgr_step.intros split: option.split if_splits)
qed

lemma awp_unblock_ip:
  assumes "maps_ok m"
  shows "awp (unblock_ip_prog fw s)
    (\<lambda>e m'. case e of
       None \<Rightarrow> \<exists>k. rule_key s = Inr k \<and> k \<in> dom (blocked_ips m) \<and> m' = ip_removed k m
     | Some err \<Rightarrow> mgr_step m m') m"
proof (cases "rule_key s")
  case (Inl err)
  with assms show ?thesis by (simp add: unblock_ip_prog_def mgr_step.keep)
next
  case (Inr k)
  then have k: "canon_key k \<or> \<not> lpm_fits k" using rule_key_cases [of s] by simp
  show ?thesis
    unfolding unblock_ip_prog_def Inr sum.case B.presence_attached
    by (intro wp_mapped wp_mono [OF mip.wp_remove [OF assms k]])
      (auto simp: ip_removed_def B.exact_flags_ip intro: mgr_step_intros split: option.split if_splits)
qed

lemma awp_clear_ip:
  assumes "maps_ok m"
  shows "awp (clear_ip_prog fw)
    (\<lambda>e m'. case e of
       None \<Rightarrow> m' = sync_ip (m\<lparr>blocked_ips := Map.empty\<rparr>)
     | Some err \<Rightarrow> mgr_step m m') m"
  unfolding clear_ip_prog_def B.presence_attached
  by (intro wp_mapped wp_mono [OF mip.wp_clear [OF assms]])
    (auto simp: B.exact_flags_ip intro: mgr_step.intros split: option.split if_splits)

lemma awp_block_port:
  assumes "maps_ok m" "rule_ok \<lparr>rv_Action = a, rv_Priority = p\<rparr>"
  shows "awp (block_port_prog fw dst proto dport sport a p)
    (\<lambda>e m'. case e of
       None \<Rightarrow> \<exists>k. port_key dst proto dport sport = Inr k \<and>
         m' = port_inserted k \<lparr>rv_Action = a, rv_Priority = p\<rparr> m
     | Some err \<Rightarrow> mgr_step m m') m"
proof (cases "port_key dst proto dport sport")
  case (Inl err)
  with assms show ?thesis by (simp add: block_port_prog_def mgr_step.keep)
next
  case (Inr k)
  show ?thesis
    unfolding block_port_prog_def Inr sum.case Po.presence_attached
    by (intro wp_mapped wp_mono [OF mport.wp_insert [OF assms(1) _ assms(2) port_key_proto [OF Inr]]])
      (auto simp: port_inserted_def intro: mgr_step.intros split: option.split if_splits)
qed

lemma awp_unblock_port:
  assumes "maps_ok m"
  shows "awp (unblock_port_prog fw dst proto dport sport)
    (\<lambda>e m'. case e of
       None \<Rightarrow> \<exists>k. port_key dst proto dport sport = Inr k \<and> k \<in> dom (port_policy m) \<and> m' = port_removed k m
     | Some err \<Rightarrow> mgr_step m m') m"
proof (cases "port_key dst proto dport sport")
  case (Inl err)
  with assms show ?thesis by (simp add: unblock_port_prog_def mgr_step.keep)
next
  case (Inr k)
  show ?thesis
    unfolding unblock_port_prog_def Inr sum.case Po.presence_attached
    by (intro wp_mapped wp_mono [OF mport.wp_remove [OF assms]])
      (auto simp: port_removed_def Po.exact_flags_port intro: mgr_step_intros split: option.split if_splits)
qed

lemma awp_clear_port:
  assumes "maps_ok m"
  shows "awp (clear_port_prog fw)
    (\<lambda>e m'. case e of
       None \<Rightarrow> m' = sync_port (m\<lparr>port_policy := Map.empty\<rparr>)
     | Some err \<Rightarrow> mgr_step m m') m"
  unfolding clear_port_prog_def Po.presence_attached
  by (intro wp_mapped wp_mono [OF mport.wp_clear [OF assms]])
    (auto simp: Po.exact_flags_port intro: mgr_step.intros split: option.split if_splits)

lemma awp_set_default:
  assumes "maps_ok m"
  shows "awp (set_default_prog fw s)
    (\<lambda>e m'. case e of
       None \<Rightarrow> \<exists>p. ParseDefaultPolicy s = Inr p \<and>
         m' = m\<lparr>firewall_config := (firewall_config m)(configKey \<mapsto> p)\<rparr>
     | Some err \<Rightarrow> mgr_step m m') m"
proof (cases "ParseDefaultPolicy s")
  case (Inl err)
  with assms show ?thesis by (simp add: set_default_prog_def mgr_step.keep)
next
  case (Inr p)
  then have p: "maps_ok (m\<lparr>firewall_config := (firewall_config m)(configKey \<mapsto> p)\<rparr>)"
    using assms ParseDefaultPolicy_cases by (blast intro: table_intro)
  have post: "maps_ok (ctl (gh_view G w')) \<and> (case map_option msg e of
        None \<Rightarrow> \<exists>p. ParseDefaultPolicy s = Inr p \<and>
          ctl (gh_view G w') = m\<lparr>firewall_config := (firewall_config m)(configKey \<mapsto> p)\<rparr>
      | Some err \<Rightarrow> mgr_step m (ctl (gh_view G w')))"
    if "ctl (gh_view G w) = m" "ConfigManager_SetDefaultPolicy (fw_configMgr fw) p w = (w', e)"
    for w w' e and msg :: "fw_error \<Rightarrow> fw_error"
  proof -
    have "ctl (gh_view G w') =
        (if e = None then m\<lparr>firewall_config := (firewall_config m)(configKey \<mapsto> p)\<rparr> else m)"
      using Cf.SetDefaultPolicy_effect [OF that(2)] that(1) by auto
    with Inr p assms show ?thesis by (cases e) (simp_all add: mgr_step.keep)
  qed
  show ?thesis
    unfolding set_default_prog_def Inr sum.case
    by (intro wp_mapped wp_call assms post [unfolded Inr])
qed

lemma ct_delete_ctl: "m_delete (ct_conntrack (fw_ctMgr fw)) w k = (w', e) \<Longrightarrow> ctl (gh_view G w') = ctl (gh_view G w)"
  using Ct.T.delete_ok [of w k w'] Ct.T.delete_err [of w k w'] by (cases e) auto

lemma framed_ct:
  "framed (gh_view G) (clear_ct_prog fw)" "framed (gh_view G) (reap_prog fw idle)"
  by (auto simp: clear_ct_prog_def reap_prog_def intro!: framed_andthen framed_scan framed_mapped
      framed_delete ct_delete_ctl split: option.split sum.split)

text \<open>The whole request: whatever happens it is a sequence of abstract steps, and when it answers OK it
  has done what was asked.\<close>

lemma granted_rule_ok: "granted_rule req = Inr v \<Longrightarrow> rule_ok v"
  by (auto simp: granted_rule_def rule_ok_drop rule_ok_parsed split: if_splits sum.splits)

lemma request_done_step:
  "request_done req m m' \<Longrightarrow> rq_Command req \<noteq> CmdClear \<Longrightarrow> mgr_step m m'"
  by (auto simp: request_done_def' Let_def request_port_key_def granted_rule_ok policy_parsed
      split: if_splits intro: mgr_step_intros port_key_proto)

lemma awp_weaken:
  "awp p (\<lambda>e m'. case e of None \<Rightarrow> request_done req m m' | Some err \<Rightarrow> mgr_step m m') m \<Longrightarrow>
    rq_Command req \<noteq> CmdClear \<Longrightarrow>
    awp (mapped reply_of p) (\<lambda>r m'. mgr_step\<^sup>*\<^sup>* m m' \<and> (rs_OK r \<longrightarrow> request_done req m m')) m"
  by (rule wp_mapped, erule wp_mono)
    (auto simp: reply_of_def dest: request_done_step split: option.splits)

lemma awp_wrapping:
  "awp p (\<lambda>e m'. case e of None \<Rightarrow> Q m' | Some err \<Rightarrow> S m') m \<Longrightarrow> (\<And>m'. Q m' \<Longrightarrow> R m') \<Longrightarrow>
     awp (wrapping msg p) (\<lambda>e m'. case e of None \<Rightarrow> R m' | Some err \<Rightarrow> S m') m"
  unfolding wrapping_def by (rule wp_mapped, erule wp_mono) (auto split: option.splits)

lemma awp_block:
  assumes "maps_ok m" "rq_Command req = CmdBlock"
  shows "awp (block_prog fw req)
    (\<lambda>e m'. case e of None \<Rightarrow> request_done req m m' | Some err \<Rightarrow> mgr_step m m') m"
proof -
  have ip: "awp (wrapping msg (block_ip_prog fw (rq_Value req) a p))
      (\<lambda>e m'. case e of None \<Rightarrow> request_done req m m' | Some err \<Rightarrow> mgr_step m m') m"
    if "\<not> port_request req" "granted_rule req = Inr \<lparr>rv_Action = a, rv_Priority = p\<rparr>"
      "rule_ok \<lparr>rv_Action = a, rv_Priority = p\<rparr>" for msg a p
    by (rule awp_wrapping [OF awp_block_ip [OF assms(1) that(3)]])
      (use that assms(2) in \<open>auto simp: request_done_def' Let_def\<close>)
  have port: "awp (wrapping msg (block_port_prog fw (rq_Value req) (rq_Protocol req) (rq_Port req) (rq_SPort req) a p))
      (\<lambda>e m'. case e of None \<Rightarrow> request_done req m m' | Some err \<Rightarrow> mgr_step m m') m"
    if "port_request req" "granted_rule req = Inr \<lparr>rv_Action = a, rv_Priority = p\<rparr>"
      "rule_ok \<lparr>rv_Action = a, rv_Priority = p\<rparr>" for msg a p
    by (rule awp_wrapping [OF awp_block_port [OF assms(1) that(3)]])
      (use that assms(2) in \<open>auto simp: request_done_def' Let_def request_port_key_def\<close>)
  show ?thesis
    unfolding block_prog_def port_request_def [symmetric]
    using assms(1) ip port rule_ok_drop [of 0] rule_ok_parsed [of "rq_Action req" _ "rq_Priority req"]
    by (cases "ParseAction (rq_Action req)") (auto simp: granted_rule_def mgr_step.keep)
qed

lemma awp_unblock:
  assumes "maps_ok m" "rq_Command req = CmdUnblock"
  shows "awp (unblock_prog fw req)
    (\<lambda>e m'. case e of None \<Rightarrow> request_done req m m' | Some err \<Rightarrow> mgr_step m m') m"
  unfolding unblock_prog_def port_request_def [symmetric]
proof (cases "port_request req")
  case True
  then show "awp (if port_request req then wrapping ''unblocking port rule''
        (unblock_port_prog fw (rq_Value req) (rq_Protocol req) (rq_Port req) (rq_SPort req))
      else wrapping ''unblocking'' (unblock_ip_prog fw (rq_Value req)))
      (\<lambda>e m'. case e of None \<Rightarrow> request_done req m m' | Some err \<Rightarrow> mgr_step m m') m"
    using assms(2) by (auto simp: request_done_def' Let_def request_port_key_def cmd_defs
        intro!: awp_wrapping [OF awp_unblock_port [OF assms(1)]])
next
  case False
  then show "awp (if port_request req then wrapping ''unblocking port rule''
        (unblock_port_prog fw (rq_Value req) (rq_Protocol req) (rq_Port req) (rq_SPort req))
      else wrapping ''unblocking'' (unblock_ip_prog fw (rq_Value req)))
      (\<lambda>e m'. case e of None \<Rightarrow> request_done req m m' | Some err \<Rightarrow> mgr_step m m') m"
    using assms(2) by (auto simp: request_done_def' Let_def cmd_defs
        intro!: awp_wrapping [OF awp_unblock_ip [OF assms(1)]])
qed

lemma awp_clear_all:
  assumes "maps_ok m"
  shows "awp (clear_all_prog fw)
    (\<lambda>e m'. mgr_step\<^sup>*\<^sup>* m m' \<and> (e = None \<longrightarrow>
       m' = sync_port ((sync_ip (m\<lparr>blocked_ips := Map.empty\<rparr>))\<lparr>port_policy := Map.empty\<rparr>))) m"
  unfolding clear_all_prog_def
proof (intro wp_andthen wp_mono [OF awp_clear_ip [OF assms]])
  fix e1 :: "fw_error option" and m1
  let ?ip = "sync_ip (m\<lparr>blocked_ips := Map.empty\<rparr>)"
  let ?Q = "\<lambda>e m'. mgr_step\<^sup>*\<^sup>* m m' \<and> (e = None \<longrightarrow> m' = sync_port (?ip\<lparr>port_policy := Map.empty\<rparr>))"
  assume ok: "maps_ok m1" and m1: "case e1 of None \<Rightarrow> m1 = ?ip | Some err \<Rightarrow> mgr_step m m1"
  show "awp (case e1 of Some err \<Rightarrow> Return (Some err)
      | None \<Rightarrow> andthen (clear_port_prog fw) (\<lambda>e. case e of Some err \<Rightarrow> Return (Some err) | None \<Rightarrow> clear_ct_prog fw))
      ?Q m1"
  proof (cases e1)
    case None
    with m1 have "mgr_step m m1" "m1 = ?ip" using emptied_steps(1) [of m] by simp_all
    show ?thesis
      unfolding None option.case
    proof (intro wp_andthen wp_mono [OF awp_clear_port [OF ok]])
      fix e2 :: "fw_error option" and m2
      assume ok2: "maps_ok m2"
        and m2: "case e2 of None \<Rightarrow> m2 = sync_port (m1\<lparr>port_policy := Map.empty\<rparr>) | Some err \<Rightarrow> mgr_step m1 m2"
      then have "mgr_step m1 m2" using emptied_steps(2) [of m1] by (auto split: option.splits)
      with \<open>mgr_step m m1\<close> have "mgr_step\<^sup>*\<^sup>* m m2" by (meson rtranclp.simps)
      with ok2 m2 \<open>m1 = ?ip\<close> show "awp (case e2 of Some err \<Rightarrow> Return (Some err) | None \<Rightarrow> clear_ct_prog fw) ?Q m2"
        by (auto split: option.splits elim!: wp_mono [OF framed_wp [OF framed_ct(1)]])
    qed
  qed (use ok m1 in auto)
qed

lemma awp_handle:
  assumes "maps_ok m"
  shows "awp (handle_prog srv fw req) (\<lambda>r m'. mgr_step\<^sup>*\<^sup>* m m' \<and> (rs_OK r \<longrightarrow> request_done req m m')) m"
proof -
  let ?c = "rq_Command req"
  have reads: "framed (gh_view G) p \<Longrightarrow> ?c \<notin> write_commands \<Longrightarrow>
      awp p (\<lambda>r m'. mgr_step\<^sup>*\<^sup>* m m' \<and> (rs_OK r \<longrightarrow> request_done req m m')) m" for p
    by (erule wp_mono [OF framed_wp [where I = maps_ok, OF _ assms]])
      (auto simp: request_done_def' Let_def write_commands_def)
  show ?thesis
  proof (cases "?c \<in> write_commands")
    case False
    then have "framed (gh_view G) (handle_prog srv fw req)"
      by (auto simp: handle_prog_def Let_def write_commands_def intro!: framed_mapped framed_reads framed_slots)
    with False show ?thesis by (rule reads [rotated])
  next
    case True
    then consider "?c = CmdBlock" | "?c = CmdUnblock" | "?c = CmdClear" | "?c \<in> {CmdSetDefault, CmdDefault}"
      by (auto simp: write_commands_def)
    then show ?thesis
    proof cases
      case 1
      then have "handle_prog srv fw req = mapped reply_of (block_prog fw req)"
        by (simp add: handle_prog_def Let_def)
      with awp_weaken [OF awp_block [OF assms 1]] 1 show ?thesis by (simp add: cmd_defs)
    next
      case 2
      then have "handle_prog srv fw req = mapped reply_of (unblock_prog fw req)"
        by (simp add: handle_prog_def Let_def cmd_defs)
      with awp_weaken [OF awp_unblock [OF assms 2]] 2 show ?thesis by (simp add: cmd_defs)
    next
      case 3
      then have "handle_prog srv fw req = mapped reply_of (clear_all_prog fw)"
        by (simp add: handle_prog_def Let_def cmd_defs)
      with 3 show ?thesis
        by (auto intro!: wp_mapped wp_mono [OF awp_clear_all [OF assms]]
            simp: request_done_def' reply_of_def Let_def cmd_defs split: option.splits)
    next
      case 4
      then have "handle_prog srv fw req = mapped reply_of (set_default_prog fw (rq_Value req))"
        by (auto simp: handle_prog_def Let_def cmd_defs)
      moreover have "awp (set_default_prog fw (rq_Value req))
          (\<lambda>e m'. case e of None \<Rightarrow> request_done req m m' | Some err \<Rightarrow> mgr_step m m') m"
        by (rule wp_mono [OF awp_set_default [OF assms]])
          (use 4 in \<open>auto simp: request_done_def' Let_def cmd_defs split: option.splits\<close>)
      moreover have "rq_Command req \<noteq> CmdClear" using 4 by (auto simp: cmd_defs)
      ultimately show ?thesis using awp_weaken by simp
    qed
  qed
qed

end

end
