(* ===== verification/Micro.thy ===== *)
theory Micro
  imports Concurrent
begin

text \<open>
  The running daemon at the level of single map calls. A state (\<open>micro\<close>) is the world, the request
  the server is serving under its mutex, and the tick the conntrack reaper is in; \<open>micro_step\<close> makes
  one call of either, starts or ends one, or lets the kernel judge a packet. The invariant
  \<open>micro_ok\<close> is that the maps are well formed and that what is left of the request keeps them so;
  \<open>serving\<close> is the part of a run in which one request is served.
\<close>

section \<open>The steps\<close>

record 'w micro =
  mi_world :: 'w
  mi_request :: "('w, Response) prog option"
  mi_reaper :: "('w, nat \<times> fw_error option) prog option"

inductive micro_step ::
    "('w, 'i) fw_ghost \<Rightarrow> ('w, 'i, 'l) Firewall \<Rightarrow> ('w, 'n) Server \<Rightarrow> u64 \<Rightarrow> 'w micro \<Rightarrow> 'w micro \<Rightarrow> bool"
  for G fw srv ctTimeout where
  receive: "mi_request s = None \<Longrightarrow>
    micro_step G fw srv ctTimeout s (s\<lparr>mi_request := Some (handle_prog srv fw req)\<rparr>)"
| serve: "mi_request s = Some (Atom f k) \<Longrightarrow>
    micro_step G fw srv ctTimeout s
      (s\<lparr>mi_world := f (mi_world s), mi_request := Some (k (mi_world s))\<rparr>)"
| reply: "mi_request s = Some (Return r) \<Longrightarrow>
    micro_step G fw srv ctTimeout s (s\<lparr>mi_request := None\<rparr>)"
| tick: "mi_reaper s = None \<Longrightarrow> 0 < sint ctTimeout \<Longrightarrow>
    micro_step G fw srv ctTimeout s (s\<lparr>mi_reaper := Some (reap_prog fw ctTimeout)\<rparr>)"
| reap: "mi_reaper s = Some (Atom f k) \<Longrightarrow>
    micro_step G fw srv ctTimeout s
      (s\<lparr>mi_world := f (mi_world s), mi_reaper := Some (k (mi_world s))\<rparr>)"
| reaped: "mi_reaper s = Some (Return x) \<Longrightarrow>
    micro_step G fw srv ctTimeout s (s\<lparr>mi_reaper := None\<rparr>)"
| packet: "dp_env_ok env \<Longrightarrow> dp_lpm env = gh_lpm G \<Longrightarrow>
    gh_view G w' = fst (firewall_prog env pkt (gh_view G (mi_world s))) \<Longrightarrow>
    gh_steady G (mi_world s) w' \<Longrightarrow>
    micro_step G fw srv ctTimeout s (s\<lparr>mi_world := w'\<rparr>)"

inductive_cases micro_stepE: "micro_step G fw srv ctTimeout s s'"

definition serving ::
    "('w, 'i) fw_ghost \<Rightarrow> ('w, 'i, 'l) Firewall \<Rightarrow> ('w, 'n) Server \<Rightarrow> u64 \<Rightarrow> 'w micro \<Rightarrow> 'w micro \<Rightarrow> bool"
where
  "serving G fw srv ctTimeout s s' \<longleftrightarrow>
     micro_step G fw srv ctTimeout s s' \<and> mi_request s \<noteq> None \<and> mi_request s' \<noteq> None"

definition idle_state :: "'w \<Rightarrow> 'w micro" where
  "idle_state w = \<lparr>mi_world = w, mi_request = None, mi_reaper = None\<rparr>"

section \<open>The invariant\<close>

context firewall_env
begin

definition micro_ok :: "'w micro \<Rightarrow> bool" where
  "micro_ok s \<longleftrightarrow> maps_ok (gh_view G (mi_world s)) \<and>
     (\<forall>p. mi_request s = Some p \<longrightarrow> awp p (\<lambda>_ _. True) (ctl (gh_view G (mi_world s)))) \<and>
     (\<forall>p. mi_reaper s = Some p \<longrightarrow> framed (gh_view G) p)"

lemma micro_ok_idle: "maps_ok (gh_view G w) \<Longrightarrow> micro_ok (idle_state w)"
  by (simp add: micro_ok_def idle_state_def)

lemma packet_ctl:
  assumes "maps_ok m" "dp_env_ok env" "m' = fst (firewall_prog env pkt m)"
  shows "ctl m' = ctl m"
  using assms same_tables_prog_spec [of m env pkt]
  by (simp add: prog_refines maps_ok_presence flip: ctl_eq_iff)

text \<open>What is left of the request keeps its postcondition, whoever steps.\<close>

lemma micro_step_awp:
  assumes "micro_step G fw srv c s s'" "micro_ok s" "mi_request s = Some p" "mi_request s' = Some p'"
    "awp p Q (ctl (gh_view G (mi_world s)))"
  shows "awp p' Q (ctl (gh_view G (mi_world s')))"
  using assms
proof cases
  case (packet env w' pkt)
  then show ?thesis using packet_ctl [of "gh_view G (mi_world s)"] assms by (simp add: micro_ok_def)
qed (use assms in \<open>auto simp: micro_ok_def\<close>)

lemma micro_step_ok:
  assumes "micro_step G fw srv c s s'" "micro_ok s"
  shows "micro_ok s'"
  using assms
proof cases
  case (receive req)
  then show ?thesis
    using assms(2) awp_handle [of "ctl (gh_view G (mi_world s))" srv req]
    by (auto simp: micro_ok_def elim!: wp_mono)
next
  case (serve f k)
  with assms(2) have *: "awp (k (mi_world s)) (\<lambda>_ _. True) (ctl (gh_view G (f (mi_world s))))"
    by (simp add: micro_ok_def)
  with wp_inv [OF *] serve assms(2) show ?thesis by (simp add: micro_ok_def)
next
  case (reap f k)
  with assms(2) have *: "ctl (gh_view G (f (mi_world s))) = ctl (gh_view G (mi_world s))"
    by (simp add: micro_ok_def)
  with maps_ok_ctl have "maps_ok (gh_view G (f (mi_world s)))" using assms(2) unfolding micro_ok_def by metis
  with * reap assms(2) show ?thesis by (simp add: micro_ok_def)
next
  case (packet env w' pkt)
  then show ?thesis
    using packet_ctl [of "gh_view G (mi_world s)"] assms(2) maps_ok_packet [of "gh_view G (mi_world s)"]
    by (simp add: micro_ok_def)
qed (use assms(2) in \<open>auto simp: micro_ok_def framed_ct\<close>)

lemma micro_steps_ok: "(micro_step G fw srv c)\<^sup>*\<^sup>* s s' \<Longrightarrow> micro_ok s \<Longrightarrow> micro_ok s'"
  by (induction rule: rtranclp_induct) (auto intro: micro_step_ok)

lemma micro_reachable_ok:
  assumes "(micro_step G fw srv c)\<^sup>*\<^sup>* (idle_state w0) s" "maps_ok (gh_view G w0)"
  shows "micro_ok s" "maps_ok (gh_view G (mi_world s))"
  using micro_steps_ok [OF assms(1) micro_ok_idle [OF assms(2)]] by (simp_all add: micro_ok_def)

section \<open>One request among packets\<close>

lemma serving_awp:
  assumes "(serving G fw srv c)\<^sup>*\<^sup>* s s'" "micro_ok s" "mi_request s = Some p"
    "awp p Q (ctl (gh_view G (mi_world s)))"
  shows "micro_ok s' \<and> (\<exists>p'. mi_request s' = Some p' \<and> awp p' Q (ctl (gh_view G (mi_world s'))))"
  using assms
proof (induction rule: rtranclp_induct)
  case (step t u)
  then obtain p1 p2 where "micro_ok t" "mi_request t = Some p1" "awp p1 Q (ctl (gh_view G (mi_world t)))"
      "micro_step G fw srv c t u" "mi_request u = Some p2"
    by (auto simp: serving_def)
  with micro_step_awp micro_step_ok show ?case by blast
qed simp

lemma request_served:
  assumes "(serving G fw srv c)\<^sup>*\<^sup>* s s'" "micro_ok s" "mi_request s = Some (handle_prog srv fw req)"
    "mi_request s' = Some (Return r)"
  shows "maps_ok (gh_view G (mi_world s')) \<and>
    mgr_step\<^sup>*\<^sup>* (ctl (gh_view G (mi_world s))) (ctl (gh_view G (mi_world s'))) \<and>
    (rs_OK r \<longrightarrow> request_done req (ctl (gh_view G (mi_world s))) (ctl (gh_view G (mi_world s'))))"
proof -
  have "maps_ok (ctl (gh_view G (mi_world s)))" using assms(2) by (simp add: micro_ok_def)
  from serving_awp [OF assms(1-3) awp_handle [OF this]] assms(4) show ?thesis
    by auto
qed

end

text \<open>Once it is answered, and until the next request, nobody writes the control part.\<close>

definition quiet ::
    "('w, 'i) fw_ghost \<Rightarrow> ('w, 'i, 'l) Firewall \<Rightarrow> ('w, 'n) Server \<Rightarrow> u64 \<Rightarrow> 'w micro \<Rightarrow> 'w micro \<Rightarrow> bool"
where
  "quiet G fw srv ctTimeout s s' \<longleftrightarrow> micro_step G fw srv ctTimeout s s' \<and>
     (mi_request s' = mi_request s \<or> mi_request s' = None)"

definition answered :: "'w micro \<Rightarrow> bool" where
  "answered s \<longleftrightarrow> (\<forall>f k. mi_request s \<noteq> Some (Atom f k))"

context firewall_env
begin

lemma quiet_ctl:
  assumes "quiet G fw srv c s s'" "micro_ok s" "answered s"
  shows "micro_ok s' \<and> answered s' \<and> ctl (gh_view G (mi_world s')) = ctl (gh_view G (mi_world s))"
proof -
  from assms(1) have st: "micro_step G fw srv c s s'" and r: "mi_request s' = mi_request s \<or> mi_request s' = None"
    by (simp_all add: quiet_def)
  from r assms(3) have a: "answered s'" by (auto simp: answered_def)
  from st have "ctl (gh_view G (mi_world s')) = ctl (gh_view G (mi_world s))"
  proof cases
    case (packet env w' pkt)
    then show ?thesis using packet_ctl [of "gh_view G (mi_world s)"] assms(2) by (simp add: micro_ok_def)
  qed (use assms in \<open>auto simp: micro_ok_def answered_def\<close>)
  with micro_step_ok [OF st assms(2)] a show ?thesis by simp
qed

lemma quiets_ctl:
  assumes "(quiet G fw srv c)\<^sup>*\<^sup>* s s'" "micro_ok s" "answered s"
  shows "micro_ok s' \<and> answered s' \<and> ctl (gh_view G (mi_world s')) = ctl (gh_view G (mi_world s))"
  using assms by (induction rule: rtranclp_induct) (auto dest: quiet_ctl)

end

text \<open>Running a request or a tick without interruption is a run of single steps.\<close>

lemma serving_run:
  "mi_request s = Some p \<Longrightarrow> run p (mi_world s) = (w', r) \<Longrightarrow>
     (serving G fw srv c)\<^sup>*\<^sup>* s (s\<lparr>mi_world := w', mi_request := Some (Return r)\<rparr>)"
proof (induction p arbitrary: s)
  case (Return x)
  then have "s = s\<lparr>mi_world := w', mi_request := Some (Return r)\<rparr>" by (cases s) simp
  then show ?case by (metis rtranclp.rtrancl_refl)
next
  case (Atom f k)
  let ?t = "s\<lparr>mi_world := f (mi_world s), mi_request := Some (k (mi_world s))\<rparr>"
  have "serving G fw srv c s ?t"
    using Atom.prems(1) micro_step.serve [OF Atom.prems(1)] by (simp add: serving_def)
  moreover have "(serving G fw srv c)\<^sup>*\<^sup>* ?t (s\<lparr>mi_world := w', mi_request := Some (Return r)\<rparr>)"
    using Atom.IH [OF rangeI, of "?t" "mi_world s"] Atom.prems(2) by simp
  ultimately show ?case by (rule converse_rtranclp_into_rtranclp)
qed

text \<open>The first \<open>n\<close> calls of a program, and what is left of it.\<close>

fun advance :: "nat \<Rightarrow> ('w, 'r) prog \<Rightarrow> 'w \<Rightarrow> 'w \<times> ('w, 'r) prog" where
  "advance (Suc n) (Atom f k) w = advance n (k w) (f w)"
| "advance n p w = (w, p)"

lemma reaping_run:
  "mi_reaper s = Some p \<Longrightarrow> advance n p (mi_world s) = (w', p') \<Longrightarrow>
     (micro_step G fw srv c)\<^sup>*\<^sup>* s (s\<lparr>mi_world := w', mi_reaper := Some p'\<rparr>)"
proof (induction n p "mi_world s" arbitrary: s rule: advance.induct)
  case (1 n f k)
  let ?t = "s\<lparr>mi_world := f (mi_world s), mi_reaper := Some (k (mi_world s))\<rparr>"
  have "micro_step G fw srv c s ?t" by (rule micro_step.reap [OF 1(2)])
  moreover have "(micro_step G fw srv c)\<^sup>*\<^sup>* ?t (s\<lparr>mi_world := w', mi_reaper := Some p'\<rparr>)"
    using 1(1) [of ?t] 1(3) by simp
  ultimately show ?case by (rule converse_rtranclp_into_rtranclp)
qed (simp_all, (metis (mono_tags) micro.surjective micro.update_convs old.unit.exhaust rtranclp.rtrancl_refl)+)

lemma advance_reading: "advance (Suc n) (andthen (reading g) h) w = advance n (h (g w)) w"
  by (simp add: reading_def)
lemma advance_call: "advance (Suc n) (andthen (call c) h) w = advance n (h (snd (c w))) (fst (c w))"
  by (simp add: call_def)

lemma andthen_assoc: "andthen (andthen p g) h = andthen p (\<lambda>x. andthen (g x) h)"
  by (induction p) simp_all

lemma andthen_cong: "p = p' \<Longrightarrow> andthen p g = andthen p' g" by simp

lemma iter_prog_numeral:
  "iter_prog M (numeral q) it =
     andthen (reading (\<lambda>w. m_next M w it)) (\<lambda>r.
       case r of
         Done e \<Rightarrow> Return ([], e)
       | Yield k v it' \<Rightarrow> andthen (iter_prog M (pred_numeral q) it') (\<lambda>(es, e). Return ((k, v) # es, e)))"
  by (simp add: numeral_eq_Suc)

section \<open>How many calls a request makes\<close>

text \<open>At most \<open>n\<close> calls, whatever the others do between them, with a result in \<open>Q\<close>.\<close>

primrec bounded :: "('w, 'r) prog \<Rightarrow> nat \<Rightarrow> ('r \<Rightarrow> bool) \<Rightarrow> bool" where
  "bounded (Return r) n Q \<longleftrightarrow> Q r"
| "bounded (Atom f k) n Q \<longleftrightarrow> (case n of 0 \<Rightarrow> False | Suc m \<Rightarrow> \<forall>w. bounded (k w) m Q)"

lemma bounded_mono: "bounded p n Q \<Longrightarrow> n \<le> m \<Longrightarrow> (\<And>r. Q r \<Longrightarrow> R r) \<Longrightarrow> bounded p m R"
proof (induction p arbitrary: n m)
  case (Atom f k)
  then obtain n' m' where "n = Suc n'" "m = Suc m'" by (cases n; cases m) auto
  with Atom show ?case by (auto intro: Atom.IH [OF rangeI])
qed simp

lemma bounded_then:
  "bounded p a Q \<Longrightarrow> (\<And>r. Q r \<Longrightarrow> bounded (g r) b R) \<Longrightarrow> a + b \<le> n \<Longrightarrow> bounded (andthen p g) n R"
proof (induction p arbitrary: a n)
  case (Return r)
  then have "Q r" "bounded (g r) b R" by simp_all
  then show ?case using Return.prems(3) by (auto elim: bounded_mono)
next
  case (Atom f k)
  then obtain a' n' where "a = Suc a'" "n = Suc n'" by (cases a; cases n) auto
  with Atom show ?case by (auto intro: Atom.IH [OF rangeI])
qed

lemma bounded_step: "(\<And>r. bounded (g r) b R) \<Longrightarrow> bounded (andthen (reading h) g) (Suc b) R"
    "(\<And>r. bounded (g r) b R) \<Longrightarrow> bounded (andthen (call c) g) (Suc b) R"
  by (simp_all add: reading_def call_def)

lemma bounded_one [simp]: "bounded (reading h) (Suc b) (\<lambda>_. True)" "bounded (call c) (Suc b) (\<lambda>_. True)"
  by (simp_all add: reading_def call_def)

lemma bounded_mapped: "bounded p n (\<lambda>r. Q (h r)) \<Longrightarrow> bounded (mapped h p) n Q"
  unfolding mapped_def by (erule bounded_then [where b = 0]) simp_all

abbreviation calls :: "nat \<Rightarrow> ('w, 'r) prog \<Rightarrow> bool" where
  "calls n p \<equiv> bounded p n (\<lambda>_. True)"

lemma calls_mapped: "calls n p \<Longrightarrow> calls n (mapped h p)"
  by (rule bounded_mapped)

lemma calls_bits: "calls 2 (setbit_prog presence b)" "calls 2 (clearbit_prog presence b)"
  by (auto simp: setbit_prog_def clearbit_prog_def numeral_2_eq_2 intro!: bounded_step
      split: option.split sum.split)

lemma calls_sync: "calls 3 (sync_prog M presence b)"
  unfolding sync_prog_def numeral_3_eq_3
  by (intro bounded_step) (auto simp: calls_bits [unfolded numeral_2_eq_2] split: sum.split)

lemma calls_insert: "calls 3 (insert_prog M presence b k v)"
  unfolding insert_prog_def
  by (rule bounded_then [OF calls_bits(1), where b = 1]) (auto split: option.split)

lemma calls_remove: "calls 4 (remove_prog M presence b k)"
proof -
  have "calls (Suc 3) (remove_prog M presence b k)"
    unfolding remove_prog_def by (intro bounded_step) (auto simp: calls_sync split: option.split)
  then show ?thesis by simp
qed

lemma calls_iter_delete: "calls (2 * n) (iter_delete_prog M n it)"
  by (induction n arbitrary: it)
    (auto intro!: bounded_step split: next_result.split option.split)

lemma calls_clear: "calls (2 * m_max_entries M + 8) (clear_prog M presence b)"
proof -
  have "calls (Suc (2 * (m_max_entries M + 2))) (andthen (reading (m_iterate M)) (iter_delete_prog M (m_max_entries M + 2)))"
    by (intro bounded_step calls_iter_delete)
  then show ?thesis
    unfolding clear_prog_def
    by (rule bounded_then [where b = 3]) (auto simp: calls_sync split: option.split)
qed

lemma bounded_iter: "bounded (iter_prog M n it) n (\<lambda>(es, e). length es \<le> n)"
proof (induction n arbitrary: it)
  case (Suc n)
  have "bounded (andthen (iter_prog M n it') (\<lambda>(es, e). Return ((k, v) # es, e))) n
      (\<lambda>(es, e). length es \<le> Suc n)" for it' k v
    by (rule bounded_then [OF Suc, where b = 0]) auto
  then show ?case unfolding iter_prog.simps by (intro bounded_step) (auto split: next_result.split)
qed simp

lemma bounded_scan:
  "bounded (scan_prog M) (m_max_entries M + 3) (\<lambda>(es, e). length es \<le> m_max_entries M + 2)"
proof -
  have "m_max_entries M + 3 = Suc (m_max_entries M + 2)" by simp
  then show ?thesis unfolding scan_prog_def by (metis bounded_step(1) bounded_iter)
qed

lemma calls_scanned: "calls (m_max_entries M + 3) (scanned g M)"
  unfolding scanned_def by (rule bounded_mapped, rule bounded_mono [OF bounded_scan]) simp_all

lemma calls_delete: "calls (length ks) (delete_prog M ks)"
proof (induction ks)
  case (Cons k ks)
  have "calls (length ks) (andthen (delete_prog M ks) (\<lambda>(n, e). Return (Suc n, e)))"
    by (rule bounded_then [OF Cons, where b = 0]) auto
  then show ?case by (auto intro!: bounded_step split: option.split)
qed simp

lemma calls_slots: "calls n (slots_prog cm n i s)"
  by (induction n arbitrary: i s) (auto intro!: bounded_step split: sum.split)

text \<open>The sizes are those of the loaded maps.\<close>

definition request_calls :: "('w, 'i, 'l) Firewall \<Rightarrow> nat" where
  "request_calls fw =
     2 * m_max_entries (mm_blockedIps (fw_mgr fw)) + 2 * m_max_entries (pp_portPolicy (fw_portPolicyMgr fw)) +
     2 * m_max_entries (ct_conntrack (fw_ctMgr fw)) + 21"

definition reap_calls :: "('w, 'i, 'l) Firewall \<Rightarrow> nat" where
  "reap_calls fw = 2 * m_max_entries (ct_conntrack (fw_ctMgr fw)) + 6"

lemma calls_delete_upto: "length ks \<le> n \<Longrightarrow> calls n (mapped h (delete_prog M ks))"
  by (rule bounded_mono [OF calls_mapped [OF calls_delete]]) simp_all

lemma calls_scan_then:
  "(\<And>es e. length es \<le> m_max_entries M + 2 \<Longrightarrow> calls (m_max_entries M + 2) (g (es, e))) \<Longrightarrow>
     calls (2 * m_max_entries M + 5) (andthen (scan_prog M) g)"
  by (rule bounded_then [OF bounded_scan, where b = "m_max_entries M + 2"]) auto

lemma calls_clear_ct: "calls (2 * m_max_entries (ct_conntrack (fw_ctMgr fw)) + 5) (clear_ct_prog fw)"
  unfolding clear_ct_prog_def
  by (rule calls_scan_then) (auto intro!: calls_delete_upto split: option.split)

lemma calls_reap: "calls (reap_calls fw) (reap_prog fw idle)"
proof -
  let ?n = "2 * m_max_entries (ct_conntrack (fw_ctMgr fw)) + 5"
  have "calls (Suc ?n) (reap_prog fw idle)"
    unfolding reap_prog_def
  proof (intro bounded_step)
    fix r :: "fw_error + u64"
    show "calls ?n (case r of
        Inl err \<Rightarrow> Return (0, Some err)
      | Inr nowNs \<Rightarrow>
          andthen (scan_prog (ct_conntrack (fw_ctMgr fw))) (\<lambda>(es, e).
            case e of
              Some err \<Rightarrow> Return (0, Some (MapError err))
            | None \<Rightarrow> mapped (\<lambda>(n, e). (n, map_option MapError e))
                (delete_prog (ct_conntrack (fw_ctMgr fw))
                   (map fst (filter (\<lambda>(key, value). reap_stale idle nowNs value) es)))))"
      by (cases r) (auto intro!: calls_scan_then calls_delete_upto le_trans [OF length_filter_le]
          split: option.split)
  qed
  then show ?thesis by (rule bounded_mono) (simp_all add: reap_calls_def)
qed

lemma calls_writes:
  "calls 3 (block_prog fw req)" "calls 4 (unblock_prog fw req)" "calls 1 (set_default_prog fw s)"
  by (auto simp: block_prog_def unblock_prog_def wrapping_def block_ip_prog_def block_port_prog_def
      unblock_ip_prog_def unblock_port_prog_def set_default_prog_def
      intro!: calls_mapped calls_insert calls_remove split: sum.split)

lemma calls_cases:
  "calls n p \<Longrightarrow> calls n (case e of Some err \<Rightarrow> Return (Some err) | None \<Rightarrow> p)"
  by (simp split: option.split)

lemma calls_clear_all: "calls (request_calls fw) (clear_all_prog fw)"
proof -
  have "calls (2 * m_max_entries (pp_portPolicy (fw_portPolicyMgr fw)) + 8 +
      (2 * m_max_entries (ct_conntrack (fw_ctMgr fw)) + 5))
    (andthen (clear_port_prog fw) (\<lambda>e. case e of Some err \<Rightarrow> Return (Some err) | None \<Rightarrow> clear_ct_prog fw))"
    unfolding clear_port_prog_def
    by (rule bounded_then [OF calls_mapped [OF calls_clear]
          calls_cases [OF calls_clear_ct]]) simp
  then show ?thesis
    unfolding clear_all_prog_def clear_ip_prog_def
    by (rule bounded_then [OF calls_mapped [OF calls_clear] calls_cases])
      (simp_all add: request_calls_def)
qed

lemma calls_reads:
  "calls (request_calls fw) (list_rules_prog fw)" "calls (request_calls fw) (list_ports_prog fw)"
  "calls (request_calls fw) (list_ct_prog fw)" "calls (request_calls fw) (status_prog srv fw)"
proof -
  show "calls (request_calls fw) (list_rules_prog fw)" "calls (request_calls fw) (list_ports_prog fw)"
    unfolding list_rules_prog_def list_ports_prog_def
    by (rule bounded_mono [OF calls_scanned], simp_all add: request_calls_def)+
  have ct: "calls (2 * m_max_entries (ct_conntrack (fw_ctMgr fw)) + 20) (scanned g (ct_conntrack (fw_ctMgr fw)))" for g
    by (rule bounded_mono [OF calls_scanned]) simp_all
  have "calls (Suc (2 * m_max_entries (ct_conntrack (fw_ctMgr fw)) + 20)) (list_ct_prog fw)"
    unfolding list_ct_prog_def by (intro bounded_step) (auto intro!: ct split: sum.split)
  then show "calls (request_calls fw) (list_ct_prog fw)"
    by (rule bounded_mono) (simp_all add: request_calls_def)
  show "calls (request_calls fw) (status_prog srv fw)"
    unfolding status_prog_def list_rules_prog_def
    by (rule bounded_then [OF calls_scanned, where b = 1])
      (auto simp: request_calls_def intro!: calls_mapped split: sum.split)
qed

lemma calls_if: "calls n p \<Longrightarrow> calls n q \<Longrightarrow> calls n (if c then p else q)"
  by simp

lemma calls_handle: "calls (request_calls fw) (handle_prog srv fw req)"
proof -
  have le: "calls n p \<Longrightarrow> n \<le> 21 \<Longrightarrow> calls (request_calls fw) p" for n and p :: "('x, 'y) prog"
    by (erule bounded_mono) (simp_all add: request_calls_def)
  note small = le [OF calls_writes(1)] le [OF calls_writes(2)] le [OF calls_writes(3)]
    le [OF calls_slots]
  show ?thesis
    unfolding handle_prog_def Let_def counterMax_def
    by (intro calls_if calls_mapped small calls_clear_all calls_reads) simp_all
qed

section \<open>Every request is answered\<close>

text \<open>A run in which the server keeps being scheduled: as long as a request is pending, some later
  step is one of it.\<close>

definition micro_run ::
    "('w, 'i) fw_ghost \<Rightarrow> ('w, 'i, 'l) Firewall \<Rightarrow> ('w, 'n) Server \<Rightarrow> u64 \<Rightarrow> (nat \<Rightarrow> 'w micro) \<Rightarrow> bool" where
  "micro_run G fw srv ctTimeout \<sigma> \<longleftrightarrow> (\<forall>i. micro_step G fw srv ctTimeout (\<sigma> i) (\<sigma> (Suc i)))"

definition server_scheduled :: "(nat \<Rightarrow> 'w micro) \<Rightarrow> bool" where
  "server_scheduled \<sigma> \<longleftrightarrow>
     (\<forall>i. mi_request (\<sigma> i) \<noteq> None \<longrightarrow> (\<exists>j \<ge> i. mi_request (\<sigma> (Suc j)) \<noteq> mi_request (\<sigma> j)))"

text \<open>The calls the server makes from one moment to another: its steps that take the request further.\<close>

definition server_moves :: "(nat \<Rightarrow> 'w micro) \<Rightarrow> nat \<Rightarrow> nat \<Rightarrow> nat set" where
  "server_moves \<sigma> i j = {l. i \<le> l \<and> l < j \<and> mi_request (\<sigma> (Suc l)) \<noteq> mi_request (\<sigma> l)}"

lemma next_change:
  assumes "server_scheduled \<sigma>" "mi_request (\<sigma> i) = Some p"
  obtains j where "i \<le> j" "\<And>l. i \<le> l \<Longrightarrow> l \<le> j \<Longrightarrow> mi_request (\<sigma> l) = Some p" "mi_request (\<sigma> (Suc j)) \<noteq> Some p"
proof -
  define P where "P j \<longleftrightarrow> i \<le> j \<and> mi_request (\<sigma> (Suc j)) \<noteq> mi_request (\<sigma> j)" for j
  obtain j0 where "P j0" using assms by (auto simp: server_scheduled_def P_def)
  define j where "j = (LEAST j. P j)"
  have j: "P j" unfolding j_def using \<open>P j0\<close> by (rule LeastI)
  have "mi_request (\<sigma> (i + d)) = Some p" if "i + d \<le> j" for d
    using that
  proof (induction d)
    case (Suc d)
    then have "\<not> P (i + d)" unfolding j_def by (intro not_less_Least) simp
    with Suc show ?case by (simp add: P_def)
  qed (use assms in simp)
  then have "mi_request (\<sigma> l) = Some p" if "i \<le> l" "l \<le> j" for l
    using that by (metis le_add_diff_inverse)
  with j show ?thesis by (intro that [of j]) (auto simp: P_def)
qed

text \<open>A pending request is answered, with no more calls than its program makes at most.\<close>

lemma request_answered:
  assumes "micro_run G fw srv c \<sigma>" "server_scheduled \<sigma>"
  shows "mi_request (\<sigma> i) = Some p \<Longrightarrow> calls n p \<Longrightarrow>
    \<exists>j \<ge> i. \<exists>r. mi_request (\<sigma> j) = Some (Return r) \<and> mi_request (\<sigma> (Suc j)) = None \<and>
      (\<forall>l. i \<le> l \<longrightarrow> l \<le> j \<longrightarrow> mi_request (\<sigma> l) \<noteq> None) \<and> card (server_moves \<sigma> i j) \<le> n"
proof (induction p arbitrary: i n)
  case (Return r)
  obtain j where j: "i \<le> j" "\<And>l. i \<le> l \<Longrightarrow> l \<le> j \<Longrightarrow> mi_request (\<sigma> l) = Some (Return r)"
      "mi_request (\<sigma> (Suc j)) \<noteq> Some (Return r)"
    using next_change [OF assms(2) Return.prems(1)] by metis
  have "micro_step G fw srv c (\<sigma> j) (\<sigma> (Suc j))" using assms(1) by (simp add: micro_run_def)
  then have "mi_request (\<sigma> (Suc j)) = None" by cases (use j in auto)
  moreover have "server_moves \<sigma> i j = {}" using j(2) by (auto simp: server_moves_def)
  ultimately show ?case using j(1,2) by (intro exI [of _ j] exI [of _ r]) auto
next
  case (Atom f k)
  obtain j where j: "i \<le> j" "\<And>l. i \<le> l \<Longrightarrow> l \<le> j \<Longrightarrow> mi_request (\<sigma> l) = Some (Atom f k)"
      "mi_request (\<sigma> (Suc j)) \<noteq> Some (Atom f k)"
    using next_change [OF assms(2) Atom.prems(1)] by metis
  have "micro_step G fw srv c (\<sigma> j) (\<sigma> (Suc j))" using assms(1) by (simp add: micro_run_def)
  then have k: "mi_request (\<sigma> (Suc j)) = Some (k (mi_world (\<sigma> j)))" by cases (use j in auto)
  from Atom.prems(2) obtain n' where n: "n = Suc n'" "calls n' (k (mi_world (\<sigma> j)))" by (cases n) auto
  from Atom.IH [OF rangeI k n(2)] obtain j' r where j': "Suc j \<le> j'" "mi_request (\<sigma> j') = Some (Return r)"
      "mi_request (\<sigma> (Suc j')) = None" "\<forall>l. Suc j \<le> l \<longrightarrow> l \<le> j' \<longrightarrow> mi_request (\<sigma> l) \<noteq> None"
      "card (server_moves \<sigma> (Suc j) j') \<le> n'"
    by blast
  have "finite (server_moves \<sigma> (Suc j) j')" by (simp add: server_moves_def)
  moreover have "server_moves \<sigma> i j' \<subseteq> insert j (server_moves \<sigma> (Suc j) j')"
    using j(2) by (auto simp: server_moves_def not_less_eq_eq [symmetric])
  ultimately have "card (server_moves \<sigma> i j') \<le> Suc (card (server_moves \<sigma> (Suc j) j'))"
    by (metis card_insert_if card_mono finite_insert le_SucI)
  moreover have "mi_request (\<sigma> l) \<noteq> None" if "i \<le> l" "l \<le> j'" for l
    using j(2) [of l] j'(4) that by (cases "l \<le> j") auto
  ultimately show ?case using j(1) j' n(1) by (intro exI [of _ j'] exI [of _ r]) auto
qed

lemma run_serving:
  assumes "micro_run G fw srv c \<sigma>" "i \<le> j" "\<forall>l. i \<le> l \<longrightarrow> l \<le> j \<longrightarrow> mi_request (\<sigma> l) \<noteq> None"
  shows "(serving G fw srv c)\<^sup>*\<^sup>* (\<sigma> i) (\<sigma> j)"
  using assms(2,3)
proof (induction rule: dec_induct)
  case (step l)
  then have "serving G fw srv c (\<sigma> l) (\<sigma> (Suc l))" using assms(1) by (simp add: serving_def micro_run_def)
  with step show ?case by (simp add: rtranclp.rtrancl_into_rtrancl)
qed simp

lemma run_reaches: "micro_run G fw srv c \<sigma> \<Longrightarrow> (micro_step G fw srv c)\<^sup>*\<^sup>* (\<sigma> 0) (\<sigma> i)"
  by (induction i) (auto simp: micro_run_def intro: rtranclp.rtrancl_into_rtrancl)

end
