(* ===== verification/Lookups.thy ===== *)
theory Lookups
  imports Micro
begin

text \<open>
  A packet beside a request. The program of \<open>bpf/firewall.c\<close> makes up to nine lookups, each of one
  entry at one moment, while the daemon changes the maps: \<open>packet_at\<close> is its verdict when the \<open>i\<close>-th
  lookup sees the maps \<open>ms i\<close>. Every call of a request changes at most one entry of one map
  (\<open>one_entry\<close>), and beside one call the packet is judged as if it had run before it or after it.
\<close>

section \<open>The program, lookup by lookup\<close>

definition ip_block_at :: "dp_env \<Rightarrow> (nat \<Rightarrow> fw_maps) \<Rightarrow> packet_info \<Rightarrow> ruleValue option" where
  "ip_block_at env ms info =
     (case dp_lpm env (blocked_ips (ms 1)) \<lparr>lk_Prefixlen = 32, lk_Data = pi_saddr info\<rparr> of
        Some elem \<Rightarrow> Some elem
      | None \<Rightarrow> dp_lpm env (blocked_ips (ms 2)) \<lparr>lk_Prefixlen = 32, lk_Data = pi_daddr info\<rparr>)"

definition port_rule_at :: "(nat \<Rightarrow> fw_maps) \<Rightarrow> packet_info \<Rightarrow> ruleValue option" where
  "port_rule_at ms info =
     (let best = try_lookup (ms 3) info (pi_dport info) (pi_sport info) None;
          best = try_lookup (ms 4) info (pi_dport info) 0 best;
          best = try_lookup (ms 5) info 0 (pi_sport info) best
      in try_lookup (ms 6) info 0 0 best)"

definition packet_at :: "dp_env \<Rightarrow> u8 list \<Rightarrow> (nat \<Rightarrow> fw_maps) \<Rightarrow> xdp_action" where
  "packet_at env pkt ms =
     (case parse_packet pkt of
        None \<Rightarrow> default_verdict (default_policy (ms 7))
      | Some info \<Rightarrow>
          (let flags = (case rule_presence (ms 0) 0 of None \<Rightarrow> 0 | Some f \<Rightarrow> f);
               ip_rule = (if flags AND RULE_IP_PRESENT \<noteq> 0 then ip_block_at env ms info else None);
               port_rule = (if flags AND RULE_PORT_PRESENT \<noteq> 0 then port_rule_at ms info else None);
               def = default_policy (ms 7)
           in
           if ip_rule \<noteq> None \<or> port_rule \<noteq> None then decide (ms 7) ip_rule port_rule
           else if def = DefaultDeny \<and> pi_protocol info = IPPROTO_TCP \<and> ct_is_established (ms 8) info
           then XDP_PASS
           else default_verdict def))"

text \<open>When nobody interferes this is the program.\<close>

lemma packet_at_alone: "packet_at env pkt (\<lambda>_. m) = snd (firewall_prog env pkt m)"
proof -
  have v: "snd (if v = XDP_DROP then (x, XDP_DROP) else (y, XDP_PASS)) = v" for v and x y :: fw_maps
    by (cases v) simp_all
  have l: "ip_block_at env (\<lambda>_. m) info = ip_block_action env m info"
      "port_rule_at (\<lambda>_. m) info = port_rule_action m info" for info
    by (simp_all add: ip_block_at_def ip_block_action_def port_rule_at_def port_rule_action_def)
  show ?thesis
    unfolding packet_at_def firewall_prog_def Let_def l
    by (cases "parse_packet pkt") (simp_all only: option.case v snd_conv)
qed

section \<open>One change\<close>

text \<open>The change a call makes to the rules, the flags and the policy: one entry of one map.\<close>

definition one_entry :: "fw_maps \<Rightarrow> fw_maps \<Rightarrow> bool" where
  "one_entry m m' \<longleftrightarrow> m' = m \<or>
     (\<exists>k x. m' = m\<lparr>blocked_ips := (blocked_ips m)(k := x)\<rparr>) \<or>
     (\<exists>k x. m' = m\<lparr>port_policy := (port_policy m)(k := x)\<rparr>) \<or>
     (\<exists>f. m' = set_flags f m) \<or>
     (\<exists>k x. m' = m\<lparr>firewall_config := (firewall_config m)(k := x)\<rparr>)"

text \<open>A longest-prefix lookup after a change of the entry \<open>k\<close>: what it found before, or the new value.\<close>

lemma lpm_changed:
  assumes "longest_prefix lpm" "\<forall>k \<in> dom c. canon_key k" "\<forall>k \<in> dom (c(k \<mapsto> v)). canon_key k"
  shows "lpm (c(k \<mapsto> v)) (host_key q) \<in> {lpm c (host_key q), Some v}"
proof (cases "lpm (c(k \<mapsto> v)) (host_key q)")
  case None
  have "\<not> covers k' q" if "k' \<in> dom c" for k'
    using longest_prefix_None [OF assms(1,3) None, of k'] that by (simp add: domIff)
  then have "lpm c (host_key q) = None"
    using longest_prefix_Some [OF assms(1,2)] by (metis domI not_None_eq)
  with None show ?thesis by simp
next
  case (Some v')
  from longest_prefix_Some [OF assms(1,3) Some] obtain k' where k': "(c(k \<mapsto> v)) k' = Some v'" "covers k' q"
      "\<forall>k'' \<in> dom (c(k \<mapsto> v)). covers k'' q \<longrightarrow> unat (lk_Prefixlen k'') \<le> unat (lk_Prefixlen k')"
    by blast
  show ?thesis
  proof (cases "k' = k")
    case False
    with longest_prefix_eq [OF assms(1,2), of k' v' q] k' Some show ?thesis by simp
  qed (use k'(1) Some in simp)
qed

lemma lpm_lost:
  assumes "longest_prefix lpm" "\<forall>k \<in> dom c. canon_key k" "lpm c (host_key q) = None"
  shows "lpm (c(k := None)) (host_key q) = None"
proof (rule ccontr)
  assume "lpm (c(k := None)) (host_key q) \<noteq> None"
  then obtain v where v: "lpm (c(k := None)) (host_key q) = Some v" by blast
  have can: "\<forall>k' \<in> dom (c(k := None)). canon_key k'" using assms(2) by auto
  obtain k' where "(c(k := None)) k' = Some v" "covers k' q"
    using longest_prefix_Some [OF assms(1) can v] by metis
  then have "k' \<in> dom c" "covers k' q" by (auto split: if_splits)
  with longest_prefix_None [OF assms(1,2,3)] show False by blast
qed

lemma ip_block_key: "ip_block_at env ms info =
    (case dp_lpm env (blocked_ips (ms 1)) (host_key (pi_saddr info)) of
       Some elem \<Rightarrow> Some elem
     | None \<Rightarrow> dp_lpm env (blocked_ips (ms 2)) (host_key (pi_daddr info)))"
  by (simp only: ip_block_at_def host_key_def)

lemma ip_action_key: "ip_block_action env m info =
    (case dp_lpm env (blocked_ips m) (host_key (pi_saddr info)) of
       Some elem \<Rightarrow> Some elem
     | None \<Rightarrow> dp_lpm env (blocked_ips m) (host_key (pi_daddr info)))"
  by (simp only: ip_block_action_def host_key_def)

lemma ip_block_changed:
  assumes "longest_prefix (dp_lpm env)"
    and c: "\<forall>k \<in> dom c. canon_key k" "\<forall>k \<in> dom c'. canon_key k" "c' = c(k := x)"
    and t: "blocked_ips m = c" "blocked_ips m' = c'"
      "\<And>i. i = 1 \<or> i = 2 \<Longrightarrow> blocked_ips (ms i) = (if i < n then c else c')"
  shows "ip_block_at env ms info \<in> {ip_block_action env m info, ip_block_action env m' info}"
proof (cases "n = 2")
  case True
  let ?l = "\<lambda>c q. dp_lpm env c (host_key q)"
  have at: "ip_block_at env ms info =
      (case ?l c (pi_saddr info) of Some e \<Rightarrow> Some e | None \<Rightarrow> ?l c' (pi_daddr info))"
  proof -
    have "blocked_ips (ms 1) = c" "blocked_ips (ms 2) = c'" using True t(3) [of 1] t(3) [of 2] by simp_all
    then show ?thesis by (simp only: ip_block_key)
  qed
  show ?thesis
  proof (cases x)
    case None
    then show ?thesis
      using lpm_lost [OF assms(1) c(1), of "pi_saddr info" k] c(3) t
      by (simp add: at ip_action_key split: option.split)
  next
    case (Some v)
    then have "?l c' q \<in> {?l c q, Some v}" for q
      using lpm_changed [OF assms(1) c(1), of k v q] c by simp
    from this [of "pi_saddr info"] this [of "pi_daddr info"] show ?thesis
      using t by (auto simp: at ip_action_key split: option.split)
  qed
next
  case False
  then have "1 < n \<longleftrightarrow> 2 < n" by auto
  then have "blocked_ips (ms 1) = blocked_ips (ms 2)" "blocked_ips (ms 2) \<in> {c, c'}"
    using t(3) [of 1] t(3) [of 2] by simp_all
  then show ?thesis unfolding ip_block_key ip_action_key t(1,2) by auto
qed

text \<open>The four probes.\<close>

definition keep_best :: "ruleValue option \<Rightarrow> ruleValue option \<Rightarrow> ruleValue option" where
  "keep_best e best = (case e of None \<Rightarrow> best | Some v \<Rightarrow> pick v best)"

definition probes :: "ruleValue option \<Rightarrow> ruleValue option \<Rightarrow> ruleValue option \<Rightarrow> ruleValue option \<Rightarrow> ruleValue option"
where
  "probes a b c d = keep_best d (keep_best c (keep_best b (keep_best a None)))"

lemma port_rule_probes:
  "port_rule_at ms info =
     probes (port_probe (ms 3) info (pi_dport info) (pi_sport info)) (port_probe (ms 4) info (pi_dport info) 0)
       (port_probe (ms 5) info 0 (pi_sport info)) (port_probe (ms 6) info 0 0)"
  "port_rule_action m info =
     probes (port_probe m info (pi_dport info) (pi_sport info)) (port_probe m info (pi_dport info) 0)
       (port_probe m info 0 (pi_sport info)) (port_probe m info 0 0)"
  by (simp_all add: port_rule_at_def port_rule_action_def probes_def keep_best_def try_lookup_pick Let_def)

text \<open>A key probed twice: its second value counts only if it beats everything before it.\<close>

lemma probes_twice:
  "probes a b x b \<in> {probes a b a b, probes x b x b}" "probes b a b x \<in> {probes b a b a, probes b x b x}"
  "probes a x b b \<in> {probes a a b b, probes x x b b}" "probes b b a x \<in> {probes b b a a, probes b b x x}"
  "probes a a a x \<in> {probes a a a a, probes x x x x}" "probes a a x x \<in> {probes a a a a, probes x x x x}"
  "probes a x x x \<in> {probes a a a a, probes x x x x}"
  by (cases a; cases b; cases x; auto simp: probes_def keep_best_def pick_def)+

lemma port_rule_changed:
  assumes c: "c' = c(k := x)"
    and t: "port_policy m = c" "port_policy m' = c'"
      "\<And>i. 3 \<le> i \<Longrightarrow> i \<le> 6 \<Longrightarrow> port_policy (ms i) = (if i < n then c else c')"
  shows "port_rule_at ms info \<in> {port_rule_action m info, port_rule_action m' info}"
proof -
  let ?k = "\<lambda>d s. \<lparr>pk_Protocol = pi_protocol info, pk_Dport = d, pk_Sport = s, pk_Dst = pi_daddr info\<rparr>"
  let ?d = "pi_dport info" and ?s = "pi_sport info"
  have at: "port_rule_at ms info =
      probes ((if 3 < n then c else c') (?k ?d ?s)) ((if 4 < n then c else c') (?k ?d 0))
        ((if 5 < n then c else c') (?k 0 ?s)) ((if 6 < n then c else c') (?k 0 0))"
    by (simp add: port_rule_probes port_probe_def t)
  have m: "port_rule_action m info = probes (c (?k ?d ?s)) (c (?k ?d 0)) (c (?k 0 ?s)) (c (?k 0 0))"
      "port_rule_action m' info = probes (c' (?k ?d ?s)) (c' (?k ?d 0)) (c' (?k 0 ?s)) (c' (?k 0 0))"
    by (simp_all add: port_rule_probes port_probe_def t)
  consider "n \<le> 3" | "n = 4" | "n = 5" | "n = 6" | "6 < n" by linarith
  then show ?thesis
  proof cases
    case 2
    then show ?thesis using c probes_twice unfolding at m
      by (cases "?d = 0"; cases "?s = 0") auto
  next
    case 3
    then show ?thesis using c probes_twice unfolding at m
      by (cases "?d = 0"; cases "?s = 0") auto
  next
    case 4
    then show ?thesis using c probes_twice unfolding at m
      by (cases "?d = 0"; cases "?s = 0") auto
  qed (simp_all add: at m)
qed

section \<open>Before or after\<close>

text \<open>The verdict from what the lookups found.\<close>

definition verdict_from :: "ruleValue option \<Rightarrow> ruleValue option \<Rightarrow> u32 \<Rightarrow> bool \<Rightarrow> xdp_action" where
  "verdict_from ip port def tracked =
     (if ip \<noteq> None \<or> port \<noteq> None then matches_verdict (set_option ip \<union> set_option port)
      else if def = DefaultDeny \<and> tracked then XDP_PASS
      else default_verdict def)"

lemma packet_verdict_from:
  "packet_verdict env m info =
     verdict_from (ip_block_action env m info) (port_rule_action m info) (default_policy m)
       (pi_protocol info = IPPROTO_TCP \<and> ct_is_established m info)"
  by (auto simp: packet_verdict_def matched_rules_def stateful_pass_def verdict_from_def)

lemma packet_at_from:
  "packet_at env pkt ms =
     (case parse_packet pkt of
        None \<Rightarrow> default_verdict (default_policy (ms 7))
      | Some info \<Rightarrow>
          verdict_from
            (if presence_flags (ms 0) AND RULE_IP_PRESENT \<noteq> 0 then ip_block_at env ms info else None)
            (if presence_flags (ms 0) AND RULE_PORT_PRESENT \<noteq> 0 then port_rule_at ms info else None)
            (default_policy (ms 7)) (pi_protocol info = IPPROTO_TCP \<and> ct_is_established (ms 8) info))"
  unfolding packet_at_def Let_def verdict_from_def decide_matches presence_flags_def presence_bits(3)
  by (auto split: option.split)

lemma flag_clear:
  assumes "presence_ok m" "longest_prefix (dp_lpm env)"
  shows "presence_flags m AND RULE_IP_PRESENT = 0 \<Longrightarrow> ip_block_action env m info = None"
    and "presence_flags m AND RULE_PORT_PRESENT = 0 \<Longrightarrow> port_rule_action m info = None"
  using assms ip_block_action_empty [of env m info] port_rule_action_empty [of m info]
  by (auto simp: presence_ok_def bit_set_def presence_bits)

lemma same_lookups:
  "blocked_ips (ms 1) = blocked_ips m \<Longrightarrow> blocked_ips (ms 2) = blocked_ips m \<Longrightarrow>
     ip_block_at env ms info = ip_block_action env m info"
  "(\<And>i. 3 \<le> i \<Longrightarrow> i \<le> 6 \<Longrightarrow> port_policy (ms i) = port_policy m) \<Longrightarrow>
     port_rule_at ms info = port_rule_action m info"
  by (simp_all only: ip_block_at_def ip_block_action_def)
    (simp add: port_rule_probes port_probe_def)

lemma ip_action_cong: "blocked_ips m' = blocked_ips m \<Longrightarrow> ip_block_action env m' info = ip_block_action env m info"
  by (simp only: ip_block_action_def)

lemma found_one_side:
  fixes info :: packet_info
  assumes lp: "longest_prefix (dp_lpm env)" and ok: "maps_ok m" "maps_ok m'"
    and one: "one_entry (ctl m) (ctl m')" and ms: "\<And>i. ctl (ms i) = (if i < n then ctl m else ctl m')"
  defines "ip \<equiv> if presence_flags (ms 0) AND RULE_IP_PRESENT \<noteq> 0 then ip_block_at env ms info else None"
    and "port \<equiv> if presence_flags (ms 0) AND RULE_PORT_PRESENT \<noteq> 0 then port_rule_at ms info else None"
  shows "(ip, port, default_policy (ms 7)) \<in>
    {(ip_block_action env m info, port_rule_action m info, default_policy m),
     (ip_block_action env m' info, port_rule_action m' info, default_policy m')}"
proof -
  have b: "blocked_ips (ms i) = (if i < n then blocked_ips m else blocked_ips m')" for i
    using arg_cong [OF ms [of i], of blocked_ips] by (simp split: if_splits)
  have p: "port_policy (ms i) = (if i < n then port_policy m else port_policy m')" for i
    using arg_cong [OF ms [of i], of port_policy] by (simp split: if_splits)
  have d: "default_policy (ms 7) = (if 7 < n then default_policy m else default_policy m')"
    using arg_cong [OF ms [of 7], of firewall_config] by (simp add: default_policy_def split: if_splits)
  have f: "presence_flags (ms 0) = (if 0 < n then presence_flags m else presence_flags m')"
    using arg_cong [OF ms [of 0], of presence_flags] by (simp split: if_splits)
  note clear = flag_clear [OF maps_ok_presence [OF ok(1)] lp, of info] flag_clear [OF maps_ok_presence [OF ok(2)] lp, of info]
  have same_b: "ip_block_at env ms info = ip_block_action env m info \<and>
      ip_block_action env m' info = ip_block_action env m info" if "blocked_ips m' = blocked_ips m"
    using that same_lookups(1) [of ms m env info] b ip_action_cong [of m' m] by simp
  have same_p: "port_rule_at ms info = port_rule_action m info \<and>
      port_rule_action m' info = port_rule_action m info" if "port_policy m' = port_policy m"
    using that same_lookups(2) [of ms m info] p by (simp add: port_rule_probes port_probe_def)
  from one consider "ctl m' = ctl m"
    | (ip) k x where "ctl m' = (ctl m)\<lparr>blocked_ips := (blocked_ips m)(k := x)\<rparr>"
    | (port) k x where "ctl m' = (ctl m)\<lparr>port_policy := (port_policy m)(k := x)\<rparr>"
    | (flags) g where "ctl m' = set_flags g (ctl m)"
    | (policy) k x where "ctl m' = (ctl m)\<lparr>firewall_config := (firewall_config m)(k := x)\<rparr>"
    by (auto simp: one_entry_def)
  then show ?thesis
  proof cases
    case ip
    have o: "port_policy m' = port_policy m" "default_policy m' = default_policy m" "presence_flags m' = presence_flags m"
      and c: "blocked_ips m' = (blocked_ips m)(k := x)"
      using arg_cong [OF ip, of port_policy] arg_cong [OF ip, of firewall_config]
        arg_cong [OF ip, of presence_flags] arg_cong [OF ip, of blocked_ips]
      by (simp_all add: default_policy_def presence_flags_def)
    have "ip_block_at env ms info \<in> {ip_block_action env m info, ip_block_action env m' info}"
      by (rule ip_block_changed [OF lp _ _ c refl refl b]) (use ok maps_ok_canon in auto)
    then show ?thesis using same_p [OF o(1)] clear o(2,3) d f by (auto simp: ip_def port_def)
  next
    case port
    have o: "blocked_ips m' = blocked_ips m" "default_policy m' = default_policy m" "presence_flags m' = presence_flags m"
      and c: "port_policy m' = (port_policy m)(k := x)"
      using arg_cong [OF port, of port_policy] arg_cong [OF port, of firewall_config]
        arg_cong [OF port, of presence_flags] arg_cong [OF port, of blocked_ips]
      by (simp_all add: default_policy_def presence_flags_def)
    have "port_rule_at ms info \<in> {port_rule_action m info, port_rule_action m' info}"
      by (rule port_rule_changed [OF c refl refl p])
    then show ?thesis using same_b [OF o(1)] clear o(2,3) d f by (auto simp: ip_def port_def)
  next
    case flags
    have o: "blocked_ips m' = blocked_ips m" "port_policy m' = port_policy m" "default_policy m' = default_policy m"
      using arg_cong [OF flags, of port_policy] arg_cong [OF flags, of firewall_config]
        arg_cong [OF flags, of blocked_ips]
      by (simp_all add: default_policy_def set_flags_def)
    show ?thesis using same_b [OF o(1)] same_p [OF o(2)] o(3) clear d f by (auto simp: ip_def port_def)
  next
    case policy
    have o: "blocked_ips m' = blocked_ips m" "port_policy m' = port_policy m" "presence_flags m' = presence_flags m"
      using arg_cong [OF policy, of port_policy] arg_cong [OF policy, of presence_flags]
        arg_cong [OF policy, of blocked_ips]
      by (simp_all add: presence_flags_def)
    show ?thesis using same_b [OF o(1)] same_p [OF o(2)] o(3) clear d f by (auto simp: ip_def port_def)
  next
    case 1
    have o: "blocked_ips m' = blocked_ips m" "port_policy m' = port_policy m" "presence_flags m' = presence_flags m"
      using arg_cong [OF 1, of port_policy] arg_cong [OF 1, of presence_flags] arg_cong [OF 1, of blocked_ips]
      by simp_all
    show ?thesis using same_b [OF o(1)] same_p [OF o(2)] o(3) clear d f by (auto simp: ip_def port_def)
  qed
qed

text \<open>A packet beside one change is judged as before it or as after it, with the flow table it reads.\<close>

lemma packet_beside_change:
  assumes "longest_prefix (dp_lpm env)" "maps_ok m" "maps_ok m'" "one_entry (ctl m) (ctl m')"
    and ms: "\<And>i. ctl (ms i) = (if i < n then ctl m else ctl m')"
  shows "packet_at env pkt ms \<in>
    {verdict_of env (m\<lparr>conntrack := conntrack (ms 8)\<rparr>) pkt, verdict_of env (m'\<lparr>conntrack := conntrack (ms 8)\<rparr>) pkt}"
proof (cases "parse_packet pkt")
  case None
  have "default_policy (ms 7) \<in> {default_policy m, default_policy m'}"
    using arg_cong [OF ms [of 7], of firewall_config] by (auto simp: default_policy_def split: if_splits)
  with None show ?thesis by (auto simp: packet_at_def verdict_of_def default_policy_def)
next
  case (Some info)
  have v: "verdict_of env (x\<lparr>conntrack := conntrack (ms 8)\<rparr>) pkt =
      verdict_from (ip_block_action env x info) (port_rule_action x info) (default_policy x)
        (pi_protocol info = IPPROTO_TCP \<and> ct_is_established (ms 8) info)" for x
    using ip_action_cong [of "x\<lparr>conntrack := conntrack (ms 8)\<rparr>" x env info]
    by (simp add: verdict_of_def Some packet_verdict_from port_rule_probes port_probe_def
        default_policy_def ct_is_established_def)
  show ?thesis
    unfolding v packet_at_from Some option.case
    using found_one_side [OF assms(1-4) ms, of info] by auto
qed

section \<open>Every call is one change\<close>

text \<open>\<open>R\<close> relates the control part before and after every call, whoever else runs in between.\<close>

primrec stepwise :: "('w \<Rightarrow> fw_maps) \<Rightarrow> (fw_maps \<Rightarrow> fw_maps \<Rightarrow> bool) \<Rightarrow> ('w, 'r) prog \<Rightarrow> fw_maps \<Rightarrow> bool" where
  "stepwise view R (Return r) m \<longleftrightarrow> True"
| "stepwise view R (Atom f k) m \<longleftrightarrow>
     (\<forall>w. ctl (view w) = m \<longrightarrow> R m (ctl (view (f w))) \<and> stepwise view R (k w) (ctl (view (f w))))"

lemma stepwise_then:
  "stepwise view R p m \<Longrightarrow> wp view I p (\<lambda>r m'. stepwise view R (g r) m') m \<Longrightarrow> stepwise view R (andthen p g) m"
  by (induction p arbitrary: m) auto

lemma stepwise_andthen:
  "stepwise view R p m \<Longrightarrow> (\<And>r m'. stepwise view R (g r) m') \<Longrightarrow> stepwise view R (andthen p g) m"
  by (induction p arbitrary: m) auto

lemma stepwise_mapped: "stepwise view R p m \<Longrightarrow> stepwise view R (mapped h p) m"
  by (simp add: mapped_def stepwise_andthen)

lemma stepwise_call:
  "(\<And>w w' r. ctl (view w) = m \<Longrightarrow> c w = (w', r) \<Longrightarrow> R m (ctl (view w'))) \<Longrightarrow> stepwise view R (call c) m"
  by (simp add: call_def) (metis prod.collapse)

lemma stepwise_reading: "R m m \<Longrightarrow> stepwise view R (reading g) m"
  by (simp add: reading_def)

lemma stepwise_reading_then:
  "R m m \<Longrightarrow> (\<And>w. ctl (view w) = m \<Longrightarrow> stepwise view R (h (g w)) m) \<Longrightarrow> stepwise view R (andthen (reading g) h) m"
  by (simp add: reading_def)

lemma stepwise_framed: "framed view p \<Longrightarrow> (\<And>m. R m m) \<Longrightarrow> stepwise view R p m"
  by (induction p arbitrary: m) auto

text \<open>A table whose flag and entries may change one at a time.\<close>

context micro_table
begin

definition table_change :: "(fw_maps \<Rightarrow> fw_maps \<Rightarrow> bool) \<Rightarrow> bool" where
  "table_change R \<longleftrightarrow> (\<forall>m. R m m) \<and> (\<forall>m f. R m (set_flags f m)) \<and> (\<forall>m k x. R m (upd ((get m)(k := x)) m))"

lemma stepwise_bits:
  assumes "table_change R"
  shows "stepwise view R (setbit_prog (Some P) b) m" "stepwise view R (clearbit_prog (Some P) b) m"
  using assms
  by (auto simp: setbit_prog_def clearbit_prog_def table_change_def put_flags_ctl
      intro!: stepwise_andthen stepwise_reading stepwise_call split: sum.split)

lemma stepwise_sync: "table_change R \<Longrightarrow> stepwise view R (sync_prog M (Some P) b) m"
  by (auto simp: sync_prog_def table_change_def
      intro!: stepwise_andthen stepwise_reading stepwise_bits split: sum.split)

lemma stepwise_entry:
  assumes "table_change R" "canon k \<or> \<not> fits k"
  shows "stepwise view R (call (\<lambda>w. m_put M w k v)) m" "stepwise view R (call (\<lambda>w. m_delete M w k)) m"
proof -
  have R: "R m (if e = None then upd ((get m)(k := x)) m else m)" for x and e :: "map_err option"
    using assms(1) by (simp add: table_change_def)
  show "stepwise view R (call (\<lambda>w. m_put M w k v)) m"
  proof (rule stepwise_call)
    fix w w' and e :: "map_err option" assume "ctl (view w) = m" "m_put M w k v = (w', e)"
    from put_ctl(1) [OF this assms(2)] R [of e "Some v"] show "R m (ctl (view w'))" by simp
  qed
  show "stepwise view R (call (\<lambda>w. m_delete M w k)) m"
  proof (rule stepwise_call)
    fix w w' and e :: "map_err option" assume "ctl (view w) = m" "m_delete M w k = (w', e)"
    from delete_ctl(1) [OF this assms(2)] R [of e None] show "R m (ctl (view w'))" by simp
  qed
qed

lemma stepwise_insert:
  "table_change R \<Longrightarrow> canon k \<or> \<not> fits k \<Longrightarrow> stepwise view R (insert_prog M (Some P) b k v) m"
  unfolding insert_prog_def
  by (intro stepwise_andthen stepwise_bits) (auto intro: stepwise_entry split: option.split)

lemma stepwise_remove:
  "table_change R \<Longrightarrow> canon k \<or> \<not> fits k \<Longrightarrow> stepwise view R (remove_prog M (Some P) b k) m"
  unfolding remove_prog_def
  by (intro stepwise_andthen stepwise_entry) (auto intro: stepwise_sync split: option.split)

lemma stepwise_iter_delete:
  assumes "table_change R"
  shows "I m \<Longrightarrow> stepwise view R (iter_delete_prog M n it) m"
proof (induction n arbitrary: it m)
  case (Suc n)
  show ?case
    unfolding iter_delete_prog.simps
  proof (intro stepwise_reading_then)
    show "R m m" using assms by (simp add: table_change_def)
    fix w assume w: "ctl (view w) = m"
    have g: "get (view w) = get m" using ctl_get [of "view w"] by (simp add: w)
    show "stepwise view R (case m_next M w it of Done e \<Rightarrow> Return e
        | Yield k v it' \<Rightarrow> andthen (call (\<lambda>w. m_delete M w k)) (\<lambda>e.
            case e of None \<Rightarrow> iter_delete_prog M n it' | Some err \<Rightarrow> Return (Some err))) m"
    proof (cases "m_next M w it")
      case (Yield k v it')
      then have can: "canon k \<or> \<not> fits k"
        using T.next_entry [OF Yield] g I_canon [OF Suc.prems] by auto
      have "wp view I (call (\<lambda>w. m_delete M w k)) (\<lambda>e m'. stepwise view R
          (case e of None \<Rightarrow> iter_delete_prog M n it' | Some err \<Rightarrow> Return (Some err)) m') m"
      proof (intro wp_call Suc.prems)
        fix w w' and e :: "map_err option"
        assume "ctl (view w) = m" "m_delete M w k = (w', e)"
        from delete_ctl(1) [OF this can] Suc.prems I_shrink [OF Suc.prems upd_None_map_le]
        have "I (ctl (view w'))" by simp
        with Suc.IH show "I (ctl (view w')) \<and> stepwise view R
            (case e of None \<Rightarrow> iter_delete_prog M n it' | Some err \<Rightarrow> Return (Some err)) (ctl (view w'))"
          by (simp split: option.split)
      qed
      with stepwise_then [OF stepwise_entry(2) [OF assms can]] Yield show ?thesis by simp
    qed simp
  qed
qed simp

lemma stepwise_clear:
  assumes "table_change R" "I m"
  shows "stepwise view R (clear_prog M (Some P) b) m"
  unfolding clear_prog_def
  using assms stepwise_sync [OF assms(1)]
  by (auto simp: table_change_def intro!: stepwise_andthen stepwise_reading_then stepwise_iter_delete [OF assms(1)]
      split: option.split)

end

text \<open>Every request, and the running daemon.\<close>

context firewall_env
begin

lemma one_entry_tables: "mip.table_change one_entry" "mport.table_change one_entry"
  unfolding mip.table_change_def mport.table_change_def one_entry_def by blast+

lemma one_entry_refl: "one_entry m m"
  by (simp add: one_entry_def)

abbreviation small :: "('w, 'r) prog \<Rightarrow> fw_maps \<Rightarrow> bool" where
  "small \<equiv> stepwise (gh_view G) one_entry"

lemma small_tables:
  "small (block_ip_prog fw s a p) m" "small (unblock_ip_prog fw s) m"
  "small (block_port_prog fw dst proto dport sport a p) m" "small (unblock_port_prog fw dst proto dport sport) m"
  using rule_key_cases [of s]
  by (auto simp: block_ip_prog_def unblock_ip_prog_def block_port_prog_def unblock_port_prog_def
      B.presence_attached Po.presence_attached split: sum.split
      intro!: stepwise_mapped mip.stepwise_insert mip.stepwise_remove mport.stepwise_insert mport.stepwise_remove
        one_entry_tables)

lemma small_clears:
  assumes "maps_ok m"
  shows "small (clear_ip_prog fw) m" "small (clear_port_prog fw) m"
  using assms
  by (auto simp: clear_ip_prog_def clear_port_prog_def B.presence_attached Po.presence_attached
      intro!: stepwise_mapped mip.stepwise_clear mport.stepwise_clear one_entry_tables)

lemma small_set_default: "small (set_default_prog fw s) m"
proof -
  have "one_entry (ctl (gh_view G w)) (ctl (gh_view G w'))"
    if "ConfigManager_SetDefaultPolicy (fw_configMgr fw) p w = (w', e)" for p w w' e
    using Cf.SetDefaultPolicy_effect [OF that] by (fastforce simp: one_entry_def)
  then show ?thesis
    by (auto simp: set_default_prog_def intro!: stepwise_mapped stepwise_call split: sum.split)
qed

lemma small_clear_all:
  assumes "maps_ok m"
  shows "small (clear_all_prog fw) m"
proof -
  let ?rest = "\<lambda>e. case e of Some err \<Rightarrow> Return (Some err)
      | None \<Rightarrow> andthen (clear_port_prog fw) (\<lambda>e. case e of Some err \<Rightarrow> Return (Some err) | None \<Rightarrow> clear_ct_prog fw)"
  have "small (clear_ct_prog fw) m2" for m2
    by (rule stepwise_framed [OF framed_ct(1) one_entry_refl])
  then have "small (?rest e) m1" if "maps_ok m1" for e m1
    using small_clears(2) [OF that] by (cases e) (auto intro!: stepwise_andthen split: option.split)
  then have "awp (clear_ip_prog fw) (\<lambda>e m1. small (?rest e) m1) m"
    by (rule wp_mono [OF awp_clear_ip [OF assms]])
  from stepwise_then [OF small_clears(1) [OF assms] this] show ?thesis unfolding clear_all_prog_def .
qed

lemma stepwise_if: "stepwise view R p m \<Longrightarrow> stepwise view R q m \<Longrightarrow> stepwise view R (if c then p else q) m"
  by simp

lemma small_handle:
  assumes "maps_ok m"
  shows "small (handle_prog srv fw req) m"
proof -
  have reads: "small (list_rules_prog fw) m" "small (list_ports_prog fw) m" "small (list_ct_prog fw) m"
      "small (status_prog srv fw) m" "small (slots_prog (fw_counterMgr fw) n i stats) m" for n i stats
    by (rule stepwise_framed [OF _ one_entry_refl], simp add: framed_reads framed_slots)+
  have writes: "small (block_prog fw req) m" "small (unblock_prog fw req) m"
    unfolding block_prog_def unblock_prog_def wrapping_def
    by (auto intro!: stepwise_if stepwise_mapped small_tables split: sum.split)
  show ?thesis
    unfolding handle_prog_def Let_def
    by (intro stepwise_if stepwise_mapped writes small_set_default small_clear_all [OF assms] reads) simp
qed

lemma micro_step_small:
  assumes "micro_step G fw srv c s s'" "micro_ok s"
    "\<forall>p. mi_request s = Some p \<longrightarrow> small p (ctl (gh_view G (mi_world s)))"
  shows "one_entry (ctl (gh_view G (mi_world s))) (ctl (gh_view G (mi_world s'))) \<and>
    (\<forall>p. mi_request s' = Some p \<longrightarrow> small p (ctl (gh_view G (mi_world s'))))"
  using assms(1)
proof cases
  case (receive req)
  have "maps_ok (ctl (gh_view G (mi_world s)))" using assms(2) by (simp add: micro_ok_def)
  with receive small_handle [of "ctl (gh_view G (mi_world s))" srv req] show ?thesis
    by (simp add: one_entry_refl)
next
  case (packet env w' pkt)
  then show ?thesis
    using packet_ctl [of "gh_view G (mi_world s)"] assms(2,3) by (simp add: micro_ok_def one_entry_refl)
qed (use assms(2,3) in \<open>auto simp: micro_ok_def one_entry_refl\<close>)

lemma micro_steps_small:
  assumes "(micro_step G fw srv c)\<^sup>*\<^sup>* (idle_state w0) s" "maps_ok (gh_view G w0)"
  shows "\<forall>p. mi_request s = Some p \<longrightarrow> small p (ctl (gh_view G (mi_world s)))"
  using assms(1)
proof (induction rule: rtranclp_induct)
  case (step t u)
  with micro_step_small micro_reachable_ok(1) [OF step(1) assms(2)] show ?case by blast
qed (simp add: idle_state_def)

lemma micro_one_entry:
  assumes "(micro_step G fw srv c)\<^sup>*\<^sup>* (idle_state w0) s" "maps_ok (gh_view G w0)" "micro_step G fw srv c s s'"
  shows "one_entry (ctl (gh_view G (mi_world s))) (ctl (gh_view G (mi_world s')))"
  using micro_step_small [OF assms(3) micro_reachable_ok(1) micro_steps_small] assms(1,2) by blast

end

text \<open>Everything but the calls of the server.\<close>

definition aside ::
    "('w, 'i) fw_ghost \<Rightarrow> ('w, 'i, 'l) Firewall \<Rightarrow> ('w, 'n) Server \<Rightarrow> u64 \<Rightarrow> 'w micro \<Rightarrow> 'w micro \<Rightarrow> bool"
where
  "aside G fw srv ctTimeout s s' \<longleftrightarrow> micro_step G fw srv ctTimeout s s' \<and>
     \<not> (\<exists>f k. mi_request s = Some (Atom f k) \<and>
          s' = s\<lparr>mi_world := f (mi_world s), mi_request := Some (k (mi_world s))\<rparr>)"

lemma aside_steps: "(aside G fw srv c)\<^sup>*\<^sup>* s s' \<Longrightarrow> (micro_step G fw srv c)\<^sup>*\<^sup>* s s'"
  by (erule rtranclp_mono [THEN predicate2D, rotated]) (auto simp: aside_def)

context firewall_env
begin

lemma aside_ctl:
  assumes "aside G fw srv c s s'" "micro_ok s"
  shows "ctl (gh_view G (mi_world s')) = ctl (gh_view G (mi_world s))"
proof -
  from assms(1) have st: "micro_step G fw srv c s s'" by (simp add: aside_def)
  then show ?thesis
  proof cases
    case (packet env w' pkt)
    then show ?thesis using packet_ctl [of "gh_view G (mi_world s)"] assms(2) by (simp add: micro_ok_def)
  qed (use assms in \<open>auto simp: micro_ok_def aside_def\<close>)
qed

lemma asides_ctl:
  assumes "(aside G fw srv c)\<^sup>*\<^sup>* s s'" "micro_ok s"
  shows "micro_ok s' \<and> ctl (gh_view G (mi_world s')) = ctl (gh_view G (mi_world s))"
  using assms
proof (induction rule: rtranclp_induct)
  case (step t u)
  then show ?case using aside_ctl [of srv c t u] micro_step_ok [of srv c t u] by (simp add: aside_def)
qed simp

end

end
