(* ===== verification/Layout.thy ===== *)
theory Layout
  imports Values
begin

text \<open>
  The bytes behind the keys and values of the maps. The kernel compares the keys of a hash map byte
  by byte, so the C structs of \<open>bpf/maps.h\<close> and the Go structs of \<open>firewall_bpf.go\<close> and \<open>values.go\<close> must
  have the same image, padding included. On the C side a struct lies in memory by the alignment
  rules of the ABI, over whatever the stack held; on the Go side the marshaller writes the fields
  one after the other, blank ones as zeroes. Both sides are little-endian here, as the decoders of
  the control plane are.
\<close>

section \<open>Memory\<close>

type_synonym bytes = "u8 list"

definition le_bytes :: "nat \<Rightarrow> nat \<Rightarrow> bytes" where
  "le_bytes n x = map (\<lambda>i. of_nat (x div 256 ^ i mod 256)) [0..<n]"

definition store_at :: "nat \<Rightarrow> bytes \<Rightarrow> bytes \<Rightarrow> bytes" where
  "store_at off bs mem = take off mem @ bs @ drop (off + length bs) mem"

fun le_value :: "bytes \<Rightarrow> nat" where
  "le_value [] = 0"
| "le_value (b # bs) = unat b + 256 * le_value bs"

definition load_at :: "nat \<Rightarrow> nat \<Rightarrow> bytes \<Rightarrow> nat" where
  "load_at off n mem = le_value (take n (drop off mem))"

text \<open>A C member: its size, which is also its alignment unless it is an array of bytes.\<close>

datatype c_member = CInt nat | CPad nat

fun member_bytes :: "c_member \<Rightarrow> nat" where
  "member_bytes (CInt n) = n"
| "member_bytes (CPad n) = n"

fun member_align :: "c_member \<Rightarrow> nat" where
  "member_align (CInt n) = n"
| "member_align (CPad n) = 1"

definition align_up :: "nat \<Rightarrow> nat \<Rightarrow> nat" where
  "align_up off a = (off + a - 1) div a * a"

fun offsets_from :: "nat \<Rightarrow> c_member list \<Rightarrow> nat list" where
  "offsets_from off [] = []"
| "offsets_from off (m # ms) =
     (let o' = align_up off (member_align m) in o' # offsets_from (o' + member_bytes m) ms)"

fun end_from :: "nat \<Rightarrow> c_member list \<Rightarrow> nat" where
  "end_from off [] = off"
| "end_from off (m # ms) = end_from (align_up off (member_align m) + member_bytes m) ms"

definition c_sizeof :: "c_member list \<Rightarrow> nat" where
  "c_sizeof ms = align_up (end_from 0 ms) (fold max (map member_align ms) 1)"

text \<open>Assigning the members one by one, in memory that holds something already.\<close>

fun assign :: "(nat \<times> nat \<times> nat) list \<Rightarrow> bytes \<Rightarrow> bytes" where
  "assign [] mem = mem"
| "assign ((off, n, x) # as) mem = assign as (store_at off (le_bytes n x) mem)"

definition memset0 :: "bytes \<Rightarrow> bytes" where
  "memset0 mem = map (\<lambda>_. 0) mem"

text \<open>The members' offsets, widths and values; reading them all.\<close>

definition members :: "c_member list \<Rightarrow> nat list \<Rightarrow> (nat \<times> nat \<times> nat) list" where
  "members ms xs = zip (offsets_from 0 ms) (zip (map member_bytes ms) xs)"

definition c_read :: "c_member list \<Rightarrow> bytes \<Rightarrow> nat list" where
  "c_read ms mem = map (\<lambda>(off, n). load_at off n mem) (zip (offsets_from 0 ms) (map member_bytes ms))"

text \<open>A struct on the stack, whose memory holds whatever \<open>stack\<close> says.\<close>

definition on_stack :: "c_member list \<Rightarrow> (nat \<Rightarrow> u8) \<Rightarrow> bytes" where
  "on_stack ms stack = map stack [0..<c_sizeof ms]"

section \<open>The structs of \<open>bpf/maps.h\<close>\<close>

definition c_rule_value :: "c_member list" where "c_rule_value = [CInt 4, CInt 4]"

definition c_ipv4_lpm_key :: "c_member list" where "c_ipv4_lpm_key = [CInt 4, CInt 4]"

definition c_counter_value :: "c_member list" where "c_counter_value = [CInt 8, CInt 8]"

definition c_port_rule_key :: "c_member list" where "c_port_rule_key = [CInt 1, CInt 2, CInt 2, CInt 4]"

definition c_ct_key :: "c_member list" where "c_ct_key = [CInt 4, CInt 4, CInt 2, CInt 2, CInt 1, CPad 3]"

definition c_ct_value :: "c_member list" where "c_ct_value = [CInt 8, CInt 4, CInt 4]"

text \<open>The keys and the value as the program builds them: \<open>port_rule_action\<close> and \<open>ct_build_key\<close> clear the
  struct before they assign to it, \<open>struct ct_value nv = {}\<close> starts from zeroes, \<open>ip_block_action\<close>
  initialises all of its key.\<close>

definition c_port_key_image :: "firewallPortRuleKey \<Rightarrow> (nat \<Rightarrow> u8) \<Rightarrow> bytes" where
  "c_port_key_image k stack =
     assign (members c_port_rule_key [unat (pk_Protocol k), unat (pk_Dport k), unat (pk_Sport k), unat (pk_Dst k)])
       (memset0 (on_stack c_port_rule_key stack))"

definition c_ct_key_image :: "ctKey \<Rightarrow> (nat \<Rightarrow> u8) \<Rightarrow> bytes" where
  "c_ct_key_image k stack =
     assign (members c_ct_key
         [unat (ck_Saddr k), unat (ck_Daddr k), unat (ck_Sport k), unat (ck_Dport k), unat (ck_Protocol k)])
       (memset0 (on_stack c_ct_key stack))"

definition c_ct_value_image :: "ctValue \<Rightarrow> (nat \<Rightarrow> u8) \<Rightarrow> bytes" where
  "c_ct_value_image v stack =
     assign (members c_ct_value [unat (cv_LastSeen v), unat (cv_State v)]) (memset0 (on_stack c_ct_value stack))"

definition c_lpm_key_image :: "firewallIpv4LpmKey \<Rightarrow> (nat \<Rightarrow> u8) \<Rightarrow> bytes" where
  "c_lpm_key_image k stack =
     assign (members c_ipv4_lpm_key [unat (lk_Prefixlen k), unat (lk_Data k)]) (on_stack c_ipv4_lpm_key stack)"

section \<open>The structs of the Go side\<close>

text \<open>A Go struct is marshalled field by field; \<open>go_blank\<close> is a field named \<open>_\<close>.\<close>

definition go_field :: "('n :: len) word \<Rightarrow> bytes" where
  "go_field x = le_bytes (LENGTH('n) div 8) (unat x)"

definition go_blank :: "nat \<Rightarrow> bytes" where
  "go_blank n = replicate n 0"

definition go_firewallRuleValue :: "ruleValue \<Rightarrow> bytes" where
  "go_firewallRuleValue v = go_field (rv_Action v) @ go_field (rv_Priority v)"

definition go_firewallIpv4LpmKey :: "firewallIpv4LpmKey \<Rightarrow> bytes" where
  "go_firewallIpv4LpmKey k = go_field (lk_Prefixlen k) @ go_field (lk_Data k)"

definition go_firewallCounterValue :: "counterValue \<Rightarrow> bytes" where
  "go_firewallCounterValue v = go_field (cnt_Packets v) @ go_field (cnt_Bytes v)"

definition go_firewallPortRuleKey :: "firewallPortRuleKey \<Rightarrow> bytes" where
  "go_firewallPortRuleKey k =
     go_field (pk_Protocol k) @ go_blank 1 @ go_field (pk_Dport k) @ go_field (pk_Sport k) @ go_blank 2 @
     go_field (pk_Dst k)"

definition go_ctKey :: "ctKey \<Rightarrow> bytes" where
  "go_ctKey k =
     go_field (ck_Saddr k) @ go_field (ck_Daddr k) @ go_field (ck_Sport k) @ go_field (ck_Dport k) @
     go_field (ck_Protocol k) @ go_blank 3"

definition go_ctValue :: "ctValue \<Rightarrow> bytes" where
  "go_ctValue v = go_field (cv_LastSeen v) @ go_field (cv_State v) @ go_blank 4"

text \<open>The bindings also generate types for the conntrack map, with the padding as named fields; the control
  plane declares its own, with blank ones.\<close>

record firewallCtKey =
  gk_Saddr :: u32
  gk_Daddr :: u32
  gk_Sport :: u16
  gk_Dport :: u16
  gk_Protocol :: u8
  gk_Pad :: "u8 \<times> u8 \<times> u8"

record firewallCtValue =
  gv_LastSeen :: u64
  gv_State :: u32
  gv_Pad :: u32

definition go_firewallCtKey :: "firewallCtKey \<Rightarrow> bytes" where
  "go_firewallCtKey k =
     go_field (gk_Saddr k) @ go_field (gk_Daddr k) @ go_field (gk_Sport k) @ go_field (gk_Dport k) @
     go_field (gk_Protocol k) @ (case gk_Pad k of (a, b, c) \<Rightarrow> go_field a @ go_field b @ go_field c)"

definition go_firewallCtValue :: "firewallCtValue \<Rightarrow> bytes" where
  "go_firewallCtValue v = go_field (gv_LastSeen v) @ go_field (gv_State v) @ go_field (gv_Pad v)"

section \<open>The same bytes\<close>

lemma le_bytes_length [simp]: "length (le_bytes n x) = n"
  by (simp add: le_bytes_def)

lemma go_field_length [simp]: "length (go_field (x :: 'n::len word)) = LENGTH('n) div 8"
  by (simp add: go_field_def)

lemma c_layouts:
  "offsets_from 0 c_rule_value = [0, 4]" "c_sizeof c_rule_value = 8"
  "offsets_from 0 c_ipv4_lpm_key = [0, 4]" "c_sizeof c_ipv4_lpm_key = 8"
  "offsets_from 0 c_counter_value = [0, 8]" "c_sizeof c_counter_value = 16"
  "offsets_from 0 c_port_rule_key = [0, 2, 4, 8]" "c_sizeof c_port_rule_key = 12"
  "offsets_from 0 c_ct_key = [0, 4, 8, 10, 12, 13]" "c_sizeof c_ct_key = 16"
  "offsets_from 0 c_ct_value = [0, 8, 12]" "c_sizeof c_ct_value = 16"
  by code_simp+

lemma zeroed: "memset0 (on_stack ms stack) = replicate (c_sizeof ms) 0"
  by (simp add: memset0_def on_stack_def map_replicate_const comp_def)

lemma le_bytes_0: "le_bytes n 0 = replicate n 0"
  by (simp add: le_bytes_def map_replicate_const)

lemma members_simps:
  "members c_port_rule_key [a, b, c, d] = [(0, 1, a), (2, 2, b), (4, 2, c), (8, 4, d)]"
  "members c_ct_key [a, b, c, d, e] = [(0, 4, a), (4, 4, b), (8, 2, c), (10, 2, d), (12, 1, e)]"
  "members c_ct_value [a, b] = [(0, 8, a), (8, 4, b)]"
  "members c_ipv4_lpm_key [a, b] = [(0, 4, a), (4, 4, b)]"
  unfolding members_def c_layouts
  by (simp_all add: c_port_rule_key_def c_ct_key_def c_ct_value_def c_ipv4_lpm_key_def)

text \<open>Whatever the stack held, the program builds the bytes the control plane marshals.\<close>

lemma c_images:
  "c_port_key_image k stack = go_firewallPortRuleKey k"
  "c_ct_key_image c stack = go_ctKey c"
  "c_ct_value_image v stack = go_ctValue v"
  "c_lpm_key_image l stack = go_firewallIpv4LpmKey l"
proof -
  show "c_lpm_key_image l stack = go_firewallIpv4LpmKey l"
    by (simp add: c_lpm_key_image_def go_firewallIpv4LpmKey_def members_simps on_stack_def c_layouts store_at_def
        go_field_def)
qed (simp_all add: c_port_key_image_def go_firewallPortRuleKey_def c_ct_key_image_def go_ctKey_def
      c_ct_value_image_def go_ctValue_def members_simps zeroed c_layouts store_at_def go_field_def go_blank_def)

text \<open>The program reads from the bytes of the control plane what was written to them.\<close>

lemma le_value_bytes: "x < 256 ^ n \<Longrightarrow> le_value (le_bytes n x) = x"
proof (induction n arbitrary: x)
  case (Suc n)
  have "le_bytes (Suc n) x = of_nat (x mod 256) # le_bytes n (x div 256)"
    by (simp add: le_bytes_def upt_conv_Cons map_Suc_upt [symmetric] div_mult2_eq del: upt_Suc)
  moreover have "x div 256 < 256 ^ n" using Suc.prems by (simp add: less_mult_imp_div_less mult.commute)
  ultimately show ?case using Suc.IH by (simp add: unat_of_nat)
qed (simp add: le_bytes_def)

lemma le_value_field:
  assumes "8 dvd LENGTH('n)"
  shows "le_value (go_field (x :: 'n::len word)) = unat x"
proof -
  have "(256 :: nat) ^ (LENGTH('n) div 8) = 2 ^ (8 * (LENGTH('n) div 8))" by (simp add: power_mult)
  moreover have "unat x < 2 ^ LENGTH('n)" by (rule unsigned_less)
  ultimately have "unat x < 256 ^ (LENGTH('n) div 8)" using assms by simp
  then show ?thesis by (simp add: go_field_def le_value_bytes)
qed

lemma c_read_images:
  "c_read c_rule_value (go_firewallRuleValue v) = [unat (rv_Action v), unat (rv_Priority v)]"
  "c_read c_counter_value (go_firewallCounterValue n) = [unat (cnt_Packets n), unat (cnt_Bytes n)]"
  "c_read c_ipv4_lpm_key (go_firewallIpv4LpmKey l) = [unat (lk_Prefixlen l), unat (lk_Data l)]"
  "c_read c_port_rule_key (go_firewallPortRuleKey k) =
     [unat (pk_Protocol k), unat (pk_Dport k), unat (pk_Sport k), unat (pk_Dst k)]"
  "c_read c_ct_key (go_ctKey c) =
     [unat (ck_Saddr c), unat (ck_Daddr c), unat (ck_Sport c), unat (ck_Dport c), unat (ck_Protocol c), 0]"
  "c_read c_ct_value (go_ctValue t) = [unat (cv_LastSeen t), unat (cv_State t), 0]"
proof -
  have blank: "le_value (replicate n 0) = 0" for n by (induction n) simp_all
  show "c_read c_rule_value (go_firewallRuleValue v) = [unat (rv_Action v), unat (rv_Priority v)]"
    by (simp add: c_read_def c_layouts) (simp add: c_rule_value_def load_at_def go_firewallRuleValue_def le_value_field)
  show "c_read c_counter_value (go_firewallCounterValue n) = [unat (cnt_Packets n), unat (cnt_Bytes n)]"
    by (simp add: c_read_def c_layouts) (simp add: c_counter_value_def load_at_def go_firewallCounterValue_def le_value_field)
  show "c_read c_ipv4_lpm_key (go_firewallIpv4LpmKey l) = [unat (lk_Prefixlen l), unat (lk_Data l)]"
    by (simp add: c_read_def c_layouts) (simp add: c_ipv4_lpm_key_def load_at_def go_firewallIpv4LpmKey_def le_value_field)
  show "c_read c_port_rule_key (go_firewallPortRuleKey k) =
     [unat (pk_Protocol k), unat (pk_Dport k), unat (pk_Sport k), unat (pk_Dst k)]"
    by (simp add: c_read_def c_layouts)
      (simp add: c_port_rule_key_def load_at_def go_firewallPortRuleKey_def go_blank_def le_value_field)
  show "c_read c_ct_key (go_ctKey c) =
     [unat (ck_Saddr c), unat (ck_Daddr c), unat (ck_Sport c), unat (ck_Dport c), unat (ck_Protocol c), 0]"
    by (simp add: c_read_def c_layouts)
      (simp add: c_ct_key_def load_at_def go_ctKey_def go_blank_def le_value_field blank)
  show "c_read c_ct_value (go_ctValue t) = [unat (cv_LastSeen t), unat (cv_State t), 0]"
    by (simp add: c_read_def c_layouts)
      (simp add: c_ct_value_def load_at_def go_ctValue_def go_blank_def le_value_field blank)
qed

text \<open>The bytes determine the record, so a map keyed by bytes is a map keyed by records.\<close>

lemma unat_inject: "unat x = unat y \<longleftrightarrow> x = y"
  by (rule word_unat_eq_iff [symmetric])

lemma go_images_inj:
  "go_firewallRuleValue v = go_firewallRuleValue v' \<longleftrightarrow> v = v'"
  "go_firewallCounterValue n = go_firewallCounterValue n' \<longleftrightarrow> n = n'"
  "go_firewallIpv4LpmKey l = go_firewallIpv4LpmKey l' \<longleftrightarrow> l = l'"
  "go_firewallPortRuleKey k = go_firewallPortRuleKey k' \<longleftrightarrow> k = k'"
  "go_ctKey c = go_ctKey c' \<longleftrightarrow> c = c'"
  "go_ctValue t = go_ctValue t' \<longleftrightarrow> t = t'"
proof -
  note r = c_read_images
  show "go_firewallRuleValue v = go_firewallRuleValue v' \<longleftrightarrow> v = v'"
    using r(1) [of v] r(1) [of v'] by (auto intro!: ruleValue.equality simp: unat_inject)
  show "go_firewallCounterValue n = go_firewallCounterValue n' \<longleftrightarrow> n = n'"
    using r(2) [of n] r(2) [of n'] by (auto intro!: counterValue.equality simp: unat_inject)
  show "go_firewallIpv4LpmKey l = go_firewallIpv4LpmKey l' \<longleftrightarrow> l = l'"
    using r(3) [of l] r(3) [of l'] by (auto intro!: firewallIpv4LpmKey.equality simp: unat_inject)
  show "go_firewallPortRuleKey k = go_firewallPortRuleKey k' \<longleftrightarrow> k = k'"
    using r(4) [of k] r(4) [of k'] by (auto intro!: firewallPortRuleKey.equality simp: unat_inject)
  show "go_ctKey c = go_ctKey c' \<longleftrightarrow> c = c'"
    using r(5) [of c] r(5) [of c'] by (auto intro!: ctKey.equality simp: unat_inject)
  show "go_ctValue t = go_ctValue t' \<longleftrightarrow> t = t'"
    using r(6) [of t] r(6) [of t'] by (auto intro!: ctValue.equality simp: unat_inject)
qed

text \<open>A generated key is one of the control plane's exactly when its padding is clear.\<close>

lemma blank_bytes: "go_field a @ go_field b @ go_field c = go_blank 3 \<longleftrightarrow> (a, b, c) = (0 :: u8, 0 :: u8, 0 :: u8)"
proof -
  have "go_field (x :: u8) = [x]" for x by (simp add: go_field_def le_bytes_def unsigned_less [of x, simplified])
  then show ?thesis by (simp add: go_blank_def numeral_3_eq_3)
qed

lemma generated_ct_key:
  "go_firewallCtKey g = go_ctKey k \<longleftrightarrow>
    k = \<lparr>ck_Saddr = gk_Saddr g, ck_Daddr = gk_Daddr g, ck_Sport = gk_Sport g, ck_Dport = gk_Dport g,
      ck_Protocol = gk_Protocol g\<rparr> \<and> gk_Pad g = (0, 0, 0)"
proof -
  define fields where "fields = (\<lambda>k :: ctKey. go_field (ck_Saddr k) @ go_field (ck_Daddr k) @ go_field (ck_Sport k) @
    go_field (ck_Dport k) @ go_field (ck_Protocol k))"
  let ?k = "\<lparr>ck_Saddr = gk_Saddr g, ck_Daddr = gk_Daddr g, ck_Sport = gk_Sport g, ck_Dport = gk_Dport g,
      ck_Protocol = gk_Protocol g\<rparr>"
  have l: "length (fields c) = 13" for c by (simp add: fields_def)
  have key: "go_ctKey c = fields c @ go_blank 3" for c by (simp add: go_ctKey_def fields_def)
  have "go_firewallCtKey g = fields ?k @ (case gk_Pad g of (a, b, c) \<Rightarrow> go_field a @ go_field b @ go_field c)"
    by (simp add: go_firewallCtKey_def fields_def)
  then have "go_firewallCtKey g = go_ctKey k \<longleftrightarrow> fields k = fields ?k \<and> gk_Pad g = (0, 0, 0)"
    by (cases "gk_Pad g") (auto simp: key l blank_bytes)
  moreover have "fields k = fields ?k \<longleftrightarrow> k = ?k"
    using go_images_inj(5) [of k ?k] by (simp add: key)
  ultimately show ?thesis by blast
qed

lemma generated_ct_value:
  "go_firewallCtValue g = go_ctValue v \<longleftrightarrow>
     v = \<lparr>cv_LastSeen = gv_LastSeen g, cv_State = gv_State g\<rparr> \<and> gv_Pad g = 0"
proof -
  define fields where "fields = (\<lambda>v :: ctValue. go_field (cv_LastSeen v) @ go_field (cv_State v))"
  let ?v = "\<lparr>cv_LastSeen = gv_LastSeen g, cv_State = gv_State g\<rparr>"
  have l: "length (fields t) = 12" for t by (simp add: fields_def)
  have val: "go_ctValue t = fields t @ go_blank 4" for t by (simp add: go_ctValue_def fields_def)
  have pad: "go_field p = go_blank 4 \<longleftrightarrow> p = 0" for p :: u32
    using le_value_field [of p] le_value_field [of "0 :: u32"]
    by (auto simp: go_blank_def go_field_def le_bytes_0 unat_eq_zero)
  have "go_firewallCtValue g = fields ?v @ go_field (gv_Pad g)"
    by (simp add: go_firewallCtValue_def fields_def)
  then have "go_firewallCtValue g = go_ctValue v \<longleftrightarrow> fields v = fields ?v \<and> gv_Pad g = 0"
    using pad by (auto simp: val l)
  moreover have "fields v = fields ?v \<longleftrightarrow> v = ?v"
    using go_images_inj(6) [of v ?v] by (simp add: val)
  ultimately show ?thesis by blast
qed

text \<open>Without the \<open>memset\<close>, what the stack held would be part of the key.\<close>

lemma memset_needed:
  "\<exists>stack. assign (members c_port_rule_key [unat (pk_Protocol k), unat (pk_Dport k), unat (pk_Sport k), unat (pk_Dst k)])
     (on_stack c_port_rule_key stack) \<noteq> go_firewallPortRuleKey k"
proof -
  have "assign (members c_port_rule_key [unat (pk_Protocol k), unat (pk_Dport k), unat (pk_Sport k), unat (pk_Dst k)])
     (on_stack c_port_rule_key (\<lambda>_. 1)) ! 1 = 1"
    by (simp add: members_simps on_stack_def c_layouts store_at_def nth_append map_replicate_const)
  moreover have "go_firewallPortRuleKey k ! 1 = 0"
    by (simp add: go_firewallPortRuleKey_def nth_append go_blank_def)
  ultimately show ?thesis by (metis zero_neq_one)
qed

text \<open>Claim C31: kernel and control plane agree on the bytes. Whatever was on its stack, the program builds for every
  key, and for a new tracked flow, exactly the bytes the control plane marshals, padding included, at
  the size of the C struct; two records have the same bytes only if they are equal; and the
  program reads the action, the priority and the counters back from the bytes of the control plane. The
  conntrack types of the bindings have the bytes of the control plane's own exactly when their padding is clear.\<close>

theorem layouts_agree:
  "c_port_key_image k stack = go_firewallPortRuleKey k \<and> length (go_firewallPortRuleKey k) = c_sizeof c_port_rule_key \<and>
   c_ct_key_image c stack = go_ctKey c \<and> length (go_ctKey c) = c_sizeof c_ct_key \<and>
   c_ct_value_image t stack = go_ctValue t \<and> length (go_ctValue t) = c_sizeof c_ct_value \<and>
   c_lpm_key_image l stack = go_firewallIpv4LpmKey l \<and> length (go_firewallIpv4LpmKey l) = c_sizeof c_ipv4_lpm_key \<and>
   (go_firewallPortRuleKey k = go_firewallPortRuleKey k' \<longleftrightarrow> k = k') \<and> (go_ctKey c = go_ctKey c' \<longleftrightarrow> c = c') \<and>
   (go_firewallIpv4LpmKey l = go_firewallIpv4LpmKey l' \<longleftrightarrow> l = l') \<and>
   c_read c_rule_value (go_firewallRuleValue v) = [unat (rv_Action v), unat (rv_Priority v)] \<and>
   c_read c_counter_value (go_firewallCounterValue n) = [unat (cnt_Packets n), unat (cnt_Bytes n)] \<and>
   (go_firewallCtKey g = go_ctKey c \<longleftrightarrow>
      c = \<lparr>ck_Saddr = gk_Saddr g, ck_Daddr = gk_Daddr g, ck_Sport = gk_Sport g, ck_Dport = gk_Dport g,
        ck_Protocol = gk_Protocol g\<rparr> \<and> gk_Pad g = (0, 0, 0)) \<and>
   (go_firewallCtValue u = go_ctValue t \<longleftrightarrow>
      t = \<lparr>cv_LastSeen = gv_LastSeen u, cv_State = gv_State u\<rparr> \<and> gv_Pad u = 0)"
  by (simp add: c_images go_images_inj c_read_images c_layouts generated_ct_key generated_ct_value)
    (simp add: go_firewallPortRuleKey_def go_ctKey_def go_ctValue_def go_firewallIpv4LpmKey_def go_blank_def)

end
