(* ===== verification/MapDecls.thy ===== *)
theory MapDecls
  imports Layout Micro
begin

text \<open>
  The maps as they are declared: the anonymous structs of \<open>bpf/maps.h\<close> in the section \<open>.maps\<close>, from
  which the loader creates them, and the names under which \<open>firewall_bpf.go\<close> asks for them. The
  loader takes the two together: it looks every name of a Go struct up in the object file.
\<close>

section \<open>The declarations of \<open>bpf/maps.h\<close>\<close>

datatype map_type = BPF_MAP_TYPE_ARRAY | BPF_MAP_TYPE_HASH | BPF_MAP_TYPE_LPM_TRIE

record map_spec =
  ms_type :: map_type
  ms_key :: "c_member list"
  ms_value :: "c_member list"
  ms_max_entries :: nat
  ms_map_flags :: u32

definition BPF_F_NO_PREALLOC :: u32 where "BPF_F_NO_PREALLOC = 1"

definition c_u32 :: "c_member list" where "c_u32 = [CInt 4]"

definition decl_firewall_config :: map_spec where
  "decl_firewall_config =
     \<lparr>ms_type = BPF_MAP_TYPE_ARRAY, ms_key = c_u32, ms_value = c_u32, ms_max_entries = 1, ms_map_flags = 0\<rparr>"

definition decl_blocked_ips :: map_spec where
  "decl_blocked_ips =
     \<lparr>ms_type = BPF_MAP_TYPE_LPM_TRIE, ms_key = c_ipv4_lpm_key, ms_value = c_rule_value,
      ms_max_entries = 65535, ms_map_flags = BPF_F_NO_PREALLOC\<rparr>"

definition decl_counters :: map_spec where
  "decl_counters =
     \<lparr>ms_type = BPF_MAP_TYPE_ARRAY, ms_key = c_u32, ms_value = c_counter_value, ms_max_entries = 3,
      ms_map_flags = 0\<rparr>"

definition decl_rule_presence :: map_spec where
  "decl_rule_presence =
     \<lparr>ms_type = BPF_MAP_TYPE_ARRAY, ms_key = c_u32, ms_value = c_u32, ms_max_entries = 1, ms_map_flags = 0\<rparr>"

definition decl_port_policy :: map_spec where
  "decl_port_policy =
     \<lparr>ms_type = BPF_MAP_TYPE_HASH, ms_key = c_port_rule_key, ms_value = c_rule_value,
      ms_max_entries = 65535, ms_map_flags = 0\<rparr>"

definition decl_conntrack :: map_spec where
  "decl_conntrack =
     \<lparr>ms_type = BPF_MAP_TYPE_HASH, ms_key = c_ct_key, ms_value = c_ct_value, ms_max_entries = 65536,
      ms_map_flags = 0\<rparr>"

text \<open>The object file: its maps by name, and its programs.\<close>

definition object_maps :: "(string \<times> map_spec) list" where
  "object_maps =
     [(''firewall_config'', decl_firewall_config), (''blocked_ips'', decl_blocked_ips),
      (''counters'', decl_counters), (''rule_presence'', decl_rule_presence),
      (''port_policy'', decl_port_policy), (''conntrack'', decl_conntrack)]"

definition object_programs :: "string list" where
  "object_programs = [''firewall_prog'']"

section \<open>The names of \<open>firewall_bpf.go\<close>\<close>

definition firewallMapBlockedIps :: string where "firewallMapBlockedIps = ''blocked_ips''"
definition firewallMapConntrack :: string where "firewallMapConntrack = ''conntrack''"
definition firewallMapCounters :: string where "firewallMapCounters = ''counters''"
definition firewallMapFirewallConfig :: string where "firewallMapFirewallConfig = ''firewall_config''"
definition firewallMapPortPolicy :: string where "firewallMapPortPolicy = ''port_policy''"
definition firewallMapRulePresence :: string where "firewallMapRulePresence = ''rule_presence''"
definition firewallProgFirewallProg :: string where "firewallProgFirewallProg = ''firewall_prog''"

text \<open>The fields of the generated structs with their tags, in the order of the code.\<close>

definition firewallMapSpecs_tags :: "(string \<times> string) list" where
  "firewallMapSpecs_tags =
     [(''BlockedIps'', ''blocked_ips''), (''Conntrack'', ''conntrack''), (''Counters'', ''counters''),
      (''FirewallConfig'', ''firewall_config''), (''PortPolicy'', ''port_policy''),
      (''RulePresence'', ''rule_presence'')]"

definition firewallMaps_tags :: "(string \<times> string) list" where
  "firewallMaps_tags =
     [(''BlockedIps'', ''blocked_ips''), (''Conntrack'', ''conntrack''), (''Counters'', ''counters''),
      (''FirewallConfig'', ''firewall_config''), (''PortPolicy'', ''port_policy''),
      (''RulePresence'', ''rule_presence'')]"

definition firewallProgramSpecs_tags :: "(string \<times> string) list" where
  "firewallProgramSpecs_tags = [(''FirewallProg'', ''firewall_prog'')]"

definition firewallPrograms_tags :: "(string \<times> string) list" where
  "firewallPrograms_tags = [(''FirewallProg'', ''firewall_prog'')]"

text \<open>Every field finds its object, no two the same, and no object of the file is left out.\<close>

lemma tags_resolve:
  "set (map snd firewallMaps_tags) = set (map fst object_maps)" "distinct (map snd firewallMaps_tags)"
  "distinct (map fst object_maps)" "firewallMapSpecs_tags = firewallMaps_tags"
  "map snd firewallPrograms_tags = object_programs" "firewallProgramSpecs_tags = firewallPrograms_tags"
  "map snd firewallMaps_tags =
     [firewallMapBlockedIps, firewallMapConntrack, firewallMapCounters, firewallMapFirewallConfig,
      firewallMapPortPolicy, firewallMapRulePresence]"
  "map snd firewallPrograms_tags = [firewallProgFirewallProg]"
  by (auto simp: firewallMaps_tags_def firewallMapSpecs_tags_def firewallPrograms_tags_def
      firewallProgramSpecs_tags_def object_maps_def object_programs_def firewallMapBlockedIps_def
      firewallMapConntrack_def firewallMapCounters_def firewallMapFirewallConfig_def
      firewallMapPortPolicy_def firewallMapRulePresence_def firewallProgFirewallProg_def)

section \<open>What both sides rely on\<close>

text \<open>A value marshalled for a map has the size the map was created with; a map accepts no other.\<close>

lemma marshalled_sizes:
  "length (go_firewallIpv4LpmKey l) = c_sizeof (ms_key decl_blocked_ips)"
  "length (go_firewallPortRuleKey p) = c_sizeof (ms_key decl_port_policy)"
  "length (go_firewallRuleValue v) = c_sizeof (ms_value decl_blocked_ips)"
  "length (go_firewallRuleValue v) = c_sizeof (ms_value decl_port_policy)"
  "length (go_ctKey c) = c_sizeof (ms_key decl_conntrack)"
  "length (go_ctValue t) = c_sizeof (ms_value decl_conntrack)"
  "length (go_firewallCounterValue n) = c_sizeof (ms_value decl_counters)"
  "length (go_field (x :: u32)) = c_sizeof c_u32"
  "{ms_key decl_firewall_config, ms_key decl_counters, ms_key decl_rule_presence,
    ms_value decl_firewall_config, ms_value decl_rule_presence} = {c_u32}"
proof -
  have "c_sizeof c_u32 = 4" by code_simp
  then show "length (go_field (x :: u32)) = c_sizeof c_u32" by simp
qed (simp_all add: decl_blocked_ips_def decl_port_policy_def decl_conntrack_def decl_counters_def
      decl_firewall_config_def decl_rule_presence_def c_layouts go_firewallIpv4LpmKey_def
      go_firewallPortRuleKey_def go_firewallRuleValue_def go_ctKey_def go_ctValue_def
      go_firewallCounterValue_def go_blank_def)

text \<open>The entries of the arrays that either side names exist.\<close>

lemma array_indices:
  "unat configKey < ms_max_entries decl_firewall_config"
  "unat presenceMapKey < ms_max_entries decl_rule_presence"
  "{unat counterTotal, unat counterDrop, unat counterPass} = {0..<ms_max_entries decl_counters}"
  "ms_max_entries decl_counters = counterMax"
  by (auto simp: configKey_def presenceMapKey_def decl_firewall_config_def decl_rule_presence_def
      decl_counters_def counter_idx_defs counterMax_def)

text \<open>A firewall whose handles report the sizes of the declarations makes at most so many calls.\<close>

definition declared_sizes :: "('w, 'i, 'l) Firewall \<Rightarrow> bool" where
  "declared_sizes fw \<longleftrightarrow>
     m_max_entries (mm_blockedIps (fw_mgr fw)) = ms_max_entries decl_blocked_ips \<and>
     m_max_entries (pp_portPolicy (fw_portPolicyMgr fw)) = ms_max_entries decl_port_policy \<and>
     m_max_entries (ct_conntrack (fw_ctMgr fw)) = ms_max_entries decl_conntrack"

lemma declared_calls:
  "declared_sizes fw \<Longrightarrow> request_calls fw = 393233" "declared_sizes fw \<Longrightarrow> reap_calls fw = 131078"
  by (simp_all add: declared_sizes_def request_calls_def reap_calls_def decl_blocked_ips_def
      decl_port_policy_def decl_conntrack_def)

end
