(* ===== verification/ConcurrencyProps.thy ===== *)
theory ConcurrencyProps
  imports Lookups Examples MapDecls
begin

text \<open>
  Properties of the running daemon at the level of single map calls, with their witnesses on the
  reference kernel: requests, packets and the reaper interleaved in any order.
\<close>

interpretation ref_micro_ip: micro_table kernel_maps blocked_ips "\<lambda>c m. m\<lparr>blocked_ips := c\<rparr>" lpm_ref canon_key
    lpm_fits it_ip "mm_blockedIps (fw_mgr ref_fw)" it_idx "fw_presence ref_fw" rulePresenceIP maps_ok
    canon_key rule_ok
  using ref.mip.micro_table_axioms by simp

interpretation ref_micro_port: micro_table kernel_maps port_policy "\<lambda>c m. m\<lparr>port_policy := c\<rparr>" "\<lambda>c k. c k"
    "\<lambda>_. True" "\<lambda>_. True" it_port "pp_portPolicy (fw_portPolicyMgr ref_fw)" it_idx "fw_presence ref_fw"
    rulePresencePort maps_ok port_key_ok rule_ok
  using ref.mport.micro_table_axioms by simp

section \<open>A request and its calls\<close>

text \<open>Claim C12: no request runs for ever. Whatever packets and the reaper do to the maps between its
  calls, a request makes at most \<open>request_calls\<close> of them, a number of the sizes of the maps, and a tick
  of the reaper at most \<open>reap_calls\<close>: 393233 and 131078 for the maps \<open>bpf/maps.h\<close> declares.\<close>

theorem requests_terminate:
  "bounded (handle_prog srv fw req) (request_calls fw) (\<lambda>_. True) \<and>
   bounded (reap_prog fw idle) (reap_calls fw) (\<lambda>_. True) \<and>
   (declared_sizes fw \<longrightarrow> request_calls fw = 393233 \<and> reap_calls fw = 131078)"
  by (simp add: calls_handle calls_reap declared_calls)

lemma ref_fw_sizes: "declared_sizes ref_fw"
  by (simp add: declared_sizes_def decl_blocked_ips_def decl_port_policy_def decl_conntrack_def handle_eval lpm_handle_eval)

theorem requests_terminate_witness:
  "bounded (handle_prog demo_server ref_fw block_request) 393233 (\<lambda>_. True) \<and>
   bounded (reap_prog ref_fw 1000) 131078 (\<lambda>_. True)"
  using requests_terminate [of demo_server ref_fw block_request 1000]
  unfolding declared_calls [OF ref_fw_sizes] by blast

section \<open>Among packets\<close>

text \<open>Claim C5: at every single map call of every request, with packets and the reaper in any order
  in between, the maps are well formed and the program, with its skipped lookups, treats every packet
  as the specification that always looks both rule tables up: the flag of a table is set before its
  first entry appears and cleared only after its last is gone.\<close>

theorem fast_path_at_every_call:
  assumes "firewall_env G fw" "maps_ok (gh_view G w0)"
    "(micro_step G fw srv ctTimeout)\<^sup>*\<^sup>* (idle_state w0) s" "dp_env_ok env"
  shows "maps_ok (gh_view G (mi_world s)) \<and>
    firewall_prog env pkt (gh_view G (mi_world s)) = prog_spec env pkt (gh_view G (mi_world s))"
  using firewall_env.micro_reachable_ok(2) [OF assms(1,3,2)] assms(4)
  by (simp add: prog_refines maps_ok_presence)

lemma receive_demo:
  "micro_step ref_ghost ref_fw demo_server c (idle_state boot_kernel)
     ((idle_state boot_kernel)\<lparr>mi_request := Some (handle_prog demo_server ref_fw block_request)\<rparr>)"
  by (rule micro_step.receive) (simp add: idle_state_def)

lemma serve_demo:
  "(serving ref_ghost ref_fw demo_server c)\<^sup>*\<^sup>*
     ((idle_state boot_kernel)\<lparr>mi_request := Some (handle_prog demo_server ref_fw block_request)\<rparr>)
     ((idle_state blocked_kernel)\<lparr>mi_request := Some (Return okResponse)\<rparr>)"
  using serving_run [of "(idle_state boot_kernel)\<lparr>mi_request := Some (handle_prog demo_server ref_fw block_request)\<rparr>"
      _ blocked_kernel okResponse ref_ghost ref_fw demo_server c]
  by (simp add: run_handle [OF demo_server_policy] handle_block_demo idle_state_def)

lemma serving_steps: "(serving G fw srv c)\<^sup>*\<^sup>* s s' \<Longrightarrow> (micro_step G fw srv c)\<^sup>*\<^sup>* s s'"
  by (erule rtranclp_mono [THEN predicate2D, rotated]) (auto simp: serving_def)

theorem fast_path_at_every_call_witness:
  "firewall_prog demo_env syn_frame (kernel_maps blocked_kernel) =
     prog_spec demo_env syn_frame (kernel_maps blocked_kernel)"
proof -
  have "(micro_step ref_ghost ref_fw demo_server 0)\<^sup>*\<^sup>* (idle_state boot_kernel)
      ((idle_state blocked_kernel)\<lparr>mi_request := Some (Return okResponse)\<rparr>)"
    using receive_demo serving_steps [OF serve_demo] by (rule converse_rtranclp_into_rtranclp)
  from fast_path_at_every_call [OF ref_firewall_env _ this demo_env_ok] boot_maps_ok
  show ?thesis by (simp add: idle_state_def)
qed

text \<open>Claim C6: what a request does among packets and reaper ticks. From the moment it is received to
  its answer the rule tables, the flags and the default policy change only by the abstract steps of
  the control plane, and the maps stay well formed. Answered OK, a block has stored its rule, an unblock has removed
  it, a clear has emptied the tables, a policy is the one named, and nothing else has changed, as if it had run alone.
  A block without an action is stored as DROP at priority 0: the outcome is the one asked for
  except, and always except, when a block carries a priority and no action.\<close>

theorem request_among_packets:
  assumes "firewall_env G fw" "maps_ok (gh_view G w0)"
    "(micro_step G fw srv ctTimeout)\<^sup>*\<^sup>* (idle_state w0) s" "mi_request s = Some (handle_prog srv fw req)"
    "(serving G fw srv ctTimeout)\<^sup>*\<^sup>* s s'" "mi_request s' = Some (Return r)"
  defines "m \<equiv> ctl (gh_view G (mi_world s))" and "m' \<equiv> ctl (gh_view G (mi_world s'))"
  shows "maps_ok (gh_view G (mi_world s')) \<and> mgr_step\<^sup>*\<^sup>* m m' \<and>
    (rs_OK r \<longrightarrow> request_done req m m' \<and> (request_asked req m m' \<longleftrightarrow> \<not> priority_lost req))"
  using firewall_env.request_served [OF assms(1,5) _ assms(4,6)] request_done_asked
    firewall_env.micro_reachable_ok(1) [OF assms(1,3,2)] unfolding m_def m'_def by blast

theorem request_among_packets_witness:
  "request_asked block_request (ctl (kernel_maps boot_kernel)) (ctl (kernel_maps blocked_kernel))"
  using request_among_packets [OF ref_firewall_env _ _ _ serve_demo] boot_maps_ok receive_demo
  by (fastforce simp: idle_state_def priority_lost_def)

section \<open>Every request is answered\<close>








text \<open>What an inserted rule does to a packet, whatever moments its lookups see the maps at, as long as
  the rules stay.\<close>

lemma inserted_drops:
  assumes env: "dp_env_ok env" and ok: "maps_ok m1" and ins: "ctl m1 = ip_inserted k v (ctl m0)"
    and ms: "\<And>i. ctl (ms i) = ctl m1" and "rv_Action v = ActionDrop"
    and pkt: "parse_packet pkt = Some info" "covers k (pi_saddr info)"
      "\<forall>k' \<in> dom (blocked_ips m0). covers k' (pi_saddr info) \<longrightarrow> unat (lk_Prefixlen k') \<le> unat (lk_Prefixlen k)"
      "\<forall>p. port_rule_action m0 info = Some p \<longrightarrow> rv_Priority p \<le> rv_Priority v"
  shows "packet_at env pkt ms = XDP_DROP"
proof -
  have t: "blocked_ips m1 = (blocked_ips m0)(k \<mapsto> v)" "port_policy m1 = port_policy m0"
    using arg_cong [OF ins, of blocked_ips] arg_cong [OF ins, of port_policy] by (simp_all add: ip_inserted_def)
  have lp: "longest_prefix (dp_lpm env)" using env by (simp add: dp_env_ok_def)
  have drop: "verdict_of env (m1\<lparr>conntrack := c\<rparr>) pkt = XDP_DROP" for c
  proof -
    have ok': "maps_ok (m1\<lparr>conntrack := c\<rparr>)"
      using ok maps_ok_ctl [of m1] maps_ok_ctl [of "m1\<lparr>conntrack := c\<rparr>"] by simp
    have "blocked_ips (m1\<lparr>conntrack := c\<rparr>) = (blocked_ips m0)(k \<mapsto> v)"
        "port_policy (m1\<lparr>conntrack := c\<rparr>) = port_policy m0"
      using t by simp_all
    from drop_after_insert [OF env ok' this pkt assms(5)] show ?thesis
      by (simp add: prog_refines [OF maps_ok_presence [OF ok'] env])
  qed
  from packet_beside_change [OF lp ok ok, of ms 0] ms drop show ?thesis by (auto simp: one_entry_def)
qed

text \<open>Claim C3: from the request to the wire. A request to drop a prefix is served call by call, with
  packets and reaper ticks in between. Once it has answered OK, and until the next request, whatever
  else happens, even between the lookups of the packet itself, a packet whose source the prefix covers is
  dropped, if no more specific entry covers the source and no port rule of higher priority matches
  the packet.\<close>

theorem block_request_drops:
  assumes env: "firewall_env G fw" "dp_env_ok env"
    and run: "maps_ok (gh_view G w0)" "(micro_step G fw srv ctTimeout)\<^sup>*\<^sup>* (idle_state w0) s0"
      "mi_request s0 = Some (handle_prog srv fw req)" "(serving G fw srv ctTimeout)\<^sup>*\<^sup>* s0 s1"
      "mi_request s1 = Some (Return r)" "\<And>i. (quiet G fw srv ctTimeout)\<^sup>*\<^sup>* s1 (st i)"
    and req: "rq_Command req = CmdBlock" "rs_OK r" "\<not> port_request req" "granted_rule req = Inr v"
      "rv_Action v = ActionDrop"
    and pkt: "parse_packet pkt = Some info" "rule_key (rq_Value req) = Inr k" "covers k (pi_saddr info)"
      "\<forall>k' \<in> dom (blocked_ips (gh_view G (mi_world s0))). covers k' (pi_saddr info) \<longrightarrow>
        unat (lk_Prefixlen k') \<le> unat (lk_Prefixlen k)"
      "\<forall>p. port_rule_action (gh_view G (mi_world s0)) info = Some p \<longrightarrow> rv_Priority p \<le> rv_Priority v"
  shows "packet_at env pkt (\<lambda>i. gh_view G (mi_world (st i))) = XDP_DROP"
proof -
  let ?m0 = "gh_view G (mi_world s0)" and ?m1 = "gh_view G (mi_world s1)"
  have ok0: "firewall_env.micro_ok G s0" by (rule firewall_env.micro_reachable_ok(1) [OF env(1) run(2,1)])
  note served = firewall_env.request_served [OF env(1) run(4) ok0 run(3,5)]
  have ok1: "firewall_env.micro_ok G s1"
    using firewall_env.serving_awp [OF env(1) run(4) ok0 run(3), of "\<lambda>_ _. True"] ok0 run(3)
    by (auto simp: firewall_env.micro_ok_def [OF env(1)])
  have "answered s1" by (simp add: answered_def run(5))
  then have q: "ctl (gh_view G (mi_world (st i))) = ctl ?m1" for i
    using firewall_env.quiets_ctl [OF env(1) run(6) ok1] by blast
  have inserted: "ctl ?m1 = ip_inserted k v (ctl ?m0)"
    using served req pkt(2) by (simp add: request_done_def')
  have "maps_ok ?m1" using served by blast
  from inserted_drops [OF env(2) this inserted q req(5) pkt(1,3-5)] show ?thesis .
qed

theorem block_request_drops_witness:
  "packet_at demo_env syn_frame (\<lambda>_. kernel_maps blocked_kernel) = XDP_DROP"
proof -
  have e: "blocked_ips (kernel_maps boot_kernel) = Map.empty" "port_policy (kernel_maps boot_kernel) = Map.empty"
    by (simp_all add: kernel_maps_def boot_kernel_def)
  have g: "granted_rule block_request = Inr drop5"
    by (simp add: granted_rule_def ParseAction_def drop5_def enum_defs)
  show ?thesis
    using block_request_drops [where req = block_request and k = k10 and
          st = "\<lambda>_. (idle_state blocked_kernel)\<lparr>mi_request := Some (Return okResponse)\<rparr>", OF ref_firewall_env demo_env_ok _
        r_into_rtranclp [of "micro_step ref_ghost ref_fw demo_server 0", OF receive_demo]
        _ serve_demo _ rtranclp.rtrancl_refl _ _ _ g _ parse_frames(1)] boot_maps_ok
    by (simp add: e rule_key_k10 covers_host10 port_rule_action_empty drop5_def idle_state_def port_request_def)
qed

text \<open>Claim C4: a packet is atomic beside a call. The nine lookups of the program may see nine different
  states of the maps. If the server makes at most one map call while the packet is looked up, with
  any number of packets, reaper calls, requests received and answered around it, the verdict is that of
  the decision table on the rules before the call or on those after it, with the flow table as the packet
  reads it; the skipped lookups included.\<close>

theorem packet_beside_call:
  assumes "firewall_env G fw" "dp_env_ok env" "maps_ok (gh_view G w0)"
    "(micro_step G fw srv ctTimeout)\<^sup>*\<^sup>* (idle_state w0) s"
    "(aside G fw srv ctTimeout)\<^sup>*\<^sup>* s t" "micro_step G fw srv ctTimeout t t'"
    "\<And>i. i < n \<Longrightarrow> (aside G fw srv ctTimeout)\<^sup>*\<^sup>* s (st i)"
    "\<And>i. n \<le> i \<Longrightarrow> (aside G fw srv ctTimeout)\<^sup>*\<^sup>* t' (st i)"
  defines "flows \<equiv> conntrack (gh_view G (mi_world (st 8)))"
  shows "packet_at env pkt (\<lambda>i. gh_view G (mi_world (st i))) \<in>
    {verdict_of env ((gh_view G (mi_world s))\<lparr>conntrack := flows\<rparr>) pkt,
     verdict_of env ((gh_view G (mi_world t'))\<lparr>conntrack := flows\<rparr>) pkt}"
proof -
  let ?m = "\<lambda>s. gh_view G (mi_world s)"
  have t: "(micro_step G fw srv ctTimeout)\<^sup>*\<^sup>* (idle_state w0) t" by (rule rtranclp_trans [OF assms(4) aside_steps [OF assms(5)]])
  then have t': "(micro_step G fw srv ctTimeout)\<^sup>*\<^sup>* (idle_state w0) t'" using assms(6) by (rule rtranclp.rtrancl_into_rtrancl)
  note ok = firewall_env.micro_reachable_ok [OF assms(1) assms(4,3)]
    firewall_env.micro_reachable_ok [OF assms(1) t' assms(3)]
  note ctl = firewall_env.asides_ctl [OF assms(1)]
  have "one_entry (ctl (?m s)) (ctl (?m t'))"
    using firewall_env.micro_one_entry [OF assms(1) t assms(3,6)] ctl [OF assms(5) ok(1)] by simp
  moreover have "ctl (?m (st i)) = (if i < n then ctl (?m s) else ctl (?m t'))" for i
    using ctl [OF assms(7) ok(1), of i] ctl [OF assms(8) ok(3), of i] by simp
  moreover have "longest_prefix (dp_lpm env)" using assms(2) by (simp add: dp_env_ok_def)
  ultimately show ?thesis
    unfolding flows_def using packet_beside_change [OF _ ok(2,4), of env "\<lambda>i. ?m (st i)" n pkt] by blast
qed

text \<open>The last call of a request, caught between the first lookup of a packet and the others.\<close>

theorem packet_beside_call_witness:
  "\<exists>t. serving ref_ghost ref_fw demo_server 0 t ((idle_state blocked_kernel)\<lparr>mi_request := Some (Return okResponse)\<rparr>) \<and>
     packet_at demo_env syn_frame (\<lambda>i. kernel_maps (if i < 1 then mi_world t else blocked_kernel)) \<in>
       {verdict_of demo_env ((kernel_maps (mi_world t))\<lparr>conntrack := conntrack (kernel_maps blocked_kernel)\<rparr>) syn_frame,
        verdict_of demo_env (kernel_maps blocked_kernel) syn_frame}"
proof -
  let ?s0 = "(idle_state boot_kernel)\<lparr>mi_request := Some (handle_prog demo_server ref_fw block_request)\<rparr>"
  let ?s1 = "(idle_state blocked_kernel)\<lparr>mi_request := Some (Return okResponse)\<rparr>"
  have "?s0 \<noteq> ?s1"
  proof
    assume "?s0 = ?s1"
    then have "boot_kernel = blocked_kernel" by (simp add: idle_state_def)
    then show False by (simp add: boot_kernel_def blocked_kernel_def)
  qed
  then obtain t where t: "(serving ref_ghost ref_fw demo_server 0)\<^sup>*\<^sup>* ?s0 t" "serving ref_ghost ref_fw demo_server 0 t ?s1"
    using serve_demo [of 0] by (metis rtranclp.cases)
  have "(micro_step ref_ghost ref_fw demo_server 0)\<^sup>*\<^sup>* (idle_state boot_kernel) t"
    using receive_demo serving_steps [OF t(1)] by (rule converse_rtranclp_into_rtranclp)
  moreover have "micro_step ref_ghost ref_fw demo_server 0 t ?s1" using t(2) by (simp add: serving_def)
  ultimately have "packet_at demo_env syn_frame (\<lambda>i. gh_view ref_ghost (mi_world (if i < 1 then t else ?s1))) \<in>
      {verdict_of demo_env ((gh_view ref_ghost (mi_world t))\<lparr>conntrack := conntrack (gh_view ref_ghost (mi_world (if 8 < (1 :: nat) then t else ?s1)))\<rparr>) syn_frame,
       verdict_of demo_env ((gh_view ref_ghost (mi_world ?s1))\<lparr>conntrack := conntrack (gh_view ref_ghost (mi_world (if 8 < (1 :: nat) then t else ?s1)))\<rparr>) syn_frame}"
    by (intro packet_beside_call [where n = 1 and s = t and t = t, OF ref_firewall_env demo_env_ok])
      (simp_all add: boot_maps_ok)
  then have "packet_at demo_env syn_frame (\<lambda>i. kernel_maps (if i < 1 then mi_world t else blocked_kernel)) \<in>
       {verdict_of demo_env ((kernel_maps (mi_world t))\<lparr>conntrack := conntrack (kernel_maps blocked_kernel)\<rparr>) syn_frame,
        verdict_of demo_env (kernel_maps blocked_kernel) syn_frame}"
    by (simp add: idle_state_def if_distrib [of mi_world] cong: if_cong)
  with t(2) show ?thesis by blast
qed

text \<open>Beside two calls it is not atomic: a rule for the source is added and then one for the destination
  removed. At every moment one of them drops the packet; the packet that looks the source up before the
  one and the destination after the other passes.\<close>

definition rule_maps :: "firewallIpv4LpmKey list \<Rightarrow> fw_maps" where
  "rule_maps ks = fresh_maps\<lparr>blocked_ips := (\<lambda>k. if k \<in> set ks then Some \<lparr>rv_Action = ActionDrop, rv_Priority = 0\<rparr> else None),
     rule_presence := [0 \<mapsto> 3]\<rparr>"

lemma prefix_mask_32: "prefix_mask 32 = - 1"
  by code_simp

lemma covers_host: "covers (host_key q) q' \<longleftrightarrow> q' = q" "canon_key (host_key q)"
  by (simp_all add: covers_def canon_key_def host_key_def prefix_mask_32)

lemma rule_maps_verdict:
  assumes "longest_prefix (dp_lpm env)"
  shows "dp_lpm env (blocked_ips (rule_maps (map host_key qs))) (host_key q) =
    (if q \<in> set qs then Some \<lparr>rv_Action = ActionDrop, rv_Priority = 0\<rparr> else None)"
proof -
  let ?c = "blocked_ips (rule_maps (map host_key qs))"
  have dom: "dom ?c = host_key ` set qs"
    by (simp add: rule_maps_def dom_def)
  then have can: "\<forall>k \<in> dom ?c. canon_key k" using covers_host(2) by simp
  show ?thesis
  proof (cases "q \<in> set qs")
    case True
    then have "?c (host_key q) = Some \<lparr>rv_Action = ActionDrop, rv_Priority = 0\<rparr>"
      by (simp add: rule_maps_def)
    moreover have "\<forall>k' \<in> dom ?c. covers k' q \<longrightarrow> unat (lk_Prefixlen k') \<le> unat (lk_Prefixlen (host_key q))"
      unfolding dom by (auto simp: host_key_def)
    ultimately show ?thesis
      using True longest_prefix_eq [OF assms can, of "host_key q"] by (simp add: covers_host)
  next
    case False
    then have "\<not> covers k q" if "k \<in> dom ?c" for k using that covers_host unfolding dom by auto
    with longest_prefix_Some [OF assms can] False show ?thesis
      by (metis (no_types, lifting) domI option.exhaust)
  qed
qed

lemma two_calls_slip:
  assumes "dp_env_ok env" "parse_packet pkt = Some info" "pi_saddr info \<noteq> pi_daddr info"
  defines "src \<equiv> host_key (pi_saddr info)" and "dst \<equiv> host_key (pi_daddr info)"
  shows "packet_at env pkt (\<lambda>i. if i \<le> 1 then rule_maps [dst] else rule_maps [src]) = XDP_PASS"
    and "ks \<in> {[dst], [dst, src], [src]} \<Longrightarrow> packet_at env pkt (\<lambda>_. rule_maps ks) = XDP_DROP"
proof -
  have lp: "longest_prefix (dp_lpm env)" using assms(1) by (simp add: dp_env_ok_def)
  note look = rule_maps_verdict [OF lp, of "[pi_daddr info]"] rule_maps_verdict [OF lp, of "[pi_saddr info]"]
    rule_maps_verdict [OF lp, of "[pi_daddr info, pi_saddr info]"]
  have none: "port_policy (rule_maps ks) = Map.empty" "rule_presence (rule_maps ks) 0 = Some 3"
      "default_policy (rule_maps ks) = DefaultAllow" for ks
    by (simp_all add: rule_maps_def fresh_maps_def default_policy_def enum_defs)
  show "packet_at env pkt (\<lambda>i. if i \<le> 1 then rule_maps [dst] else rule_maps [src]) = XDP_PASS"
    using look assms(2,3)
    by (simp add: packet_at_def src_def dst_def ip_block_key port_rule_at_def try_lookup_def port_probe_def none
        Let_def default_verdict_def enum_defs)
  show "packet_at env pkt (\<lambda>_. rule_maps ks) = XDP_DROP" if "ks \<in> {[dst], [dst, src], [src]}"
    using that look assms(2,3)
    by (auto simp: packet_at_def src_def dst_def ip_block_key port_rule_at_def try_lookup_def port_probe_def none
        Let_def decide_def rule_verdict_def RULE_IP_PRESENT_def split: option.split)
qed

section \<open>The reaper among packets\<close>

text \<open>The reaper runs outside the server's mutex and its deletion does not look at the entry again: a
  flow that is stale when the tick scans the map and is used before the tick deletes it is removed
  although it is active.\<close>

definition idle_flow :: ctValue where
  "idle_flow = \<lparr>cv_LastSeen = 1000000000, cv_State = ctStateEstablished\<rparr>"

definition flow_kernel :: "u64 \<Rightarrow> kernel" where
  "flow_kernel seen = boot_kernel\<lparr>k_ct := [(demo_flow, idle_flow\<lparr>cv_LastSeen := seen\<rparr>)], k_cfg := [(0, DefaultDeny)]\<rparr>"

definition race_env :: dp_env where
  "race_env = demo_env\<lparr>dp_ktime := 1000000000000\<rparr>"

lemma scan_demo:
  "\<exists>p'. advance 4 (reap_prog ref_fw 300000000000) (flow_kernel 1000000000) = (flow_kernel 1000000000, p') \<and>
    (\<forall>w. map_of (k_ct w) demo_flow \<noteq> None \<longrightarrow>
      fst (advance 1 p' w) = w\<lparr>k_ct := AList.delete demo_flow (k_ct w)\<rparr>)"
  unfolding numeral_eq_Suc One_nat_def pred_numeral_simps arith_special numeral_One BitM.simps
  by (simp add: reap_prog_def scan_prog_def monotonicNanos_def iter_prog_numeral ref_eval
    flow_kernel_def boot_kernel_def idle_flow_def reap_stale_def reap_cutoff_def mapped_def andthen_assoc
    advance_reading advance_call Let_def domIff del: andthen.simps(2) cong: andthen_cong)

definition used_kernel :: kernel where
  "used_kernel = (flow_kernel 1000000000000)\<lparr>k_cnt := [(0, \<lparr>cnt_Packets = 1, cnt_Bytes = 54\<rparr>),
     (2, \<lparr>cnt_Packets = 1, cnt_Bytes = 54\<rparr>)]\<rparr>"

lemma flow_refreshed:
  "kernel_maps used_kernel = fst (firewall_prog race_env ack_frame (kernel_maps (flow_kernel 1000000000)))"
proof -
  have l: "length ack_frame = 54"
    by (simp add: ack_frame_def demo_frame_def tcp_frame_def data_bytes_def)
  have cfg: "default_policy (kernel_maps (flow_kernel x)) = DefaultDeny" for x
    by (simp add: default_policy_def kernel_maps_def flow_kernel_def array_entries_def)
  have pres: "rule_presence (kernel_maps (flow_kernel x)) 0 = Some 0" for x
    by (simp add: kernel_maps_def flow_kernel_def boot_kernel_def array_entries_def)
  have est: "ct_is_established (kernel_maps (flow_kernel x)) (demo_info TCP_ACK)" for x
    by (simp add: ct_is_established_def kernel_maps_def flow_kernel_def idle_flow_def)
  have nx: "ct_next ctStateEstablished TCP_ACK = ctStateEstablished" by code_simp
  have zero: "counters (kernel_maps (flow_kernel x)) = [0 \<mapsto> zero_counter, 1 \<mapsto> zero_counter, 2 \<mapsto> zero_counter]" for x
    by (simp add: kernel_maps_def flow_kernel_def boot_kernel_def array_entries_def numeral_3_eq_3 fun_eq_iff)
  have "fst (firewall_prog race_env ack_frame (kernel_maps (flow_kernel 1000000000))) =
      (kernel_maps (flow_kernel 1000000000000))\<lparr>counters :=
        [0 \<mapsto> \<lparr>cnt_Packets = 1, cnt_Bytes = 54\<rparr>, 1 \<mapsto> zero_counter, 2 \<mapsto> \<lparr>cnt_Packets = 1, cnt_Bytes = 54\<rparr>]\<rparr>"
  proof -
    have "fst (firewall_prog race_env ack_frame (kernel_maps (flow_kernel 1000000000))) =
        incr_counter counterPass 54 (incr_counter counterTotal 54
          (ct_update race_env (demo_info TCP_ACK) (kernel_maps (flow_kernel 1000000000))))"
      by (simp add: firewall_prog_def parse_frames l cfg pres est Let_def IPPROTO_TCP_def enum_defs)
    also have "ct_update race_env (demo_info TCP_ACK) (kernel_maps (flow_kernel 1000000000)) =
        kernel_maps (flow_kernel 1000000000000)"
      by (simp add: ct_update_def kernel_maps_def flow_kernel_def idle_flow_def race_env_def nx Let_def fun_eq_iff)
    finally show ?thesis
      by (simp add: incr_counter_def zero counter_idx_defs zero_counter_def fun_eq_iff)
  qed
  then show ?thesis
    by (simp add: used_kernel_def kernel_maps_def array_entries_def numeral_3_eq_3 fun_eq_iff flow_kernel_def)
qed

lemma reap_race:
  "\<exists>s t. (micro_step ref_ghost ref_fw demo_server 300000000000)\<^sup>*\<^sup>* (idle_state (flow_kernel 1000000000)) s \<and>
     micro_step ref_ghost ref_fw demo_server 300000000000 s t \<and> mi_request s = None \<and>
     monotonicNanos (ct_clock (fw_ctMgr ref_fw)) (mi_world s) = Inr 1000000000000 \<and>
     (\<exists>v. conntrack (kernel_maps (mi_world s)) demo_flow = Some v \<and>
       \<not> reap_stale 300000000000 1000000000000 v) \<and>
     conntrack (kernel_maps (mi_world t)) demo_flow = None"
proof -
  let ?w = "flow_kernel 1000000000"
  let ?step = "micro_step ref_ghost ref_fw demo_server 300000000000"
  obtain p' where p': "advance 4 (reap_prog ref_fw 300000000000) ?w = (?w, p')"
      "\<And>w. map_of (k_ct w) demo_flow \<noteq> None \<Longrightarrow> fst (advance 1 p' w) = w\<lparr>k_ct := AList.delete demo_flow (k_ct w)\<rparr>"
    using scan_demo by blast
  have used: "map_of (k_ct used_kernel) demo_flow = Some (idle_flow\<lparr>cv_LastSeen := 1000000000000\<rparr>)"
    by (simp add: used_kernel_def flow_kernel_def)
  obtain f k where a: "p' = Atom f k"
    using p'(2) [of used_kernel] used
    by (cases p') (auto simp: used_kernel_def flow_kernel_def dest!: arg_cong [of _ _ k_ct])
  let ?ticked = "(idle_state ?w)\<lparr>mi_reaper := Some (reap_prog ref_fw 300000000000)\<rparr>"
  let ?scanned = "(idle_state ?w)\<lparr>mi_reaper := Some p'\<rparr>" and ?used = "(idle_state used_kernel)\<lparr>mi_reaper := Some p'\<rparr>"
  let ?t = "?used\<lparr>mi_world := f used_kernel, mi_reaper := Some (k used_kernel)\<rparr>"
  have 1: "?step (idle_state ?w) ?ticked" by (rule micro_step.tick) (simp_all add: idle_state_def)
  have 2: "?step\<^sup>*\<^sup>* ?ticked ?scanned"
    using reaping_run [of ?ticked "reap_prog ref_fw 300000000000" 4 ?w p' ref_ghost ref_fw demo_server 300000000000] p'(1) by (simp add: idle_state_def)
  have "k_ip used_kernel = k_ip ?w" "k_port used_kernel = k_port ?w" "k_cfg used_kernel = k_cfg ?w"
    by (simp_all add: used_kernel_def flow_kernel_def)
  then have 3: "?step ?scanned ?used"
    using micro_step.packet [of race_env ref_ghost used_kernel ack_frame ?scanned ref_fw demo_server 300000000000] demo_env_ok
    by (simp add: race_env_def flow_refreshed idle_state_def dp_env_ok_def demo_env_def)
  have "?step\<^sup>*\<^sup>* (idle_state ?w) ?used"
    by (rule rtranclp.rtrancl_into_rtrancl [OF converse_rtranclp_into_rtranclp [OF 1 2] 3])
  moreover have "?step ?used ?t"
    using micro_step.reap [of ?used f k] by (simp add: a idle_state_def)
  moreover have "f used_kernel = used_kernel\<lparr>k_ct := AList.delete demo_flow (k_ct used_kernel)\<rparr>"
    using p'(2) [of used_kernel] used by (simp add: a)
  ultimately show ?thesis
    using used
    by (intro exI [of _ ?used] exI [of _ ?t])
      (simp add: idle_state_def kernel_maps_def delete_conv' monotonicNanos_def used_kernel_def
        flow_kernel_def boot_kernel_def idle_flow_def reap_stale_def reap_cutoff_def Let_def)
qed

end
