(* ===== verification/Session.thy ===== *)
theory Session
  imports Server Ctl Wire
begin

text \<open>
  One connection of the control socket, from both ends: \<open>handleConn\<close> and \<open>writeResponse\<close> of
  \<open>control/server/server.go\<close> on the bytes a client sends, \<open>roundTrip\<close> and the rest of \<open>main\<close> of
  \<open>cmd/firewallctl/main.go\<close>. The socket between them is a parameter with the law of the locale
  \<open>unix_socket\<close>: what the client reads after a completed write is what the server writes for
  the bytes written.
\<close>

section \<open>The server's end\<close>

text \<open>\<open>bufio.Scanner\<close> with a buffer of at most 64 KiB, once: the line up to the first newline or to the end
  of the stream, without a final carriage return; nothing for an empty stream, nor for a line that
  fills the buffer before its newline is in it.\<close>

definition dropCR :: "string \<Rightarrow> string" where
  "dropCR s = (if s \<noteq> [] \<and> last s = CHR 0x0D then butlast s else s)"

definition scan_buffer :: nat where
  "scan_buffer = 65536"

definition scan_line :: "string \<Rightarrow> string option" where
  "scan_line s =
     (case cut_at (CHR 0x0A) s of
        Some (line, rest) \<Rightarrow> if length line < scan_buffer then Some (dropCR line) else None
      | None \<Rightarrow> if s \<noteq> [] \<and> length s < scan_buffer then Some (dropCR s) else None)"

definition encode_failed :: string where
  "encode_failed =
     ''{'' @ [CHR 0x22] @ ''ok'' @ [CHR 0x22] @ '':false,'' @ [CHR 0x22] @ ''error'' @ [CHR 0x22] @ '':'' @
     [CHR 0x22] @ ''internal: failed to encode response'' @ [CHR 0x22] @ ''}''"

definition writeResponse :: "codec_env \<Rightarrow> Response \<Rightarrow> string" where
  "writeResponse env r =
     (case marshal_Response env r of None \<Rightarrow> encode_failed | Some data \<Rightarrow> data) @ [CHR 0x0A]"

text \<open>The bytes a client sends before it closes or waits, and the bytes it is sent; \<open>None\<close> when the
  connection is closed without a word.\<close>

definition Server_handleConn ::
    "codec_env \<Rightarrow> ('w, 'n) Server \<Rightarrow> string \<Rightarrow> 'w \<Rightarrow> 'w \<times> string option" where
  "Server_handleConn env s stream w =
     (case scan_line stream of
        None \<Rightarrow> (w, None)
      | Some bytes \<Rightarrow>
          (case unmarshal_Request bytes of
             None \<Rightarrow> (w, Some (writeResponse env (errResponse MalformedRequest)))
           | Some req \<Rightarrow>
               (case Server_handle s req w of (w', r) \<Rightarrow> (w', Some (writeResponse env r)))))"

section \<open>The client's end\<close>

text \<open>The socket as the client sees it: \<open>net.Dial\<close>, a write of the whole request, the bytes that can be
  read until the server closes, and the close.\<close>

record ('x, 'c) dial_env =
  de_Dial :: "string \<Rightarrow> 'x \<Rightarrow> 'x \<times> (sys_err + 'c)"
  de_Write :: "'c \<Rightarrow> string \<Rightarrow> 'x \<Rightarrow> 'x \<times> sys_err option"
  de_Read :: "'c \<Rightarrow> 'x \<Rightarrow> 'x \<times> string"
  de_Close :: "'c \<Rightarrow> 'x \<Rightarrow> 'x"

datatype trip_error =
    Connecting string sys_err
  | SendingRequest sys_err
  | ReadingResponse

definition roundTrip ::
    "('x, 'c) dial_env \<Rightarrow> codec_env \<Rightarrow> string \<Rightarrow> Request \<Rightarrow> 'x \<Rightarrow> 'x \<times> (trip_error + Response)" where
  "roundTrip net env sockPath req x =
     (case de_Dial net sockPath x of
        (x1, Inl err) \<Rightarrow> (x1, Inl (Connecting sockPath err))
      | (x1, Inr conn) \<Rightarrow>
          (case de_Write net conn (marshal_Request req @ [CHR 0x0A]) x1 of
             (x2, Some err) \<Rightarrow> (de_Close net conn x2, Inl (SendingRequest err))
           | (x2, None) \<Rightarrow>
               (case de_Read net conn x2 of
                  (x3, bytes) \<Rightarrow>
                    (de_Close net conn x3,
                     case decode_Response env bytes of
                       None \<Rightarrow> Inl ReadingResponse
                     | Some resp \<Rightarrow> Inr resp))))"

text \<open>The whole of \<open>main\<close>: what is printed, and the exit code.\<close>

datatype ctl_result =
    Stopped nat ctl_message
  | TripFailed trip_error
  | Answered print_result

definition firewallctl ::
    "('x, 'c) dial_env \<Rightarrow> codec_env \<Rightarrow> string list \<Rightarrow> 'x \<Rightarrow> 'x \<times> ctl_result" where
  "firewallctl net env raw x =
     (case ctl_main raw of
        CtlExit code msg \<Rightarrow> (x, Stopped code msg)
      | CtlSend sockPath req \<Rightarrow>
          (case roundTrip net env sockPath req x of
             (x', Inl err) \<Rightarrow> (x', TripFailed err)
           | (x', Inr resp) \<Rightarrow> (x', Answered (printResponse resp))))"

fun exit_code :: "ctl_result \<Rightarrow> nat" where
  "exit_code (Stopped code msg) = code"
| "exit_code (TripFailed err) = 1"
| "exit_code (Answered (Printed out)) = 0"
| "exit_code (Answered (PrintExit code err)) = code"

section \<open>A request and its reply\<close>

lemma dropCR_id: "printed s \<Longrightarrow> dropCR s = s"
proof (cases "s = []")
  case False
  assume "printed s"
  with False have "byte (last s) \<ge> 0x20" by (simp add: printed_def)
  then have "last s \<noteq> CHR 0x0D" by (auto simp: byte_def)
  then show ?thesis by (simp add: dropCR_def)
qed (simp add: dropCR_def)

lemma scan_printed:
  assumes "printed s" "length s < scan_buffer"
  shows "scan_line (s @ CHR 0x0A # rest) = Some s"
proof -
  have "CHR 0x0A \<notin> set s" using assms(1) by (auto simp: printed_def byte_def)
  then show ?thesis using assms by (simp add: scan_line_def cut_at_append dropCR_id)
qed

lemma handleConn_request:
  assumes "length (marshal_Request req) < scan_buffer"
  shows "Server_handleConn env s (marshal_Request req @ CHR 0x0A # rest) w =
    (case Server_handle s (wired_Request req) w of (w', r) \<Rightarrow> (w', Some (writeResponse env r)))"
  using request_text [of "[]" req]
  by (simp add: Server_handleConn_def scan_printed [OF request_printed assms])

text \<open>Only the first line counts.\<close>

lemma scan_line_first:
  assumes "CHR 0x0A \<notin> set line"
  shows "scan_line (line @ CHR 0x0A # rest) = scan_line (line @ [CHR 0x0A])"
  using assms by (simp add: scan_line_def cut_at_append)

lemma response_sent:
  assumes "codec_ok env" "int_ok (rs_Count r)" "encode_Response env r \<noteq> None"
  shows "decode_Response env (writeResponse env r) = Some (wired_Response env r)"
  using assms response_text [OF assms(1,2)]
  by (auto simp: writeResponse_def marshal_Response_def)

section \<open>How long a request can be\<close>

definition member_size :: "string \<times> json \<Rightarrow> nat" where
  "member_size m = (case m of (k, j) \<Rightarrow> length (quote k) + length (json_text j) + 2)"

lemma commas_length: "length (commas ss) \<le> sum_list (map (\<lambda>s. length s + 1) ss)"
  by (induction ss rule: commas.induct) simp_all

lemma object_length: "length (json_text (JObj ms)) \<le> 2 + sum_list (map member_size ms)"
proof -
  have *: "map (\<lambda>s. length s + 1) (map (\<lambda>(k, j). quote k @ CHR '':'' # json_text j) ms) = map member_size ms"
    by (auto simp: member_size_def)
  have "length (commas (map (\<lambda>(k, j). quote k @ CHR '':'' # json_text j) ms)) \<le> sum_list (map member_size ms)"
    using commas_length [of "map (\<lambda>(k, j). quote k @ CHR '':'' # json_text j) ms"] unfolding * .
  then show ?thesis by simp
qed

lemma omitempty_size: "sum_list (map member_size (omitempty b k j)) \<le> member_size (k, j)"
  by (simp add: omitempty_def)

lemma nat_str_length: "n < 10 ^ Suc k \<Longrightarrow> length (nat_str n) \<le> Suc k"
proof (induction k arbitrary: n)
  case (Suc k)
  show ?case
  proof (cases "n < 10")
    case False
    have "n div 10 < 10 ^ Suc k" using Suc.prems by (simp add: less_mult_imp_div_less)
    from Suc.IH [OF this] False show ?thesis by (subst nat_str.simps) simp
  qed (subst nat_str.simps, simp)
qed (subst nat_str.simps, simp)

lemma size_JStr: "length k \<le> 9 \<Longrightarrow> member_size (k, JStr s) \<le> 60 + 6 * length s"
  using quote_length [of k] quote_length [of s] by (simp add: member_size_def)

lemma size_juint:
  assumes "n < 2 ^ 32" "length k \<le> 9"
  shows "member_size (k, juint n) \<le> 68"
proof -
  have "length (nat_str n) \<le> Suc 9" using assms(1) by (intro nat_str_length) simp
  with assms(2) quote_length [of k] show ?thesis by (simp add: member_size_def juint_def)
qed

lemma unat_fits: "unat (p :: u16) < 2 ^ 32" "unat (q :: u32) < 2 ^ 32"
proof -
  have "unat p < 2 ^ LENGTH(16)" "unat q < 2 ^ LENGTH(32)" by (rule unsigned_less)+
  then show "unat p < 2 ^ 32" "unat q < 2 ^ 32" by simp_all
qed

lemma request_length:
  "length (marshal_Request r) \<le>
     500 + 6 * (length (rq_Command r) + length (rq_Value r) + length (rq_Protocol r) + length (rq_Action r))"
proof -
  have "length (marshal_Request r) \<le> 2 + (member_size (''command'', JStr (rq_Command r)) +
      (member_size (''value'', JStr (rq_Value r)) + (member_size (''protocol'', JStr (rq_Protocol r)) +
      (member_size (''port'', juint (unat (rq_Port r))) + (member_size (''sport'', juint (unat (rq_SPort r))) +
      (member_size (''action'', JStr (rq_Action r)) + member_size (''priority'', juint (unat (rq_Priority r)))))))))"
    unfolding marshal_Request_def encode_Request_def
    by (rule order_trans [OF object_length])
      (simp only: concat.simps map_append sum_list_append list.map sum_list.Nil sum_list.Cons jfield_def
        add_0_right, intro add_mono omitempty_size order_refl)
  moreover note size_JStr [of "''command''" "rq_Command r"] size_JStr [of "''value''" "rq_Value r"]
    size_JStr [of "''protocol''" "rq_Protocol r"] size_JStr [of "''action''" "rq_Action r"]
    size_juint [OF unat_fits(1) [of "rq_Port r"], of "''port''"]
    size_juint [OF unat_fits(1) [of "rq_SPort r"], of "''sport''"]
    size_juint [OF unat_fits(2) [of "rq_Priority r"], of "''priority''"]
  ultimately show ?thesis by simp
qed

section \<open>The socket\<close>

text \<open>What the client relies on. The daemon's world is a part of the client's; a refused connection and
  the close leave it alone, and after a completed write the answer is the server's.\<close>

locale unix_socket =
  fixes net :: "('x, 'c) dial_env"
    and env :: codec_env
    and s :: "('w, 'n) Server"
    and path :: string
    and daemon :: "'x \<Rightarrow> 'w"
  assumes codec: "codec_ok env"
    and refused: "de_Dial net path x = (x1, Inl err) \<Longrightarrow> daemon x1 = daemon x"
    and answered: "de_Dial net path x = (x1, Inr c) \<Longrightarrow> de_Write net c bytes x1 = (x2, None) \<Longrightarrow>
      de_Read net c x2 = (x3, out) \<Longrightarrow>
      Server_handleConn env s bytes (daemon x) = (daemon x3, if out = '''' then None else Some out)"
    and closed: "daemon (de_Close net c x) = daemon x"
begin

lemma roundTrip_answer:
  assumes "de_Dial net path x = (x1, Inr c)" "de_Write net c (marshal_Request req @ [CHR 0x0A]) x1 = (x2, None)"
    "length (marshal_Request req) < scan_buffer"
    "Server_handle s (wired_Request req) (daemon x) = (w', r)"
    "encode_Response env r \<noteq> None" "int_ok (rs_Count r)"
  shows "\<exists>x'. roundTrip net env path req x = (x', Inr (wired_Response env r)) \<and> daemon x' = w'"
proof -
  obtain x3 out where r: "de_Read net c x2 = (x3, out)" by fastforce
  from answered [OF assms(1,2) r]
  have "daemon x3 = w'" "out = writeResponse env r"
    using handleConn_request [OF assms(3), of env s "[]" "daemon x"] assms(4) by (auto split: if_splits)
  with assms(1,2) r response_sent [OF codec assms(6,5)] closed show ?thesis
    by (simp add: roundTrip_def)
qed

end

text \<open>A socket on which the server runs when the client reads.\<close>

definition loopback :: "codec_env \<Rightarrow> ('w, 'n) Server \<Rightarrow> string \<Rightarrow> ('w \<times> string, unit) dial_env" where
  "loopback env s path =
     \<lparr>de_Dial = (\<lambda>p (w, pending). if p = path then ((w, ''''), Inr ()) else ((w, pending), Inl 2)),
      de_Write = (\<lambda>c bytes (w, pending). ((w, pending @ bytes), None)),
      de_Read = (\<lambda>c (w, pending).
        case Server_handleConn env s pending w of
          (w', out) \<Rightarrow> ((w', ''''), case out of None \<Rightarrow> '''' | Some t \<Rightarrow> t)),
      de_Close = (\<lambda>c x. x)\<rparr>"

lemma writeResponse_not_Nil [simp]: "writeResponse env r \<noteq> []"
  by (simp add: writeResponse_def)

lemma handleConn_not_Nil: "Server_handleConn env s bytes w = (w', Some out) \<Longrightarrow> out \<noteq> []"
  by (auto simp: Server_handleConn_def split: option.splits prod.splits)

lemma loopback_socket:
  assumes "codec_ok env"
  shows "unix_socket (loopback env s path) env s path fst"
proof
  fix x x1 x2 x3 c bytes out
  assume d: "de_Dial (loopback env s path) path x = (x1, Inr c)"
    "de_Write (loopback env s path) c bytes x1 = (x2, None)" "de_Read (loopback env s path) c x2 = (x3, out)"
  obtain w' o' where h: "Server_handleConn env s bytes (fst x) = (w', o')" by fastforce
  with d handleConn_not_Nil [of env s bytes "fst x" w'] show
    "Server_handleConn env s bytes (fst x) = (fst x3, if out = [] then None else Some out)"
    by (auto simp: loopback_def case_prod_unfold split: option.splits)
qed (auto simp: assms loopback_def split: if_splits)

text \<open>A codec for the runs below: every error has the same text, an age is printed in whole seconds.\<close>

definition whole_seconds :: "float64 \<Rightarrow> string option" where
  "whole_seconds f =
     (case f of
        NanosInSeconds n \<Rightarrow> Some (nat_str (unat n div 1000000000))
      | ParsedFloat t \<Rightarrow> if number_ok t then Some t else None)"

definition ref_codec :: codec_env where
  "ref_codec = \<lparr>co_errorText = (\<lambda>e. ''error''), co_floatText = whole_seconds, co_floatRange = (\<lambda>t. True)\<rparr>"

lemma ref_codec_ok: "codec_ok ref_codec"
  by (auto simp: codec_ok_def ref_codec_def whole_seconds_def number_ok_nat_str split: float64.splits if_splits)

interpretation loopback: unix_socket "loopback ref_codec s path" ref_codec s path fst for s path
  by (rule loopback_socket [OF ref_codec_ok])

section \<open>Error replies\<close>

lemma encode_error: "encode_Response env (errResponse e) \<noteq> None"
  by (simp add: encode_Response_def errResponse_def okResponse_def jslice_def)

lemma encode_failed_text:
  "encode_failed = json_text (JObj [(''ok'', JBool False), (''error'', JStr ''internal: failed to encode response'')])"
  by (simp add: encode_failed_def quote_def quote_ascii_def byte_def)

lemma encode_failed_read:
  "decode_Response env (encode_failed @ [CHR 0x0A]) =
     Some (Response_zero\<lparr>rs_Error := Some (ErrorText ''internal: failed to encode response'')\<rparr>)"
proof -
  let ?j = "JObj [(''ok'', JBool False), (''error'', JStr ''internal: failed to encode response'')]"
  have "fits max_nesting ?j" by (simp add: max_nesting_def)
  from document_back(2) [OF this, of "[CHR 0x0A]"]
  have p: "parse_first (encode_failed @ [CHR 0x0A]) = Some (json_utf8 ?j)" by (simp add: encode_failed_text)
  have "json_utf8 ?j = ?j" by (simp add: byte_def)
  then show ?thesis
    by (simp add: decode_Response_def p dec_struct_def find_Response_field field_def dec_bool_def dec_error_def
        error_of_text_def)
      (simp add: Response_zero_def okResponse_def)
qed

text \<open>Whatever the encoder makes of a reply, the client can read it: the reply as it arrives, or the
  report that it could not be encoded.\<close>

lemma response_readable:
  assumes "codec_ok env" "int_ok (rs_Count r)"
  shows "\<exists>resp. decode_Response env (writeResponse env r) = Some resp \<and>
    (resp = wired_Response env r \<or> \<not> rs_OK resp \<and> encode_Response env r = None)"
proof (cases "encode_Response env r = None")
  case True
  then have "writeResponse env r = encode_failed @ [CHR 0x0A]" by (simp add: writeResponse_def marshal_Response_def)
  then show ?thesis using True by (simp add: encode_failed_read) (simp add: Response_zero_def okResponse_def)
next
  case False
  then show ?thesis using response_sent [OF assms] by auto
qed

end
