(* ===== verification/Lifecycle.thy ===== *)
theory Lifecycle
  imports Prelude
begin

text \<open>
  The goroutines of \<open>control/server/server.go\<close> around the connections: the accept loop, one handler per
  connection, the goroutine that closes the listener when the context ends, and \<open>Close\<close>. The
  state is the listener, the \<open>live\<close> flag, the wait group's counter, where the accept loop and \<open>Close\<close>
  stand, and where each handler stands. A label names the next thing one goroutine does; the
  \<open>*_next\<close> functions give the state after it, \<open>None\<close> when that goroutine cannot do it. A run is
  any list of labels: the goroutines interleave freely. What a handler does to the policy is in
  Session and Micro; here it is one label.
\<close>

section \<open>State and steps\<close>

datatype loop_at = Accepting | Got nat | Added nat | Exited

datatype conn_at = Serving | Answering | Finished

datatype close_at = NotClosing | ListenerClosed | LiveCleared | Waited | Returned

record life =
  lc_listening :: bool
  lc_live :: bool
  lc_wg :: int
  lc_loop :: loop_at
  lc_conns :: "conn_at list"
  lc_close :: close_at

datatype life_label =
    AcceptConn | AcceptFails | WgAdd | GoHandle
  | Apply nat | GiveUp nat | WgDone nat
  | ContextEnds
  | CloseListener | ClearLive | WaitReturns | RemoveSocket

text \<open>\<open>acceptLoop\<close>. Every error of \<open>Accept\<close> ends it, whether the listener is closed or not. Connections are numbered in the order in which they are accepted; the handlers in the
  list are those whose goroutine has been started.\<close>

definition accept_next :: "life_label \<Rightarrow> life \<Rightarrow> life option" where
  "accept_next l s =
     (case (l, lc_loop s) of
        (AcceptConn, Accepting) \<Rightarrow>
          if lc_listening s then Some (s\<lparr>lc_loop := Got (length (lc_conns s))\<rparr>) else None
      | (AcceptFails, Accepting) \<Rightarrow> Some (s\<lparr>lc_loop := Exited\<rparr>)
      | (WgAdd, Got c) \<Rightarrow> Some (s\<lparr>lc_wg := lc_wg s + 1, lc_loop := Added c\<rparr>)
      | (GoHandle, Added c) \<Rightarrow> Some (s\<lparr>lc_conns := lc_conns s @ [Serving], lc_loop := Accepting\<rparr>)
      | _ \<Rightarrow> None)"

text \<open>\<open>handleConn\<close>: the request is applied, or the line never comes or is malformed; then the deferred
  \<open>wg.Done\<close>.\<close>

definition conn_next :: "life_label \<Rightarrow> life \<Rightarrow> life option" where
  "conn_next l s =
     (let move = (\<lambda>c here there s'. if c < length (lc_conns s) \<and> lc_conns s ! c = here
                    then Some (s'\<lparr>lc_conns := (lc_conns s)[c := there]\<rparr>) else None)
      in case l of
           Apply c \<Rightarrow> move c Serving Answering s
         | GiveUp c \<Rightarrow> move c Serving Answering s
         | WgDone c \<Rightarrow> move c Answering Finished (s\<lparr>lc_wg := lc_wg s - 1\<rparr>)
         | _ \<Rightarrow> None)"

text \<open>The goroutine \<open>Start\<close> leaves behind: \<open><-ctx.Done(); ln.Close()\<close>.\<close>

definition context_next :: "life_label \<Rightarrow> life \<Rightarrow> life option" where
  "context_next l s = (if l = ContextEnds then Some (s\<lparr>lc_listening := False\<rparr>) else None)"

text \<open>\<open>Close\<close>; \<open>wg.Wait\<close> returns when the counter is zero.\<close>

definition close_next :: "life_label \<Rightarrow> life \<Rightarrow> life option" where
  "close_next l s =
     (case (l, lc_close s) of
        (CloseListener, NotClosing) \<Rightarrow> Some (s\<lparr>lc_listening := False, lc_close := ListenerClosed\<rparr>)
      | (ClearLive, ListenerClosed) \<Rightarrow> Some (s\<lparr>lc_live := False, lc_close := LiveCleared\<rparr>)
      | (WaitReturns, LiveCleared) \<Rightarrow> if lc_wg s = 0 then Some (s\<lparr>lc_close := Waited\<rparr>) else None
      | (RemoveSocket, Waited) \<Rightarrow> Some (s\<lparr>lc_close := Returned\<rparr>)
      | _ \<Rightarrow> None)"

definition life_next :: "life_label \<Rightarrow> life \<Rightarrow> life option" where
  "life_next l s =
     (case l of
        Apply c \<Rightarrow> conn_next l s | GiveUp c \<Rightarrow> conn_next l s | WgDone c \<Rightarrow> conn_next l s
      | ContextEnds \<Rightarrow> context_next l s
      | CloseListener \<Rightarrow> close_next l s | ClearLive \<Rightarrow> close_next l s
      | WaitReturns \<Rightarrow> close_next l s | RemoveSocket \<Rightarrow> close_next l s
      | _ \<Rightarrow> accept_next l s)"

fun life_run :: "life_label list \<Rightarrow> life \<Rightarrow> life option" where
  "life_run [] s = Some s"
| "life_run (l # ls) s = (case life_next l s of None \<Rightarrow> None | Some s' \<Rightarrow> life_run ls s')"

text \<open>The state \<open>Start\<close> leaves.\<close>

definition started :: life where
  "started = \<lparr>lc_listening = True, lc_live = True, lc_wg = 0, lc_loop = Accepting, lc_conns = [],
     lc_close = NotClosing\<rparr>"

lemma life_run_append: "life_run (xs @ ys) s = (case life_run xs s of None \<Rightarrow> None | Some s' \<Rightarrow> life_run ys s')"
  by (induction xs arbitrary: s) (auto split: option.splits)

lemmas next_defs = life_next_def accept_next_def conn_next_def context_next_def close_next_def

section \<open>What the wait group counts\<close>

definition in_service :: "conn_at list \<Rightarrow> nat" where
  "in_service cs = length (filter (\<lambda>c. c \<noteq> Finished) cs)"

text \<open>Its counter is the number of handlers that have not finished, and of the connection the accept
  loop has counted but not handed over; once \<open>Close\<close> has begun, the listener is closed.\<close>

definition life_ok :: "life \<Rightarrow> bool" where
  "life_ok s \<longleftrightarrow>
     lc_wg s = int (in_service (lc_conns s)) + (case lc_loop s of Added c \<Rightarrow> 1 | _ \<Rightarrow> 0) \<and>
     (lc_close s \<noteq> NotClosing \<longrightarrow> \<not> lc_listening s)"

lemma in_service_update:
  "c < length cs \<Longrightarrow> cs ! c \<noteq> Finished \<Longrightarrow>
     int (in_service (cs[c := p])) = (if p = Finished then int (in_service cs) - 1 else int (in_service cs))"
proof (induction cs arbitrary: c)
  case (Cons x cs)
  then show ?case by (cases c) (auto simp: in_service_def)
qed simp

lemma in_service_simps [simp]:
  "in_service [] = 0" "in_service (cs @ [Serving]) = Suc (in_service cs)"
  by (simp_all add: in_service_def)

lemma in_service_zero: "in_service cs = 0 \<longleftrightarrow> (\<forall>c \<in> set cs. c = Finished)"
  by (auto simp: in_service_def filter_empty_conv)

lemma life_next_ok: "life_next l s = Some s' \<Longrightarrow> life_ok s \<Longrightarrow> life_ok s'"
  by (auto simp: next_defs life_ok_def in_service_update Let_def
      split: life_label.splits loop_at.splits close_at.splits if_splits)

lemma life_run_ok: "life_run ls s = Some s' \<Longrightarrow> life_ok s \<Longrightarrow> life_ok s'"
  by (induction ls arbitrary: s) (auto split: option.splits intro: life_next_ok)

lemma started_ok: "life_ok started"
  by (simp add: life_ok_def started_def)

section \<open>After the wait\<close>

text \<open>Nothing is in service and no connection can come: the state in which no request is applied any more.\<close>

definition quiet_life :: "life \<Rightarrow> bool" where
  "quiet_life s \<longleftrightarrow> \<not> lc_listening s \<and> (\<forall>c \<in> set (lc_conns s). c = Finished) \<and>
     (lc_loop s = Accepting \<or> lc_loop s = Exited)"

lemma quiet_next:
  assumes "quiet_life s" "life_next l s = Some s'"
  shows "quiet_life s' \<and> (\<forall>c. l \<noteq> Apply c)"
  using assms
  by (auto simp: next_defs quiet_life_def Let_def all_set_conv_all_nth
      split: life_label.splits loop_at.splits close_at.splits if_splits)

lemma quiet_run: "life_run ls s = Some s' \<Longrightarrow> quiet_life s \<Longrightarrow> Apply c \<notin> set ls"
proof (induction ls arbitrary: s)
  case (Cons l ls)
  then obtain s1 where "life_next l s = Some s1" "life_run ls s1 = Some s'" by (auto split: option.splits)
  with Cons quiet_next [of s l s1] show ?case by auto
qed simp

lemma wait_returns:
  assumes "life_ok s" "life_next WaitReturns s = Some s'"
  shows "lc_wg s = 0 \<and> (\<forall>c \<in> set (lc_conns s). c = Finished) \<and> (\<forall>c. lc_loop s \<noteq> Added c) \<and> \<not> lc_listening s \<and>
    s' = s\<lparr>lc_close := Waited\<rparr>"
  using assms in_service_zero [of "lc_conns s"]
  by (auto simp: next_defs life_ok_def split: close_at.splits if_splits loop_at.splits)

text \<open>A connection the accept loop has taken but not counted is served after \<open>Close\<close> has waited.\<close>

lemma late_run:
  assumes "lc_loop s = Got c" "lc_close s = Waited"
  shows "\<exists>s'. life_run [RemoveSocket, WgAdd, GoHandle, Apply (length (lc_conns s))] s = Some s'"
  using assms by (simp add: next_defs Let_def nth_append)

text \<open>An error of \<open>Accept\<close> makes the server deaf: no handler is started any more, though \<open>live\<close> stays set.\<close>

lemma deaf_after_error:
  "life_run ls s = Some s' \<Longrightarrow> lc_loop s = Exited \<Longrightarrow>
     lc_loop s' = Exited \<and> length (lc_conns s') = length (lc_conns s)"
proof (induction ls arbitrary: s)
  case (Cons l ls)
  then obtain s1 where s1: "life_next l s = Some s1" "life_run ls s1 = Some s'" by (auto split: option.splits)
  with Cons.prems(2) have "lc_loop s1 = Exited \<and> length (lc_conns s1) = length (lc_conns s)"
    by (auto simp: next_defs Let_def split: life_label.splits close_at.splits if_splits)
  with Cons.IH [OF s1(2)] show ?case by simp
qed simp

lemma accept_error_run:
  "life_run [AcceptFails] started = Some (started\<lparr>lc_loop := Exited\<rparr>)"
  by (simp add: next_defs started_def)

end
