(* ===== verification/SessionProps.thy ===== *)
theory SessionProps
  imports Session Lifecycle Examples
begin

text \<open>
  Properties of a conversation over the control socket: what \<open>firewallctl\<close> prints for a command line is
  the server's answer to the request of that command line, through both JSON codecs; the listings
  show the tables entry by entry; every line a client sends gets one answer it can read; a reply
  has the shape its command calls for. The witnesses run on the socket \<open>loopback\<close>.
\<close>

section \<open>ASCII texts arrive as they are\<close>

lemma ascii_append [simp]: "ascii (s @ t) \<longleftrightarrow> ascii s \<and> ascii t"
  by (auto simp: ascii_def)

lemma ascii_nat_str [simp]: "ascii (nat_str n)"
proof -
  have "byte c < 0x80" if "c \<in> set (nat_str n)" for c
  proof -
    have "is_digit c" using nat_str_digits that by blast
    then show ?thesis by (simp add: is_digit_def byte_def)
  qed
  then show ?thesis by (simp add: ascii_def)
qed

lemma ascii_letters [simp]:
  "byte (CHR ''.'') < 0x80" "byte (CHR ''/'') < 0x80"
  by (simp_all add: byte_def)

lemma ascii_texts [simp]:
  "ascii (ipv4_str a b c d)" "ascii (lpm_cidr k)" "ascii (le_ip_str v)" "ascii (Action_String x)"
  "ascii (codeToProto p)" "ascii (ctStateString st)"
  by (simp_all add: ipv4_str_def lpm_cidr_def le_ip_str_def Action_String_def codeToProto_def
      ctStateString_def byte_def)

lemma wired_rules [simp]:
  "wired_BlockedRule (blockedRuleOf e) = blockedRuleOf e" "wired_PortRule (portRuleOf p) = portRuleOf p"
  by (cases e; simp add: wired_BlockedRule_def blockedRuleOf_def to_utf8_id)
    (cases p; simp add: wired_PortRule_def portRuleOf_def to_utf8_id)

lemma wired_cmds: "rq_Command req \<in> read_commands \<union> write_commands \<Longrightarrow> to_utf8 (rq_Command req) = rq_Command req"
  by (rule to_utf8_id) (auto simp: read_commands_def write_commands_def cmd_defs byte_def)

definition ascii_request :: "Request \<Rightarrow> bool" where
  "ascii_request req \<longleftrightarrow> ascii (rq_Value req) \<and> ascii (rq_Protocol req) \<and> ascii (rq_Action req)"

lemma wired_ascii_request:
  "ascii_request req \<Longrightarrow> rq_Command req \<in> read_commands \<union> write_commands \<Longrightarrow> wired_Request req = req"
  by (simp add: wired_Request_def wired_cmds ascii_request_def to_utf8_id)

lemma command_length: "rq_Command req \<in> read_commands \<union> write_commands \<Longrightarrow> length (rq_Command req) \<le> 10"
  by (auto simp: read_commands_def write_commands_def cmd_defs)

lemma short_request:
  assumes "rq_Command req \<in> read_commands \<union> write_commands"
    "length (rq_Value req) + length (rq_Protocol req) + length (rq_Action req) \<le> 10000"
  shows "length (marshal_Request req) < scan_buffer"
  using request_length [of req] command_length [OF assms(1)] assms(2) by (simp add: scan_buffer_def)

text \<open>The client only sends commands the server knows.\<close>

lemma sent_command: "ctl_main raw = CtlSend sock req \<Longrightarrow> rq_Command req \<in> read_commands \<union> write_commands"
  by (auto simp: ctl_main_def plain_request_def read_commands_def write_commands_def cmd_defs
      split: option_result.splits list.splits if_split_asm)

lemma firewallctl_answer:
  assumes "unix_socket net env s path daemon" "ctl_main raw = CtlSend path req"
    "de_Dial net path x = (x1, Inr c)" "de_Write net c (marshal_Request req @ [CHR 0x0A]) x1 = (x2, None)"
    "ascii_request req" "length (rq_Value req) + length (rq_Protocol req) + length (rq_Action req) \<le> 10000"
    "Server_handle s req (daemon x) = (w', r)" "encode_Response env r \<noteq> None" "int_ok (rs_Count r)"
  shows "\<exists>x'. firewallctl net env raw x = (x', Answered (printResponse (wired_Response env r))) \<and> daemon x' = w'"
proof -
  note cmd = sent_command [OF assms(2)]
  have "Server_handle s (wired_Request req) (daemon x) = (w', r)"
    using assms(7) by (simp add: wired_ascii_request [OF assms(5) cmd])
  from unix_socket.roundTrip_answer [OF assms(1,3,4) short_request [OF cmd assms(6)] this assms(8,9)]
  show ?thesis using assms(2) by (auto simp: firewallctl_def)
qed

section \<open>A command and what it prints\<close>

text \<open>Claim C13: one command line, one request, one answer. When the socket can be reached, \<open>firewallctl\<close>
  prints the server's reply to the request of the command line, and the daemon is in the state the
  server's handler leaves: the request is encoded, found by the scanner, decoded, applied once, and its
  reply encoded and decoded; what the client has is the reply with its error by its text, its ages
  by their decimals and its strings in valid UTF-8. Arguments of up to 10000 bytes fit the scanner's buffer.\<close>

theorem client_prints_reply:
  assumes "unix_socket net env s path daemon" "ctl_main raw = CtlSend path req"
    "de_Dial net path x = (x1, Inr c)" "de_Write net c (marshal_Request req @ [CHR 0x0A]) x1 = (x2, None)"
    "ascii_request req" "length (rq_Value req) + length (rq_Protocol req) + length (rq_Action req) \<le> 10000"
    "Server_handle s req (daemon x) = (w', r)" "encode_Response env r \<noteq> None" "int_ok (rs_Count r)"
  shows "\<exists>x'. firewallctl net env raw x = (x', Answered (printResponse (wired_Response env r))) \<and> daemon x' = w'"
  by (rule firewallctl_answer [OF assms])

lemma demo_command:
  "ctl_main [''block'', ''10.0.0.0/8'', ''-action'', ''drop'', ''-priority'', ''5''] =
     CtlSend ''/var/run/ebpf-firewall.sock'' block_request"
proof -
  have "classify ''block'' = ArgPlain" "classify ''10.0.0.0/8'' = ArgPlain"
    "classify ''-action'' = ArgNeedsValue OptAction" "classify ''-priority'' = ArgNeedsValue OptPriority"
    by code_simp+
  moreover have "ParseUint ''5'' 32 = Some 5" by (simp add: ParseUint_def digit_val_def is_digit_def)
  ultimately show ?thesis
    by (simp add: ctl_main_def extractOptions_def store_option_def parsePriority_def default_options_def
        block_request_def plain_request_def)
qed

lemma encode_okResponse: "encode_Response env okResponse \<noteq> None"
  by (simp add: encode_Response_def okResponse_def jslice_def)

lemma okResponse_count: "int_ok (rs_Count okResponse)"
  by (simp add: int_ok_def okResponse_def)

lemma loopback_calls:
  "de_Dial (loopback env s path) path x = ((fst x, ''''), Inr ())"
  "de_Write (loopback env s path) c bytes (w, p) = ((w, p @ bytes), None)"
  by (simp_all add: loopback_def split: prod.split)

theorem client_prints_reply_witness:
  "\<exists>x'. firewallctl (loopback ref_codec demo_server ''/var/run/ebpf-firewall.sock'') ref_codec
      [''block'', ''10.0.0.0/8'', ''-action'', ''drop'', ''-priority'', ''5''] (boot_kernel, '''') =
        (x', Answered (printResponse (wired_Response ref_codec okResponse))) \<and> fst x' = blocked_kernel"
proof -
  have "ascii_request block_request" by (simp add: ascii_request_def byte_def)
  then show ?thesis
    by (rule client_prints_reply [OF loopback.unix_socket_axioms demo_command loopback_calls(1) loopback_calls(2)])
      (simp_all add: handle_block_demo encode_okResponse okResponse_count)
qed

section \<open>Listings\<close>

text \<open>A listing: the line for an empty table, or a heading and one printed item per entry.\<close>

definition listing :: "string \<Rightarrow> out_item list \<Rightarrow> ('e \<Rightarrow> out_item list) \<Rightarrow> 'e list \<Rightarrow> out_item list" where
  "listing none heading item es =
     (if es = [] then print_line none else heading @ concat (map item es))"

definition entries_of :: "('k \<times> 'v) list \<Rightarrow> ('k \<rightharpoonup> 'v) \<Rightarrow> bool" where
  "entries_of es m \<longleftrightarrow> distinct (map fst es) \<and> map_of es = m"

definition counted :: "string \<Rightarrow> 'e list \<Rightarrow> out_item list" where
  "counted title es = [Txt title, SInt (int (length es)), Txt ''):'', NewLine]"

lemma print_list_reply:
  assumes "r = okResponse\<lparr>rs_Blocked := Some (map (br_Cidr \<circ> blockedRuleOf) es),
      rs_BlockedRules := append_all (map blockedRuleOf es), rs_Count := int (length es)\<rparr>"
  shows "printResponse (wired_Response env r) = Printed
    (listing ''no blocked addresses'' (counted ''blocked ('' es) (print_rule \<circ> blockedRuleOf) es)"
  unfolding assms
  by (cases es) (simp_all add: printResponse_def wired_Response_def okResponse_def append_all_def
      error_text_def error_of_text_def listing_def counted_def comp_def)

lemma print_ports_reply:
  assumes "r = okResponse\<lparr>rs_PortRules := Some (map portRuleOf es), rs_Count := int (length es)\<rparr>"
  shows "printResponse (wired_Response env r) = Printed
    (listing ''no port rules'' (print_line ''port rules:'') (print_port_rule \<circ> portRuleOf) es)"
  unfolding assms
  by (cases es) (simp_all add: printResponse_def wired_Response_def okResponse_def
      error_text_def error_of_text_def listing_def comp_def)

lemma print_flows_reply:
  assumes "r = okResponse\<lparr>rs_Conntrack := Some (map (\<lambda>(k, v). ctEntry k v now) es), rs_Count := int (length es)\<rparr>"
  shows "printResponse (wired_Response env r) = Printed
    (listing ''no tracked flows'' (counted ''conntrack ('' es)
      (\<lambda>(k, v). print_flow (wired_ConntrackEntry env (ctEntry k v now))) es)"
  unfolding assms
  by (cases es) (simp_all add: printResponse_def wired_Response_def okResponse_def
      error_text_def error_of_text_def listing_def counted_def comp_def case_prod_unfold)

text \<open>The replies of the three listing commands.\<close>

context firewall_env
begin

lemma list_reply:
  assumes "sv_policy s = firewall_policy fw" "Server_handle s (plain_request CmdList) w = (w', r)" "rs_OK r"
  shows "\<exists>es. w' = w \<and> entries_of es (blocked_ips (gh_view G w)) \<and>
    r = okResponse\<lparr>rs_Blocked := Some (map (br_Cidr \<circ> blockedRuleOf) es),
      rs_BlockedRules := append_all (map blockedRuleOf es), rs_Count := int (length es)\<rparr>"
proof -
  from assms obtain rules where l: "MapManager_ListBlockedRules (fw_mgr fw) w = Inr rules" and
      r: "w' = w" "r = okResponse\<lparr>rs_Blocked := Some (map br_Cidr (slice_list rules)), rs_BlockedRules := rules,
        rs_Count := int (length (slice_list rules))\<rparr>"
    by (auto simp: Server_handle_def plain_request_def cmd_defs handle_list_def firewall_policy_def
        Firewall_ListBlockedRules_def Let_def split: sum.splits)
  from B.List_effect [OF l] obtain es where "entries_of es (blocked_ips (gh_view G w))"
      "rules = append_all (map blockedRuleOf es)"
    by (auto simp: entries_of_def)
  with r show ?thesis by (intro exI [of _ es]) simp
qed

lemma listports_reply:
  assumes "sv_policy s = firewall_policy fw" "Server_handle s (plain_request CmdListPorts) w = (w', r)" "rs_OK r"
  shows "\<exists>es. w' = w \<and> entries_of es (port_policy (gh_view G w)) \<and>
    r = okResponse\<lparr>rs_PortRules := Some (map portRuleOf es), rs_Count := int (length es)\<rparr>"
proof -
  from assms obtain rules where l: "PortPolicyManager_List (fw_portPolicyMgr fw) w = Inr rules" and
      r: "w' = w" "r = okResponse\<lparr>rs_PortRules := rules, rs_Count := int (slice_len rules)\<rparr>"
    by (auto simp: Server_handle_def plain_request_def cmd_defs handle_listports_def firewall_policy_def
        Firewall_ListPortRules_def split: sum.splits)
  from Po.List_effect [OF l] r show ?thesis by (auto simp: entries_of_def)
qed

lemma conntrack_reply:
  assumes "sv_policy s = firewall_policy fw" "Server_handle s (plain_request CmdConntrack) w = (w', r)" "rs_OK r"
  shows "\<exists>es now. w' = w \<and> monotonicNanos (ct_clock (fw_ctMgr fw)) w = Inr now \<and>
    entries_of es (conntrack (gh_view G w)) \<and>
    r = okResponse\<lparr>rs_Conntrack := Some (map (\<lambda>(k, v). ctEntry k v now) es), rs_Count := int (length es)\<rparr>"
proof -
  from assms obtain flows where l: "ConntrackManager_List (fw_ctMgr fw) w = Inr flows" and
      r: "w' = w" "r = okResponse\<lparr>rs_Conntrack := flows, rs_Count := int (slice_len flows)\<rparr>"
    by (auto simp: Server_handle_def plain_request_def cmd_defs handle_conntrack_def firewall_policy_def
        Firewall_ListConntrack_def split: sum.splits)
  from Ct.List_effect [OF l] r show ?thesis by (auto simp: entries_of_def)
qed

end

text \<open>Every listing reply can be encoded when the ages have a text.\<close>

lemma those_map_exists: "\<forall>x \<in> set xs. f x \<noteq> None \<Longrightarrow> \<exists>ys. those (map f xs) = Some ys"
  by (induction xs) auto

lemma jslice_exists: "\<forall>x \<in> set (slice_list t). f x \<noteq> None \<Longrightarrow> \<exists>j. jslice f t = Some j"
  using those_map_exists [of "slice_list t" f] by (cases t) (auto simp: jslice_def)

lemma jslice_total: "\<exists>j. jslice (Some \<circ> f) t = Some j"
  by (rule jslice_exists) simp

lemma encode_exists:
  assumes "\<forall>e \<in> set (slice_list (rs_Conntrack r)). co_floatText env (ce_AgeSeconds e) \<noteq> None"
  shows "encode_Response env r \<noteq> None"
proof -
  have "\<exists>j. jslice (encode_ConntrackEntry env) (rs_Conntrack r) = Some j"
    by (rule jslice_exists) (use assms in \<open>auto simp: encode_ConntrackEntry_def\<close>)
  then show ?thesis
    using jslice_total [of JStr "rs_Blocked r"] jslice_total [of encode_BlockedRule "rs_BlockedRules r"]
      jslice_total [of encode_PortRule "rs_PortRules r"]
    by (auto simp: encode_Response_def)
qed

definition ages_printable :: "codec_env \<Rightarrow> bool" where
  "ages_printable env \<longleftrightarrow> (\<forall>n. co_floatText env (NanosInSeconds n) \<noteq> None)"

text \<open>Claim C29: what the listing commands of \<open>firewallctl\<close> print. The output is taken from exactly the
  entries of the table: one line per entry, with its CIDR or port, action and priority, or addresses,
  state and age; an empty table is reported by the command's own line - the difference between an
  empty and a missing list survives the socket.\<close>

theorem listings_shown:
  assumes "firewall_env G fw" "sv_policy s = firewall_policy fw" "unix_socket net env s path daemon"
    "ages_printable env" "ctl_main raw = CtlSend path (plain_request cmd)"
    "cmd \<in> {CmdList, CmdListPorts, CmdConntrack}"
    "de_Dial net path x = (x1, Inr c)"
    "de_Write net c (marshal_Request (plain_request cmd) @ [CHR 0x0A]) x1 = (x2, None)"
    "rs_OK (snd (Server_handle s (plain_request cmd) (daemon x)))"
    "int_ok (rs_Count (snd (Server_handle s (plain_request cmd) (daemon x))))"
  shows "\<exists>x' out. firewallctl net env raw x = (x', Answered (Printed out)) \<and> daemon x' = daemon x \<and>
    (cmd = CmdList \<longrightarrow> (\<exists>es. entries_of es (blocked_ips (gh_view G (daemon x))) \<and>
       out = listing ''no blocked addresses'' (counted ''blocked ('' es) (print_rule \<circ> blockedRuleOf) es)) \<and>
    (cmd = CmdListPorts \<longrightarrow> (\<exists>es. entries_of es (port_policy (gh_view G (daemon x))) \<and>
       out = listing ''no port rules'' (print_line ''port rules:'') (print_port_rule \<circ> portRuleOf) es)) \<and>
    (cmd = CmdConntrack \<longrightarrow> (\<exists>es now. entries_of es (conntrack (gh_view G (daemon x))) \<and>
       monotonicNanos (ct_clock (fw_ctMgr fw)) (daemon x) = Inr now \<and>
       out = listing ''no tracked flows'' (counted ''conntrack ('' es)
         (\<lambda>(k, v). print_flow (wired_ConntrackEntry env (ctEntry k v now))) es))"
proof -
  obtain w' r where h: "Server_handle s (plain_request cmd) (daemon x) = (w', r)" by fastforce
  have a: "ascii_request (plain_request cmd)" "rq_Value (plain_request cmd) = ''''"
      "rq_Protocol (plain_request cmd) = ''''" "rq_Action (plain_request cmd) = ''''"
    by (simp_all add: ascii_request_def plain_request_def)
  note list = firewall_env.list_reply [OF assms(1,2)] firewall_env.listports_reply [OF assms(1,2)]
    firewall_env.conntrack_reply [OF assms(1,2)]
  have ok: "rs_OK r" and i: "int_ok (rs_Count r)" using assms(9,10) by (simp_all add: h)
  have "encode_Response env r \<noteq> None"
  proof (rule encode_exists)
    show "\<forall>e \<in> set (slice_list (rs_Conntrack r)). co_floatText env (ce_AgeSeconds e) \<noteq> None"
      using assms(4,6) list [of "daemon x" w' r] h ok
      by (auto simp: ages_printable_def ctEntry_def okResponse_def)
  qed
  from firewallctl_answer [OF assms(3,5,7,8) a(1) _ h this i] a obtain x' where
      x': "firewallctl net env raw x = (x', Answered (printResponse (wired_Response env r)))" "daemon x' = w'"
    by auto
  consider "cmd = CmdList" | "cmd = CmdListPorts" | "cmd = CmdConntrack" using assms(6) by blast
  then show ?thesis
  proof cases
    case 1
    with list(1) [of "daemon x" w' r] h ok print_list_reply [of r] x' show ?thesis by (auto simp: cmd_defs)
  next
    case 2
    with list(2) [of "daemon x" w' r] h ok print_ports_reply [of r] x' show ?thesis by (auto simp: cmd_defs)
  next
    case 3
    with list(3) [of "daemon x" w' r] h ok print_flows_reply [of r] x' show ?thesis by (auto simp: cmd_defs)
  qed
qed

lemma ref_ages: "ages_printable ref_codec"
  by (simp add: ages_printable_def ref_codec_def whole_seconds_def)

lemma list_command: "ctl_main [''list''] = CtlSend ''/var/run/ebpf-firewall.sock'' (plain_request CmdList)"
proof -
  have "classify ''list'' = ArgPlain" by code_simp
  then show ?thesis by (simp add: ctl_main_def extractOptions_def default_options_def)
qed

theorem listings_shown_witness:
  "\<exists>x' out es. firewallctl (loopback ref_codec demo_server ''/var/run/ebpf-firewall.sock'') ref_codec [''list'']
      (blocked_kernel, '''') = (x', Answered (Printed out)) \<and>
    entries_of es (blocked_ips (kernel_maps blocked_kernel)) \<and>
    out = listing ''no blocked addresses'' (counted ''blocked ('' es) (print_rule \<circ> blockedRuleOf) es"
proof -
  have c: "plain_request CmdList = plain_request ''list''" by (simp add: cmd_defs)
  have ok: "rs_OK (snd (Server_handle demo_server (plain_request CmdList) (fst (blocked_kernel, ''''))))"
      "int_ok (rs_Count (snd (Server_handle demo_server (plain_request CmdList) (fst (blocked_kernel, '''')))))"
    by (simp_all add: c handle_list_demo int_ok_def okResponse_def)
  from listings_shown [OF ref_firewall_env demo_server_policy loopback.unix_socket_axioms ref_ages list_command _
      loopback_calls(1) loopback_calls(2) ok]
  show ?thesis by auto
qed

section \<open>Every line gets an answer\<close>

lemma marshal_error: "writeResponse env (errResponse e) = (the (marshal_Response env (errResponse e))) @ [CHR 0x0A]"
  using encode_error [of env e] by (auto simp: writeResponse_def marshal_Response_def)

lemma error_reply_read:
  assumes "codec_ok env"
  shows "\<exists>resp. decode_Response env (writeResponse env (errResponse e)) = Some resp \<and> \<not> rs_OK resp"
proof -
  have "int_ok (rs_Count (errResponse e))" by (simp add: int_ok_def errResponse_def okResponse_def)
  from response_sent [OF assms this encode_error] show ?thesis
    by (simp add: wired_Response_def)
qed

text \<open>Claim C35: every line gets one answer. A line short enough for the scanner, whatever bytes it holds and
  whatever follows it, is answered by one reply that the client can decode: an error, with the world
  unchanged, when the line is not the JSON text of a request; otherwise the reply of the handler to
  that request, or the report that it could not be encoded. A stream without a byte, or one whose first line does
  not fit the buffer, is closed without an answer and changes nothing.\<close>

theorem every_line_answered:
  assumes "codec_ok env" "CHR 0x0A \<notin> set line"
    "\<forall>req. unmarshal_Request (dropCR line) = Some req \<longrightarrow> int_ok (rs_Count (snd (Server_handle s req w)))"
  shows "Server_handleConn env s [] w = (w, None) \<and>
    (if length line < scan_buffer then
      (\<exists>w' out resp. Server_handleConn env s (line @ CHR 0x0A # rest) w = (w', Some out) \<and>
         decode_Response env out = Some resp \<and>
         (case unmarshal_Request (dropCR line) of
            None \<Rightarrow> w' = w \<and> \<not> rs_OK resp
          | Some req \<Rightarrow> w' = fst (Server_handle s req w) \<and>
              (resp = wired_Response env (snd (Server_handle s req w)) \<or>
               \<not> rs_OK resp \<and> encode_Response env (snd (Server_handle s req w)) = None)))
    else Server_handleConn env s (line @ CHR 0x0A # rest) w = (w, None) \<and>
      Server_handleConn env s line w = (w, None))"
proof (cases "length line < scan_buffer")
  case True
  then have l: "scan_line (line @ CHR 0x0A # rest) = Some (dropCR line)"
    by (simp add: scan_line_def cut_at_append [OF assms(2)])
  have e: "scan_line [] = None" by (simp add: scan_line_def cut_at_def)
  show ?thesis
  proof (cases "unmarshal_Request (dropCR line)")
    case None
    with l e True error_reply_read [OF assms(1), of MalformedRequest] show ?thesis
      by (auto simp: Server_handleConn_def)
  next
    case (Some req)
    obtain w' r where h: "Server_handle s req w = (w', r)" by fastforce
    with assms(3) Some have "int_ok (rs_Count r)" by (metis snd_conv)
    from response_readable [OF assms(1) this] Some l e True h show ?thesis
      by (auto simp: Server_handleConn_def)
  qed
next
  case False
  then have "scan_line (line @ CHR 0x0A # rest) = None" "scan_line line = None" "scan_line [] = None"
    using assms(2) by (simp_all add: scan_line_def cut_at_append) (simp_all add: cut_at_def)
  with False show ?thesis by (simp add: Server_handleConn_def)
qed

lemma block_request_line:
  "length (marshal_Request block_request) < scan_buffer"
  "CHR 0x0A \<notin> set (marshal_Request block_request)"
  "unmarshal_Request (dropCR (marshal_Request block_request)) = Some block_request"
proof -
  have k: "rq_Command block_request \<in> read_commands \<union> write_commands"
    by (simp add: write_commands_def)
  show "length (marshal_Request block_request) < scan_buffer" by (rule short_request [OF k]) simp
  show "CHR 0x0A \<notin> set (marshal_Request block_request)"
    using request_printed [of block_request] by (auto simp: printed_def byte_def)
  have "wired_Request block_request = block_request"
    by (rule wired_ascii_request [OF _ k]) (simp add: ascii_request_def byte_def)
  with request_text [of "[]" block_request]
  show "unmarshal_Request (dropCR (marshal_Request block_request)) = Some block_request"
    by (simp add: dropCR_id [OF request_printed])
qed

theorem every_line_answered_witness:
  "\<forall>rest. \<exists>out resp. Server_handleConn ref_codec demo_server (marshal_Request block_request @ CHR 0x0A # rest) boot_kernel =
       (blocked_kernel, Some out) \<and> decode_Response ref_codec out = Some resp \<and> rs_OK resp"
proof
  fix rest
  have "\<forall>req. unmarshal_Request (dropCR (marshal_Request block_request)) = Some req \<longrightarrow>
      int_ok (rs_Count (snd (Server_handle demo_server req boot_kernel)))"
    by (simp add: block_request_line handle_block_demo okResponse_count)
  from every_line_answered [OF ref_codec_ok block_request_line(2) this, of rest] obtain out resp where
      "Server_handleConn ref_codec demo_server (marshal_Request block_request @ CHR 0x0A # rest) boot_kernel =
         (blocked_kernel, Some out)"
      "decode_Response ref_codec out = Some resp" "resp = wired_Response ref_codec okResponse"
    by (auto simp: block_request_line handle_block_demo encode_okResponse)
  then show "\<exists>out resp. Server_handleConn ref_codec demo_server (marshal_Request block_request @ CHR 0x0A # rest) boot_kernel =
       (blocked_kernel, Some out) \<and> decode_Response ref_codec out = Some resp \<and> rs_OK resp"
    by (auto simp: wired_Response_def)
qed

section \<open>The shape of a reply\<close>

text \<open>The part of a reply each command fills.\<close>

definition reply_shape :: "string \<Rightarrow> Response \<Rightarrow> bool" where
  "reply_shape cmd r \<longleftrightarrow>
     (rs_Blocked r \<noteq> None \<longleftrightarrow> rs_OK r \<and> cmd = CmdList) \<and>
     (rs_BlockedRules r \<noteq> None \<longrightarrow> rs_OK r \<and> cmd = CmdList) \<and>
     (rs_PortRules r \<noteq> None \<longleftrightarrow> rs_OK r \<and> cmd = CmdListPorts) \<and>
     (rs_Conntrack r \<noteq> None \<longleftrightarrow> rs_OK r \<and> cmd = CmdConntrack) \<and>
     (rs_Stats r \<noteq> None \<longleftrightarrow> rs_OK r \<and> cmd = CmdStats) \<and>
     (rs_Iface r \<noteq> '''' \<or> rs_Default r \<noteq> '''' \<or> rs_AttachMode r \<noteq> '''' \<or> rs_Attached r \<longrightarrow> rs_OK r \<and> cmd = CmdStatus) \<and>
     (rs_OK r \<and> cmd = CmdList \<longrightarrow> rs_Count r = int (slice_len (rs_Blocked r)) \<and>
        rs_Blocked r = Some (map br_Cidr (slice_list (rs_BlockedRules r)))) \<and>
     (rs_OK r \<and> cmd = CmdListPorts \<longrightarrow> rs_Count r = int (slice_len (rs_PortRules r))) \<and>
     (rs_OK r \<and> cmd = CmdConntrack \<longrightarrow> rs_Count r = int (slice_len (rs_Conntrack r))) \<and>
     (rs_Count r \<noteq> 0 \<longrightarrow> rs_OK r \<and> cmd \<in> {CmdList, CmdListPorts, CmdConntrack, CmdStatus})"

lemma shape_plain:
  "reply_shape cmd (errResponse e)"
  "cmd \<in> {CmdBlock, CmdUnblock, CmdClear, CmdSetDefault, CmdDefault} \<Longrightarrow> reply_shape cmd okResponse"
  by (auto simp: reply_shape_def errResponse_def okResponse_def cmd_defs)

lemma shape_unit:
  "cmd \<in> {CmdBlock, CmdUnblock, CmdClear, CmdSetDefault, CmdDefault} \<Longrightarrow> reply_shape cmd (snd (reply_unit x))"
  by (auto simp: reply_unit_def shape_plain split: prod.splits option.splits)

lemma lists_not_nil:
  "Firewall_ListPortRules fw w = Inr rules \<Longrightarrow> rules \<noteq> None"
  "Firewall_ListConntrack fw w = Inr flows \<Longrightarrow> flows \<noteq> None"
  by (auto simp: Firewall_ListPortRules_def PortPolicyManager_List_def
      Firewall_ListConntrack_def ConntrackManager_List_def split: prod.splits option.splits sum.splits)

text \<open>Claim C36: the type of a reply. Of the payloads a reply can carry it has exactly the one its command
  calls for, as a list that is never nil, and the count is the length of that list; an error reply
  carries the error and nothing else. So the client, which prints the first payload it
  finds, prints the right one. Commands that only read, and unknown ones, leave the world as it is.\<close>

theorem reply_typed:
  assumes "sv_policy s = firewall_policy fw"
  shows "reply_shape (rq_Command req) (snd (Server_handle s req w)) \<and>
    reply_ok (snd (Server_handle s req w)) \<and>
    (rq_Command req \<in> write_commands \<or> fst (Server_handle s req w) = w)"
proof -
  let ?P = "firewall_policy fw"
  have "reply_shape CmdBlock (snd (handle_block ?P req w))" "reply_shape CmdUnblock (snd (handle_unblock ?P req w))"
    by (simp_all add: handle_block_def handle_unblock_def shape_unit)
  moreover have "reply_shape CmdClear (snd (handle_clear ?P w))"
    by (auto simp: handle_clear_def shape_unit shape_plain split: prod.split option.split)
  moreover have "reply_shape CmdList (snd (handle_list ?P w))"
    by (auto simp: handle_list_def shape_plain Let_def split: sum.split)
      (simp add: reply_shape_def okResponse_def cmd_defs)
  moreover have "reply_shape CmdListPorts (snd (handle_listports ?P w))"
    by (auto simp: handle_listports_def shape_plain split: sum.split dest!: lists_not_nil)
      (simp add: reply_shape_def okResponse_def cmd_defs)
  moreover have "reply_shape CmdConntrack (snd (handle_conntrack ?P w))"
    by (auto simp: handle_conntrack_def shape_plain split: sum.split dest!: lists_not_nil)
      (simp add: reply_shape_def okResponse_def cmd_defs)
  moreover have "reply_shape CmdStats (snd (handle_stats ?P w))"
    by (auto simp: handle_stats_def shape_plain split: sum.split)
      (simp add: reply_shape_def okResponse_def cmd_defs)
  moreover have "reply_shape CmdStatus (snd (handle_status s w))"
    by (auto simp: handle_status_def shape_plain split: sum.split)
      (simp add: reply_shape_def okResponse_def cmd_defs)
  ultimately have "reply_shape (rq_Command req) (snd (Server_handle s req w))"
    by (simp add: Server_handle_def assms Let_def shape_plain shape_unit)
  then show ?thesis using Server_handle_reply [of s req w] Server_handle_reads [of req s w] by blast
qed

theorem reply_typed_witness: "reply_shape CmdList (snd (Server_handle demo_server (plain_request ''list'') blocked_kernel))"
  using reply_typed [OF demo_server_policy, of "plain_request ''list''" blocked_kernel]
  by (simp add: plain_request_def cmd_defs)

section \<open>Closing the server\<close>

text \<open>Claim C37: what \<open>Close\<close> waits for. When its wait returns, every handler that was started has finished - so
  it does not return while a client is connected that has not sent its line. A request is applied after
  that, with the firewall being stopped, exactly when the accept loop had taken a connection it had
  not counted yet: the one interleaving the wait group does not cover.\<close>

theorem close_waits:
  assumes "life_run ls started = Some s" "life_next WaitReturns s = Some s'"
  shows "(\<forall>c \<in> set (lc_conns s). c = Finished) \<and> \<not> lc_listening s \<and>
    ((\<exists>ls' s'' c. life_run ls' s' = Some s'' \<and> Apply c \<in> set ls') \<longleftrightarrow> (\<exists>c. lc_loop s = Got c))"
proof -
  note w = wait_returns [OF life_run_ok [OF assms(1) started_ok] assms(2)]
  show ?thesis
  proof (cases "\<exists>c. lc_loop s = Got c")
    case True
    with w late_run [of s'] obtain c s'' where
        "life_run [RemoveSocket, WgAdd, GoHandle, Apply (length (lc_conns s'))] s' = Some s''"
      by auto
    moreover have "Apply (length (lc_conns s')) \<in> set [RemoveSocket, WgAdd, GoHandle, Apply (length (lc_conns s'))]"
      by simp
    ultimately show ?thesis using w True by blast
  next
    case False
    with w have "quiet_life s'" by (cases "lc_loop s") (auto simp: quiet_life_def)
    with w False quiet_run [of _ s'] show ?thesis by blast
  qed
qed

lemma late_start:
  "life_run [AcceptConn, CloseListener, ClearLive] started =
     Some (started\<lparr>lc_listening := False, lc_live := False, lc_loop := Got 0, lc_close := LiveCleared\<rparr>)"
  "life_next WaitReturns (started\<lparr>lc_listening := False, lc_live := False, lc_loop := Got 0, lc_close := LiveCleared\<rparr>) =
     Some (started\<lparr>lc_listening := False, lc_live := False, lc_loop := Got 0, lc_close := Waited\<rparr>)"
  by (simp_all add: next_defs started_def)

theorem close_waits_witness:
  "\<exists>ls' s'' c. life_run ls' (started\<lparr>lc_listening := False, lc_live := False, lc_loop := Got 0, lc_close := Waited\<rparr>) =
     Some s'' \<and> Apply c \<in> set ls'"
  using close_waits [OF late_start] by simp

section \<open>The HTTP view of the tables\<close>

lemma utf8_member:
  "ascii k \<Longrightarrow> json_utf8 j = j \<Longrightarrow> map (\<lambda>(k, j). (to_utf8 k, json_utf8 j)) (jfield k j) = jfield k j"
  "ascii k \<Longrightarrow> json_utf8 j = j \<Longrightarrow> map (\<lambda>(k, j). (to_utf8 k, json_utf8 j)) (omitempty b k j) = omitempty b k j"
  by (simp_all add: jfield_def omitempty_def to_utf8_id)

lemma utf8_leaf: "ascii s \<Longrightarrow> json_utf8 (JStr s) = JStr s" "json_utf8 (juint n) = juint n"
  by (simp_all add: to_utf8_id juint_def)

lemma utf8_rules:
  "json_utf8 (encode_BlockedRule (blockedRuleOf e)) = encode_BlockedRule (blockedRuleOf e)"
  "json_utf8 (encode_PortRule (portRuleOf p)) = encode_PortRule (portRuleOf p)"
proof -
  have "ascii (br_Cidr (blockedRuleOf e))" "ascii (br_Action (blockedRuleOf e))"
    by (cases e; simp add: blockedRuleOf_def)+
  then show "json_utf8 (encode_BlockedRule (blockedRuleOf e)) = encode_BlockedRule (blockedRuleOf e)"
    by (simp add: encode_BlockedRule_def utf8_member utf8_leaf byte_def del: json_utf8.simps(1))
  have "ascii (pr_Protocol (portRuleOf p))" "ascii (pr_Dst (portRuleOf p))" "ascii (pr_Action (portRuleOf p))"
    by (cases p; simp add: portRuleOf_def)+
  then show "json_utf8 (encode_PortRule (portRuleOf p)) = encode_PortRule (portRuleOf p)"
    by (simp add: encode_PortRule_def utf8_member utf8_leaf byte_def del: json_utf8.simps(1))
qed

lemma jslice_list: "jslice (Some \<circ> f) (Some xs) = Some (JArr (map f xs))"
proof -
  have "those (map (Some \<circ> f) xs) = Some (map f xs)" by (induction xs) simp_all
  then show ?thesis by (simp add: jslice_def)
qed

lemma nonNil_Some: "nonNil t = Some (slice_list t)"
  by (cases t) (simp_all add: nonNil_def)

definition rules_json :: "(firewallIpv4LpmKey \<times> ruleValue) list \<Rightarrow> (firewallPortRuleKey \<times> ruleValue) list \<Rightarrow> json" where
  "rules_json es ps = JObj
     [(''blocked_rules'', JArr (map (encode_BlockedRule \<circ> blockedRuleOf) es)),
      (''port_rules'', JArr (map (encode_PortRule \<circ> portRuleOf) ps))]"

lemma rules_text:
  "parse_document (http_text env (RulesBody (nonNil (append_all (map blockedRuleOf es))) (nonNil (Some (map portRuleOf ps))))) =
     Some (rules_json es ps)"
proof -
  have j: "encode_RulesResponse (nonNil (append_all (map blockedRuleOf es))) (nonNil (Some (map portRuleOf ps))) =
      Some (rules_json es ps)"
    by (simp add: encode_RulesResponse_def nonNil_Some jslice_list rules_json_def jfield_def)
  have "fits max_nesting (rules_json es ps)"
    by (auto simp: rules_json_def max_nesting_def fits_rules)
  from document_back(1) [OF this, of "[CHR 0x0A]"]
  have "parse_document (json_text (rules_json es ps) @ [CHR 0x0A]) = Some (json_utf8 (rules_json es ps))" by simp
  moreover have "json_utf8 (rules_json es ps) = rules_json es ps"
    by (simp add: rules_json_def comp_def utf8_rules byte_def)
  ultimately show ?thesis by (simp add: http_text_def body_json_def j)
qed

lemma entries_card: "entries_of es m \<Longrightarrow> length es = card (dom m)"
  unfolding entries_of_def by (metis distinct_card dom_map_of_conv_image_fst length_map list.set_map)

text \<open>The HTTP view shows the tables. When \<open>/rules\<close> answers with 200, its text is one JSON document with two
  arrays, never null, whose elements are the entries of the two tables, each once; when \<open>/status\<close>
  does, its counts are the sizes of the tables.\<close>

context firewall_env
begin

lemma listed_tables:
  assumes "MapManager_ListBlockedRules (fw_mgr fw) w = Inr rules" "PortPolicyManager_List (fw_portPolicyMgr fw) w = Inr ports"
  obtains es ps where "entries_of es (blocked_ips (gh_view G w))" "rules = append_all (map blockedRuleOf es)"
    "entries_of ps (port_policy (gh_view G w))" "ports = Some (map portRuleOf ps)"
  using B.List_effect [OF assms(1)] Po.List_effect [OF assms(2)] that by (auto simp: entries_of_def)

lemma api_rules_shown:
  assumes "hr_status (API_ServeHTTP (firewall_policy fw) meth ''/rules'' w) = 200"
  shows "\<exists>es ps. entries_of es (blocked_ips (gh_view G w)) \<and> entries_of ps (port_policy (gh_view G w)) \<and>
      parse_document (http_text env (hr_body (API_ServeHTTP (firewall_policy fw) meth ''/rules'' w))) = Some (rules_json es ps)"
proof -
  from assms obtain rules ports where
      l: "MapManager_ListBlockedRules (fw_mgr fw) w = Inr rules" "PortPolicyManager_List (fw_portPolicyMgr fw) w = Inr ports"
      and b: "hr_body (API_ServeHTTP (firewall_policy fw) meth ''/rules'' w) = RulesBody (nonNil rules) (nonNil ports)"
    by (auto simp: API_ServeHTTP_def api_get_def handleRules_def writeErr_def writeJSON_def firewall_policy_def
        Firewall_ListBlockedRules_def Firewall_ListPortRules_def split: sum.splits if_splits)
  from listed_tables [OF l] obtain es ps where e: "entries_of es (blocked_ips (gh_view G w))" "rules = append_all (map blockedRuleOf es)"
      "entries_of ps (port_policy (gh_view G w))" "ports = Some (map portRuleOf ps)" .
  then show ?thesis unfolding b using rules_text [of env es ps] by blast
qed

lemma api_status_shown:
  assumes "hr_status (API_ServeHTTP (firewall_policy fw) meth ''/status'' w) = 200"
  shows "\<exists>r. hr_body (API_ServeHTTP (firewall_policy fw) meth ''/status'' w) = StatusBody r \<and>
      Firewall_DefaultPolicy fw w = Inr (sr_DefaultPolicy r) \<and>
      sr_IPRuleCount r = card (dom (blocked_ips (gh_view G w))) \<and>
      sr_PortRuleCount r = card (dom (port_policy (gh_view G w)))"
proof -
  from assms obtain rules ports where
      l: "MapManager_ListBlockedRules (fw_mgr fw) w = Inr rules" "PortPolicyManager_List (fw_portPolicyMgr fw) w = Inr ports"
      and b: "\<exists>r. hr_body (API_ServeHTTP (firewall_policy fw) meth ''/status'' w) = StatusBody r \<and>
        Firewall_DefaultPolicy fw w = Inr (sr_DefaultPolicy r) \<and>
        sr_IPRuleCount r = slice_len rules \<and> sr_PortRuleCount r = slice_len ports"
    by (auto simp: API_ServeHTTP_def api_get_def handleStatus_def writeErr_def writeJSON_def
        firewall_policy_def Firewall_ListBlockedRules_def Firewall_ListPortRules_def split: sum.splits if_splits)
  from listed_tables [OF l] obtain es ps where e: "entries_of es (blocked_ips (gh_view G w))" "rules = append_all (map blockedRuleOf es)"
      "entries_of ps (port_policy (gh_view G w))" "ports = Some (map portRuleOf ps)" .
  with b show ?thesis using entries_card [OF e(1)] entries_card [OF e(3)] by auto
qed

end

end
