(* ===== verification/CtRace.thy ===== *)
theory CtRace
  imports Flows "HOL-Library.AList"
begin

text \<open>
  Packets on several processors. \<open>ct_update\<close> and \<open>ct_is_established\<close> of \<open>bpf/firewall.c\<close> read and write the
  entry of their flow in place, without a lock: here they are cut into their accesses to the entry, and any
  number of packets of any flows take theirs in any order. A packet keeps the address its lookup returned, so it
  writes to an entry that another packet's insertion has replaced, or that the control plane has deleted, in
  the meantime; and as the map is preallocated, the kernel may give the memory of such an entry to another
  flow. Alone, the accesses make up \<open>ct_update\<close> and \<open>ct_is_established\<close>.
\<close>

section \<open>The accesses of one packet\<close>

text \<open>The memory of the entries, and which of it the map holds for which flow now.\<close>

record flow_mem =
  fm_cells :: "ctValue list"
  fm_entry :: "(ctKey \<times> nat) list"

definition mem_of :: "(ctKey \<times> ctValue) list \<Rightarrow> flow_mem" where
  "mem_of es = \<lparr>fm_cells = map snd es, fm_entry = zip (map fst es) [0..<length es]\<rparr>"

definition entry_of :: "flow_mem \<Rightarrow> ctKey \<Rightarrow> ctValue option" where
  "entry_of m k = map_option (\<lambda>p. fm_cells m ! p) (map_of (fm_entry m) k)"

datatype upd_at =
    AtLookup | AtTouch nat | AtTest nat | AtStore nat u32 | AtInsert | AtEnd
  | ProbeLookup | ProbeRead nat | ProbeEnd bool

text \<open>The packet: its flow and TCP flags, the time it reads, whether the map takes a new entry, and
  where it is, in \<open>ct_update\<close> or in \<open>ct_is_established\<close>.\<close>

record upd_job =
  jb_key :: ctKey
  jb_flags :: u8
  jb_now :: u64
  jb_room :: bool
  jb_at :: upd_at

definition cell_upd :: "nat \<Rightarrow> (ctValue \<Rightarrow> ctValue) \<Rightarrow> flow_mem \<Rightarrow> flow_mem" where
  "cell_upd p f m = m\<lparr>fm_cells := (fm_cells m)[p := f (fm_cells m ! p)]\<rparr>"

text \<open>\<open>bpf_map_update_elem\<close> writes the new entry to the memory \<open>p\<close> and then makes it the flow's.\<close>

definition insert_at :: "upd_job \<Rightarrow> nat \<Rightarrow> flow_mem \<Rightarrow> flow_mem" where
  "insert_at j p m =
     (let v = \<lparr>cv_LastSeen = jb_now j, cv_State = ct_first (jb_flags j)\<rparr> in
      \<lparr>fm_cells = (if p < length (fm_cells m) then (fm_cells m)[p := v] else fm_cells m @ [v]),
       fm_entry = AList.update (jb_key j) p (fm_entry m)\<rparr>)"

definition upd_next :: "upd_job \<Rightarrow> flow_mem \<Rightarrow> upd_at \<times> flow_mem" where
  "upd_next j m =
     (case jb_at j of
        AtLookup \<Rightarrow> (case map_of (fm_entry m) (jb_key j) of None \<Rightarrow> AtInsert | Some p \<Rightarrow> AtTouch p, m)
      | AtTouch p \<Rightarrow>
          (if jb_flags j AND (TCP_FIN OR TCP_RST) \<noteq> 0 then AtStore p ctStateClosed else AtTest p,
           cell_upd p (\<lambda>v. v\<lparr>cv_LastSeen := jb_now j\<rparr>) m)
      | AtTest p \<Rightarrow>
          (if cv_State (fm_cells m ! p) = ctStateNew \<and> jb_flags j AND TCP_ACK \<noteq> 0
           then AtStore p ctStateEstablished else AtEnd, m)
      | AtStore p st \<Rightarrow> (AtEnd, cell_upd p (\<lambda>v. v\<lparr>cv_State := st\<rparr>) m)
      | AtInsert \<Rightarrow> (AtEnd, if jb_room j then insert_at j (length (fm_cells m)) m else m)
      | AtEnd \<Rightarrow> (AtEnd, m)
      | ProbeLookup \<Rightarrow>
          (case map_of (fm_entry m) (jb_key j) of None \<Rightarrow> ProbeEnd False | Some p \<Rightarrow> ProbeRead p, m)
      | ProbeRead p \<Rightarrow> (ProbeEnd (cv_State (fm_cells m ! p) = ctStateEstablished), m)
      | ProbeEnd b \<Rightarrow> (ProbeEnd b, m))"

text \<open>A schedule names the packet that makes the next access, lets an insertion take the memory of an entry that
  is no flow's any more, or lets the control plane delete an entry: a reaper that found it stale, or a
  clear request.\<close>

datatype race_event = Access nat | Recycle nat nat | Evict ctKey

definition race_step :: "race_event \<Rightarrow> upd_job list \<times> flow_mem \<Rightarrow> upd_job list \<times> flow_mem" where
  "race_step ev s =
     (case s of (js, m) \<Rightarrow>
        (case ev of
           Access i \<Rightarrow>
             if i < length js then
               (case upd_next (js ! i) m of (a, m') \<Rightarrow> (js[i := (js ! i)\<lparr>jb_at := a\<rparr>], m'))
             else (js, m)
         | Recycle i p \<Rightarrow>
             if i < length js \<and> jb_at (js ! i) = AtInsert \<and> jb_room (js ! i) \<and>
               p < length (fm_cells m) \<and> p \<notin> snd ` set (fm_entry m) then
               (js[i := (js ! i)\<lparr>jb_at := AtEnd\<rparr>], insert_at (js ! i) p m)
             else (js, m)
         | Evict k \<Rightarrow> (js, m\<lparr>fm_entry := AList.delete k (fm_entry m)\<rparr>)))"

definition race :: "race_event list \<Rightarrow> upd_job list \<Rightarrow> (ctKey \<times> ctValue) list \<Rightarrow> upd_job list \<times> flow_mem" where
  "race sched js es = fold race_step sched (js, mem_of es)"

definition update_of :: "dp_env \<Rightarrow> packet_info \<Rightarrow> bool \<Rightarrow> upd_job" where
  "update_of env info room =
     \<lparr>jb_key = ct_build_key info, jb_flags = pi_tcp_flags info, jb_now = dp_ktime env, jb_room = room,
      jb_at = AtLookup\<rparr>"

definition probe_of :: "packet_info \<Rightarrow> upd_job" where
  "probe_of info =
     \<lparr>jb_key = ct_build_key info, jb_flags = pi_tcp_flags info, jb_now = 0, jb_room = False, jb_at = ProbeLookup\<rparr>"

lemmas race_defs = race_def race_step_def upd_next_def insert_at_def entry_of_def cell_upd_def

lemma length_cells [simp]:
  "length (fm_cells (cell_upd p f m)) = length (fm_cells m)" "fm_entry (cell_upd p f m) = fm_entry m"
  "length (fm_cells (insert_at j p m)) = (if p < length (fm_cells m) then length (fm_cells m) else Suc (length (fm_cells m)))"
  "map_of (fm_entry (insert_at j p m)) = (map_of (fm_entry m))(jb_key j \<mapsto> p)"
  by (simp_all add: cell_upd_def insert_at_def Let_def update_conv')

lemma nth_cell_upd [simp]:
  "p < length (fm_cells m) \<Longrightarrow> fm_cells (cell_upd p f m) ! q = (if q = p then f (fm_cells m ! p) else fm_cells m ! q)"
  by (simp add: cell_upd_def nth_list_update)

lemma map_of_mem:
  assumes "distinct (map fst es)"
  shows "map_of (fm_entry (mem_of es)) k = Some p \<longleftrightarrow> p < length es \<and> fst (es ! p) = k"
proof -
  have d: "distinct (map fst (zip (map fst es) [0..<length es]))" using assms by simp
  show ?thesis
    unfolding mem_of_def flow_mem.simps map_of_eq_Some_iff [OF d] by (auto simp: set_zip)
      (rule exI [of _ p], simp)
qed

lemma entry_of_mem:
  assumes "distinct (map fst es)"
  shows "entry_of (mem_of es) k = map_of es k"
proof (cases "map_of (fm_entry (mem_of es)) k")
  case None
  then have "k \<notin> fst ` set es"
    by (simp add: mem_of_def map_of_eq_None_iff flip: set_map)
  with None show ?thesis by (simp add: entry_of_def map_of_eq_None_iff [THEN iffD2])
next
  case (Some p)
  then have p: "p < length es" "fst (es ! p) = k" using map_of_mem [OF assms] by simp_all
  then have "(k, snd (es ! p)) \<in> set es" by (metis nth_mem prod.collapse)
  with assms have "map_of es k = Some (snd (es ! p))" by simp
  with Some p show ?thesis by (simp add: entry_of_def mem_of_def)
qed

text \<open>A memory in which every flow has an entry of its own.\<close>

definition mem_wf :: "flow_mem \<Rightarrow> bool" where
  "mem_wf m \<longleftrightarrow> (\<forall>k p. map_of (fm_entry m) k = Some p \<longrightarrow> p < length (fm_cells m)) \<and>
     (\<forall>k k' p. map_of (fm_entry m) k = Some p \<longrightarrow> map_of (fm_entry m) k' = Some p \<longrightarrow> k' = k)"

lemma mem_wf_mem_of: "distinct (map fst es) \<Longrightarrow> mem_wf (mem_of es)"
  by (simp add: mem_wf_def map_of_mem) (simp add: mem_of_def)

lemma cell_upd_wf:
  assumes "mem_wf m" "map_of (fm_entry m) k = Some p"
  shows "mem_wf (cell_upd p f m)" "entry_of (cell_upd p f m) = (entry_of m)(k \<mapsto> f (fm_cells m ! p))"
  using assms
  by (auto simp: mem_wf_def fun_eq_iff entry_of_def cell_upd_def nth_list_update map_option_case split: option.split)

lemma insert_wf:
  assumes "mem_wf m"
  shows "entry_of (insert_at j (length (fm_cells m)) m) =
    (entry_of m)(jb_key j \<mapsto> \<lparr>cv_LastSeen = jb_now j, cv_State = ct_first (jb_flags j)\<rparr>)"
  using assms
  by (auto simp: mem_wf_def fun_eq_iff entry_of_def insert_at_def update_conv' nth_append map_option_case split: option.split)

text \<open>Four accesses at most; with them an undisturbed update is \<open>ct_update\<close>, and two make the probe.\<close>

lemma race_alone:
  assumes "dp_env_ok env" "distinct (map fst es)" "conntrack m = map_of es"
  shows "\<exists>room. fst (race (map Access [0, 0, 0, 0]) [update_of env info room] es) =
      [(update_of env info room)\<lparr>jb_at := AtEnd\<rparr>] \<and>
    entry_of (snd (race (map Access [0, 0, 0, 0]) [update_of env info room] es)) = conntrack (ct_update env info m)"
proof -
  let ?k = "ct_build_key info" and ?m = "mem_of es"
  note wf = mem_wf_mem_of [OF assms(2)]
  have c: "conntrack m = entry_of ?m" using assms(3) by (simp add: fun_eq_iff entry_of_mem [OF assms(2)])
  show ?thesis
  proof (cases "map_of (fm_entry ?m) ?k")
    case None
    let ?v = "\<lparr>cv_LastSeen = dp_ktime env, cv_State = ct_first (pi_tcp_flags info)\<rparr>"
    from assms(1) have "dp_update_ct env (conntrack m) ?k ?v = conntrack m \<or>
        dp_update_ct env (conntrack m) ?k ?v = (conntrack m)(?k \<mapsto> ?v)"
      by (auto simp: dp_env_ok_def)
    with None insert_wf [OF wf] show ?thesis
      by (elim disjE) (rule exI [of _ False], simp add: race_def race_step_def upd_next_def update_of_def ct_update_def c entry_of_def,
        rule exI [of _ True], simp add: race_def race_step_def upd_next_def update_of_def ct_update_def c entry_of_def)
  next
    case (Some p)
    then have e: "conntrack m ?k = Some (fm_cells ?m ! p)" "p < length (fm_cells ?m)"
      using wf by (simp_all add: c entry_of_def mem_wf_def)
    show ?thesis
      using e Some
      by (intro exI [of _ True])
        (simp add: race_def race_step_def upd_next_def update_of_def ct_update_def ct_next_def
          cell_upd_wf [OF wf Some] cell_upd_wf [OF cell_upd_wf(1) [OF wf Some]] c)
  qed
qed

lemma probe_alone:
  assumes "distinct (map fst es)" "conntrack m = map_of es"
  shows "fst (race (map Access [0, 0]) [probe_of info] es) =
    [(probe_of info)\<lparr>jb_at := ProbeEnd (ct_is_established m info)\<rparr>]"
proof -
  have "conntrack m (ct_build_key info) = entry_of (mem_of es) (ct_build_key info)"
    using assms by (simp add: entry_of_mem)
  then show ?thesis
    by (cases "map_of (fm_entry (mem_of es)) (ct_build_key info)")
      (simp_all add: race_def race_step_def upd_next_def probe_of_def ct_is_established_def entry_of_def)
qed

section \<open>Every schedule\<close>

text \<open>What packets with the flags \<open>fs\<close> can have made of a flow whose state was \<open>s\<close>, each change by a packet
  entitled to it.\<close>

definition justified :: "u8 set \<Rightarrow> u32 option \<Rightarrow> u32 \<Rightarrow> bool" where
  "justified fs s t \<longleftrightarrow>
     s = Some t \<or>
     (t = ctStateClosed \<and> (\<exists>f \<in> fs. closing f)) \<or>
     (t = ctStateNew \<and> s = None \<and> (\<exists>f \<in> fs. \<not> closing f \<and> has_syn f)) \<or>
     (t = ctStateEstablished \<and>
       ((s = None \<and> (\<exists>f \<in> fs. \<not> closing f \<and> \<not> has_syn f)) \<or>
        (s \<in> {None, Some ctStateNew} \<and> (\<exists>f \<in> fs. \<not> closing f \<and> has_ack f))))"

text \<open>The states a flow can have started from: its state at the beginning, or none after a deletion.\<close>

definition entitled :: "u8 set \<Rightarrow> u32 option set \<Rightarrow> u32 \<Rightarrow> bool" where
  "entitled fs B t \<longleftrightarrow> (\<exists>s \<in> B. justified fs s t)"

lemma entitled_first:
  assumes "None \<in> B" "f \<in> fs"
  shows "entitled fs B (ct_first f)"
proof -
  have "justified fs None (ct_first f)"
    using assms(2) by (auto simp: justified_def ct_first_def closing_def has_syn_def)
  with assms(1) show ?thesis unfolding entitled_def by blast
qed

lemma entitled_closed:
  assumes "B \<noteq> {}" "f \<in> fs" "closing f"
  shows "entitled fs B ctStateClosed"
proof -
  obtain s where "s \<in> B" using assms(1) by blast
  moreover have "justified fs s ctStateClosed" unfolding justified_def using assms(2,3) by blast
  ultimately show ?thesis unfolding entitled_def by blast
qed

lemma entitled_acked:
  assumes "entitled fs B ctStateNew" "f \<in> fs" "\<not> closing f" "has_ack f"
  shows "entitled fs B ctStateEstablished"
proof -
  obtain s where s: "s \<in> B" "justified fs s ctStateNew" using assms(1) by (auto simp: entitled_def)
  with assms(2-4) have "justified fs s ctStateEstablished"
    by (auto simp: justified_def ctStateNew_def ctStateClosed_def ctStateEstablished_def)
  with s(1) show ?thesis unfolding entitled_def by blast
qed

text \<open>What the packets may do to the memory is bounded per owner: \<open>grp\<close> says which flows share their memory,
  \<open>own\<close> whose a piece of memory is, \<open>fs\<close>, \<open>ts\<close> and \<open>B\<close> the flags and the times of an owner's packets and the
  states it can have started from. Without recycling every flow is an owner of its own; with it there is one.\<close>

record 'g bounds =
  bd_grp :: "ctKey \<Rightarrow> 'g"
  bd_flags :: "'g \<Rightarrow> u8 set"
  bd_times :: "'g \<Rightarrow> u64 set"
  bd_start :: "'g \<Rightarrow> u32 option set"

definition cell_ok :: "'g bounds \<Rightarrow> 'g \<Rightarrow> ctValue \<Rightarrow> bool" where
  "cell_ok bd g v \<longleftrightarrow> entitled (bd_flags bd g) (bd_start bd g) (cv_State v) \<and> cv_LastSeen v \<in> bd_times bd g"

definition job_ok :: "'g bounds \<Rightarrow> 'g list \<Rightarrow> upd_job \<Rightarrow> bool" where
  "job_ok bd own j \<longleftrightarrow>
     (let g = bd_grp bd (jb_key j);
          mine = (\<lambda>p. p < length own \<and> own ! p = g);
          writes = (jb_flags j \<in> bd_flags bd g \<and> jb_now j \<in> bd_times bd g) in
      case jb_at j of
        AtLookup \<Rightarrow> writes
      | AtTouch p \<Rightarrow> writes \<and> mine p
      | AtTest p \<Rightarrow> writes \<and> mine p \<and> \<not> closing (jb_flags j)
      | AtStore p t \<Rightarrow> mine p \<and> entitled (bd_flags bd g) (bd_start bd g) t
      | AtInsert \<Rightarrow> writes \<and> None \<in> bd_start bd g
      | AtEnd \<Rightarrow> True
      | ProbeLookup \<Rightarrow> True
      | ProbeRead p \<Rightarrow> mine p
      | ProbeEnd b \<Rightarrow> b \<longrightarrow> entitled (bd_flags bd g) (bd_start bd g) ctStateEstablished)"

definition mem_ok :: "'g bounds \<Rightarrow> 'g list \<Rightarrow> flow_mem \<Rightarrow> bool" where
  "mem_ok bd own m \<longleftrightarrow> length own = length (fm_cells m) \<and>
     (\<forall>p < length own. cell_ok bd (own ! p) (fm_cells m ! p)) \<and>
     (\<forall>k. map_of (fm_entry m) k = None \<longrightarrow> None \<in> bd_start bd (bd_grp bd k)) \<and>
     (\<forall>k p. map_of (fm_entry m) k = Some p \<longrightarrow> p < length own \<and> own ! p = bd_grp bd k)"

definition race_ok :: "'g bounds \<Rightarrow> 'g list \<Rightarrow> upd_job list \<times> flow_mem \<Rightarrow> bool" where
  "race_ok bd own st \<longleftrightarrow> (\<forall>j \<in> set (fst st). job_ok bd own j) \<and> mem_ok bd own (snd st)"

lemma job_ok_more: "job_ok bd own j \<Longrightarrow> job_ok bd (own @ gs) j"
  by (auto simp: job_ok_def Let_def nth_append split: upd_at.splits)

lemma cell_upd_ok:
  assumes "mem_ok bd own m" "p < length own" "\<And>v. cell_ok bd (own ! p) v \<Longrightarrow> cell_ok bd (own ! p) (f v)"
  shows "mem_ok bd own (cell_upd p f m)"
  using assms by (auto simp: mem_ok_def)

lemma insert_ok:
  assumes "mem_ok bd own m" "jb_flags j \<in> bd_flags bd g" "jb_now j \<in> bd_times bd g" "None \<in> bd_start bd g"
    and g: "g = bd_grp bd (jb_key j)"
  shows "mem_ok bd (own @ [g]) (insert_at j (length (fm_cells m)) m)"
    and "p < length own \<Longrightarrow> own ! p = g \<Longrightarrow> mem_ok bd own (insert_at j p m)"
proof -
  let ?v = "\<lparr>cv_LastSeen = jb_now j, cv_State = ct_first (jb_flags j)\<rparr>"
  have v: "cell_ok bd g ?v" using assms(2-4) by (simp add: cell_ok_def entitled_first)
  show "mem_ok bd (own @ [g]) (insert_at j (length (fm_cells m)) m)"
    using assms(1) v unfolding mem_ok_def
    by (auto simp: g nth_append insert_at_def less_Suc_eq update_conv' split: if_splits)
  show "mem_ok bd own (insert_at j p m)" if "p < length own" "own ! p = g"
    using assms(1) v that unfolding mem_ok_def
    by (auto simp: g insert_at_def nth_list_update update_conv' split: if_splits)
qed

lemma upd_next_ok:
  assumes "mem_ok bd own m" "job_ok bd own j" "upd_next j m = (a, m')" "bd_start bd (bd_grp bd (jb_key j)) \<noteq> {}"
  shows "\<exists>gs. mem_ok bd (own @ gs) m' \<and> job_ok bd (own @ gs) (j\<lparr>jb_at := a\<rparr>)"
proof -
  let ?g = "bd_grp bd (jb_key j)"
  note step = assms(3) [unfolded upd_next_def, folded closing_def has_ack_def]
  note j = assms(2) [unfolded job_ok_def Let_def]
  have same: ?thesis if "mem_ok bd own m'" "job_ok bd own (j\<lparr>jb_at := a\<rparr>)"
    using that by (intro exI [of _ "[]"]) simp
  have cell: "cell_ok bd (own ! p) (fm_cells m ! p)" if "p < length own" for p
    using that assms(1) by (simp add: mem_ok_def)
  show ?thesis
  proof (cases "jb_at j")
    case (AtTouch p)
    with j have p: "p < length own" "own ! p = ?g" "jb_flags j \<in> bd_flags bd ?g" "jb_now j \<in> bd_times bd ?g"
      by simp_all
    have "mem_ok bd own (cell_upd p (\<lambda>v. v\<lparr>cv_LastSeen := jb_now j\<rparr>) m)"
      using p by (intro cell_upd_ok [OF assms(1)]) (simp_all add: cell_ok_def)
    with AtTouch p step show ?thesis
      by (intro same) (auto simp: job_ok_def Let_def entitled_closed assms(4) split: if_splits)
  next
    case (AtTest p)
    with j have "p < length own" "own ! p = ?g" "jb_flags j \<in> bd_flags bd ?g" "\<not> closing (jb_flags j)"
      by simp_all
    moreover from this cell [of p] have "cv_State (fm_cells m ! p) = ctStateNew \<Longrightarrow> has_ack (jb_flags j) \<Longrightarrow>
        entitled (bd_flags bd ?g) (bd_start bd ?g) ctStateEstablished"
      by (auto simp: cell_ok_def intro: entitled_acked)
    ultimately show ?thesis
      using AtTest step assms(1) by (intro same) (auto simp: job_ok_def Let_def split: if_splits)
  next
    case (AtStore p t)
    with j have p: "p < length own" "own ! p = ?g" "entitled (bd_flags bd ?g) (bd_start bd ?g) t" by simp_all
    have "mem_ok bd own (cell_upd p (\<lambda>v. v\<lparr>cv_State := t\<rparr>) m)"
      using p by (intro cell_upd_ok [OF assms(1)]) (simp_all add: cell_ok_def)
    with AtStore step show ?thesis by (intro same) (auto simp: job_ok_def)
  next
    case AtInsert
    with j insert_ok(1) [OF assms(1), of j ?g] step assms(1) show ?thesis
      by (cases "jb_room j") (auto simp: job_ok_def intro: exI [of _ "[?g]"] exI [of _ "[]"])
  next
    case (ProbeRead p)
    with j cell [of p] step assms(1) show ?thesis
      by (intro same) (auto simp: job_ok_def Let_def cell_ok_def)
  next
    case AtLookup
    with step j assms(1) show ?thesis
      by (intro same) (auto simp: job_ok_def Let_def mem_ok_def split: option.splits)
  next
    case ProbeLookup
    with step assms(1) show ?thesis
      by (intro same) (auto simp: job_ok_def Let_def mem_ok_def split: option.splits)
  next
    case AtEnd
    with step have "m' = m" "j\<lparr>jb_at := a\<rparr> = j" by simp_all
    with assms(1,2) show ?thesis by (intro same) simp_all
  next
    case (ProbeEnd b)
    with step have "m' = m" "j\<lparr>jb_at := a\<rparr> = j" by simp_all
    with assms(1,2) show ?thesis by (intro same) simp_all
  qed
qed

text \<open>One event of the schedule. Recycled memory may come from any flow, so it has to be everybody's.\<close>

definition event_ok :: "'g bounds \<Rightarrow> race_event \<Rightarrow> bool" where
  "event_ok bd ev \<longleftrightarrow>
     (case ev of
        Access i \<Rightarrow> True
      | Recycle i p \<Rightarrow> \<forall>g g' :: 'g. g = g'
      | Evict k \<Rightarrow> None \<in> bd_start bd (bd_grp bd k))"

lemma jobs_update:
  assumes "\<forall>j \<in> set js. job_ok bd own j" "job_ok bd own j'"
  shows "\<forall>j \<in> set (js[i := j']). job_ok bd own j"
  using assms set_update_subset_insert [of js i j'] by blast

lemma race_step_ok:
  fixes bd :: "'g bounds"
  assumes ok: "race_ok bd own st" and ev: "event_ok bd ev" and B: "\<And>g. bd_start bd g \<noteq> {}"
  shows "\<exists>own'. race_ok bd own' (race_step ev st)"
proof -
  obtain js m where st: "st = (js, m)" by fastforce
  with ok have js: "\<forall>j \<in> set js. job_ok bd own j" and m: "mem_ok bd own m" by (simp_all add: race_ok_def)
  show ?thesis
  proof (cases ev)
    case (Access i)
    show ?thesis
    proof (cases "i < length js")
      case True
      obtain a m' where u: "upd_next (js ! i) m = (a, m')" by fastforce
      obtain gs where gs: "mem_ok bd (own @ gs) m'" "job_ok bd (own @ gs) ((js ! i)\<lparr>jb_at := a\<rparr>)"
        using upd_next_ok [OF m _ u B] js True by auto
      have "\<forall>j \<in> set js. job_ok bd (own @ gs) j" using js by (blast intro: job_ok_more)
      from jobs_update [OF this gs(2), of i] gs(1) True u show ?thesis
        by (auto simp: race_ok_def race_step_def st Access)
    qed (use ok in \<open>auto simp: race_step_def st Access\<close>)
  next
    case (Recycle i p)
    show ?thesis
    proof (cases "i < length js \<and> jb_at (js ! i) = AtInsert \<and> p < length (fm_cells m)")
      case True
      have "job_ok bd own (js ! i)" using js True by simp
      with True have w: "jb_flags (js ! i) \<in> bd_flags bd (bd_grp bd (jb_key (js ! i)))"
          "jb_now (js ! i) \<in> bd_times bd (bd_grp bd (jb_key (js ! i)))"
          "None \<in> bd_start bd (bd_grp bd (jb_key (js ! i)))"
        by (simp_all add: job_ok_def Let_def)
      have "p < length own" using True m by (simp add: mem_ok_def)
      moreover have "own ! p = bd_grp bd (jb_key (js ! i))" using ev Recycle by (simp add: event_ok_def)
      ultimately have "mem_ok bd own (insert_at (js ! i) p m)" by (rule insert_ok(2) [OF m w refl])
      moreover have "\<forall>j \<in> set (js[i := (js ! i)\<lparr>jb_at := AtEnd\<rparr>]). job_ok bd own j"
        by (rule jobs_update [OF js]) (simp add: job_ok_def)
      ultimately show ?thesis using ok by (auto simp: race_ok_def race_step_def st Recycle)
    qed (use ok in \<open>auto simp: race_step_def st Recycle\<close>)
  next
    case (Evict k)
    have "mem_ok bd own (m\<lparr>fm_entry := AList.delete k (fm_entry m)\<rparr>)"
      using m ev by (auto simp: mem_ok_def event_ok_def Evict delete_conv')
    with js show ?thesis by (auto simp: race_ok_def race_step_def st Evict)
  qed
qed

lemma fold_race_ok:
  assumes "\<And>g. bd_start bd g \<noteq> {}"
  shows "race_ok bd own st \<Longrightarrow> \<forall>ev \<in> set sched. event_ok bd ev \<Longrightarrow> \<exists>own'. race_ok bd own' (fold race_step sched st)"
proof (induction sched arbitrary: own st)
  case (Cons ev sched)
  then have "event_ok bd ev" by simp
  then obtain own' where "race_ok bd own' (race_step ev st)"
    using race_step_ok [OF Cons.prems(1) _ assms] by blast
  from Cons.IH [OF this] Cons.prems(2) show ?case by simp
qed auto

text \<open>What every schedule leaves behind.\<close>

lemma race_bounds:
  assumes d: "distinct (map fst es)" and jobs: "\<forall>j \<in> set js. jb_at j = ProbeLookup \<or>
      jb_at j = AtLookup \<and> jb_flags j \<in> bd_flags bd (bd_grp bd (jb_key j)) \<and> jb_now j \<in> bd_times bd (bd_grp bd (jb_key j))"
    and old: "\<And>k. map_option cv_State (map_of es k) \<in> bd_start bd (bd_grp bd k)"
      "\<And>k v. map_of es k = Some v \<Longrightarrow> cv_LastSeen v \<in> bd_times bd (bd_grp bd k)"
    and B: "\<And>g. bd_start bd g \<noteq> {}" and evs: "\<forall>ev \<in> set sched. event_ok bd ev"
    and run: "race sched js es = (js', m)"
  shows "entry_of m k = None \<Longrightarrow> None \<in> bd_start bd (bd_grp bd k)"
    and "entry_of m k = Some v \<Longrightarrow> cell_ok bd (bd_grp bd k) v"
    and "j \<in> set js' \<Longrightarrow> jb_at j = ProbeEnd True \<Longrightarrow>
      entitled (bd_flags bd (bd_grp bd (jb_key j))) (bd_start bd (bd_grp bd (jb_key j))) ctStateEstablished"
proof -
  let ?own = "map (bd_grp bd \<circ> fst) es"
  have cells: "cell_ok bd (?own ! p) (fm_cells (mem_of es) ! p)" if "p < length es" for p
  proof -
    have "(fst (es ! p), snd (es ! p)) \<in> set es" using that by simp
    with d have e: "map_of es (fst (es ! p)) = Some (snd (es ! p))" by (simp only: map_of_is_SomeI)
    with old(1) [of "fst (es ! p)"] have "entitled (bd_flags bd (bd_grp bd (fst (es ! p))))
        (bd_start bd (bd_grp bd (fst (es ! p)))) (cv_State (snd (es ! p)))"
      by (auto simp: entitled_def justified_def)
    with old(2) [OF e] that show ?thesis by (simp add: cell_ok_def mem_of_def)
  qed
  have "None \<in> bd_start bd (bd_grp bd k)" if "map_of (fm_entry (mem_of es)) k = None" for k
    using that old(1) [of k] entry_of_mem [OF d, of k] by (simp add: entry_of_def)
  moreover have "length (fm_cells (mem_of es)) = length es" by (simp add: mem_of_def)
  ultimately have "mem_ok bd ?own (mem_of es)" using cells by (simp add: mem_ok_def map_of_mem [OF d])
  with jobs have "race_ok bd ?own (js, mem_of es)" by (auto simp: race_ok_def job_ok_def Let_def)
  from fold_race_ok [OF B this evs] obtain own where own: "race_ok bd own (js', m)"
    using run unfolding race_def by metis
  then have ok: "mem_ok bd own m" "\<forall>j \<in> set js'. job_ok bd own j" by (simp_all add: race_ok_def)
  from ok(1) show "entry_of m k = None \<Longrightarrow> None \<in> bd_start bd (bd_grp bd k)"
    by (simp add: entry_of_def mem_ok_def)
  from ok(1) show "entry_of m k = Some v \<Longrightarrow> cell_ok bd (bd_grp bd k) v"
    by (force simp: entry_of_def mem_ok_def)
  from ok(2) show "j \<in> set js' \<Longrightarrow> jb_at j = ProbeEnd True \<Longrightarrow>
      entitled (bd_flags bd (bd_grp bd (jb_key j))) (bd_start bd (bd_grp bd (jb_key j))) ctStateEstablished"
    by (force simp: job_ok_def Let_def)
qed

text \<open>A close can be lost: an ACK tests the state, the other side's RST stores CLOSED, and the ACK stores
  ESTABLISHED over it. In either sequential order the flow ends CLOSED.\<close>

definition flow_a :: ctKey where
  "flow_a = \<lparr>ck_Saddr = 1, ck_Daddr = 2, ck_Sport = 3, ck_Dport = 4, ck_Protocol = 6\<rparr>"

definition flow_b :: ctKey where
  "flow_b = flow_a\<lparr>ck_Sport := 5\<rparr>"

definition racing :: "ctKey \<Rightarrow> u8 \<Rightarrow> u64 \<Rightarrow> upd_job" where
  "racing k f now = \<lparr>jb_key = k, jb_flags = f, jb_now = now, jb_room = True, jb_at = AtLookup\<rparr>"

definition probing :: "ctKey \<Rightarrow> upd_job" where
  "probing k = (racing k TCP_ACK 0)\<lparr>jb_at := ProbeLookup\<rparr>"

lemmas tcp_bits = TCP_ACK_def TCP_RST_def TCP_FIN_def TCP_SYN_def
lemmas race_eval = race_defs mem_of_def racing_def probing_def flow_a_def flow_b_def tcp_bits ct_first_def
  ctStateClosed_def ctStateNew_def ctStateEstablished_def

lemma late_ack_runs:
  fixes t :: u64
  defines "js \<equiv> [racing flow_a TCP_ACK 5, racing flow_a TCP_RST 7]"
    and "es \<equiv> [(flow_a, \<lparr>cv_LastSeen = t, cv_State = ctStateNew\<rparr>)]"
  shows "entry_of (snd (race (map Access [0, 0, 0, 1, 1, 1, 0]) js es)) flow_a = Some \<lparr>cv_LastSeen = 7, cv_State = ctStateEstablished\<rparr>"
    and "entry_of (snd (race (map Access [0, 0, 0, 0, 1, 1, 1]) js es)) flow_a = Some \<lparr>cv_LastSeen = 7, cv_State = ctStateClosed\<rparr>"
    and "entry_of (snd (race (map Access [1, 1, 1, 0, 0, 0, 0]) js es)) flow_a = Some \<lparr>cv_LastSeen = 5, cv_State = ctStateClosed\<rparr>"
  by (simp_all add: js_def es_def race_eval)

text \<open>A refresh can be lost as well: the flow is deleted between the lookup of an accepted packet and its
  writes, and is not tracked any more although the packet was accepted.\<close>

lemma refresh_lost:
  "entry_of (snd (race [Access 0, Evict flow_a, Access 0, Access 0] [racing flow_a TCP_ACK 9]
     [(flow_a, \<lparr>cv_LastSeen = 1, cv_State = ctStateEstablished\<rparr>)])) flow_a = None"
  by (simp add: race_eval)

text \<open>Recycled memory breaks the separation of the flows. An ACK of flow \<open>a\<close> has looked its entry up; the entry is deleted,
  and a SYN of flow \<open>b\<close> takes its memory: the ACK then establishes \<open>b\<close>, which has sent nothing but a SYN. And a
  packet of \<open>a\<close>, whose flow is only NEW, finds the state of the established flow \<open>b\<close> and passes.\<close>

lemma recycled_memory:
  defines "es \<equiv> [(flow_a, \<lparr>cv_LastSeen = 1, cv_State = ctStateNew\<rparr>)]"
  shows "entry_of (snd (race [Access 0, Access 0, Evict flow_a, Access 1, Recycle 1 0, Access 0, Access 0]
      [racing flow_a TCP_ACK 9, racing flow_b TCP_SYN 10] es)) flow_b = Some \<lparr>cv_LastSeen = 10, cv_State = ctStateEstablished\<rparr>"
    and "map jb_at (fst (race [Access 0, Evict flow_a, Access 1, Recycle 1 0, Access 0]
      [probing flow_a, racing flow_b TCP_ACK 10] es)) = [ProbeEnd True, AtEnd]"
  by (simp_all add: es_def race_eval)

section \<open>Every flow by itself\<close>

definition flags_of :: "ctKey \<Rightarrow> upd_job list \<Rightarrow> u8 set" where
  "flags_of k js = jb_flags ` {j \<in> set js. jb_key j = k \<and> jb_at j = AtLookup}"

definition times_of :: "ctKey \<Rightarrow> upd_job list \<Rightarrow> u64 set" where
  "times_of k js = jb_now ` {j \<in> set js. jb_key j = k \<and> jb_at j = AtLookup}"

lemma flags_of_simps [simp]:
  "flags_of k [] = {}"
  "flags_of k (j # js) =
     (if jb_key j = k \<and> jb_at j = AtLookup then insert (jb_flags j) (flags_of k js) else flags_of k js)"
  by (auto simp: flags_of_def)

text \<open>What the packets of a flow, and its deletions, can have made of its state.\<close>

definition may_be :: "ctKey \<Rightarrow> race_event list \<Rightarrow> upd_job list \<Rightarrow> (ctKey \<times> ctValue) list \<Rightarrow> u32 \<Rightarrow> bool" where
  "may_be k sched js es t \<longleftrightarrow>
     justified (flags_of k js) (map_option cv_State (map_of es k)) t \<or>
     Evict k \<in> set sched \<and> justified (flags_of k js) None t"

text \<open>Even with recycling, some packet is to blame for every state.\<close>

lemma recycled_bounds:
  assumes "distinct (map fst es)" "\<forall>j \<in> set js. jb_at j \<in> {AtLookup, ProbeLookup}" "race sched js es = (js', m)"
    "entry_of m k = Some v"
  shows "\<exists>s \<in> insert None ((Some \<circ> cv_State \<circ> snd) ` set es). justified (\<Union>k. flags_of k js) s (cv_State v)"
proof -
  let ?bd = "\<lparr>bd_grp = (\<lambda>_. ()), bd_flags = (\<lambda>_. \<Union>k. flags_of k js),
    bd_times = (\<lambda>_. UNIV), bd_start = (\<lambda>_. insert None ((Some \<circ> cv_State \<circ> snd) ` set es))\<rparr>"
  have old: "map_option cv_State (map_of es k) \<in> bd_start ?bd (bd_grp ?bd k)" for k
    by (cases "map_of es k") (force dest: map_of_SomeD)+
  have jobs: "\<forall>j \<in> set js. jb_at j = ProbeLookup \<or> jb_at j = AtLookup \<and> jb_flags j \<in> bd_flags ?bd (bd_grp ?bd (jb_key j)) \<and>
      jb_now j \<in> bd_times ?bd (bd_grp ?bd (jb_key j))"
    using assms(2) by (auto simp: flags_of_def)
  have evs: "\<forall>ev \<in> set sched. event_ok ?bd ev" by (simp add: event_ok_def split: race_event.split)
  have "cell_ok ?bd () v"
    using race_bounds(2) [where bd = ?bd, OF assms(1) jobs old _ _ evs assms(3,4)] by simp
  then show ?thesis by (simp add: cell_ok_def entitled_def)
qed

text \<open>Claim C25: packets on several processors cannot corrupt the state of a flow, even while the control plane
  deletes entries, as long as the memory of a deleted entry is not reused under them. Whatever the schedule of
  the accesses of any number of packets of any flows, a flow's entry disappears only if it is deleted, the time in it
  is the old one or that of one of the flow's own packets, and its state is the old one or one that a packet of that flow is
  entitled to give it: CLOSED if some packet carries FIN or RST, NEW for a new flow with a SYN, ESTABLISHED only if the
  flow was NEW, or not tracked, and a packet without FIN and RST carries ACK, or is the first of a new flow without
  SYN. After a deletion the flow counts as new. And a packet finds its flow established only if it was, or one
  of its packets was entitled to establish it.\<close>

theorem updates_race:
  assumes "distinct (map fst es)" "\<forall>j \<in> set js. jb_at j \<in> {AtLookup, ProbeLookup}"
    "\<forall>i p. Recycle i p \<notin> set sched" "race sched js es = (js', m)"
  shows "(entry_of m k = None \<longrightarrow> map_of es k = None \<or> Evict k \<in> set sched) \<and>
    (\<forall>v. entry_of m k = Some v \<longrightarrow> may_be k sched js es (cv_State v) \<and>
       (Some (cv_LastSeen v) = map_option cv_LastSeen (map_of es k) \<or> cv_LastSeen v \<in> times_of k js)) \<and>
    (\<forall>j \<in> set js'. jb_key j = k \<and> jb_at j = ProbeEnd True \<longrightarrow> may_be k sched js es ctStateEstablished)"
proof -
  let ?bd = "\<lparr>bd_grp = (\<lambda>k. k), bd_flags = (\<lambda>k. flags_of k js),
    bd_times = (\<lambda>k. times_of k js \<union> set_option (map_option cv_LastSeen (map_of es k))),
    bd_start = (\<lambda>k. insert (map_option cv_State (map_of es k)) (if Evict k \<in> set sched then {None} else {}))\<rparr>"
  have jobs: "\<forall>j \<in> set js. jb_at j = ProbeLookup \<or> jb_at j = AtLookup \<and> jb_flags j \<in> bd_flags ?bd (bd_grp ?bd (jb_key j)) \<and>
      jb_now j \<in> bd_times ?bd (bd_grp ?bd (jb_key j))"
    using assms(2) by (auto simp: flags_of_def times_of_def)
  have old: "map_option cv_State (map_of es k') \<in> bd_start ?bd (bd_grp ?bd k')" "bd_start ?bd k' \<noteq> {}" for k'
    by simp_all
  have times: "cv_LastSeen v \<in> bd_times ?bd (bd_grp ?bd k')" if "map_of es k' = Some v" for k' v
    using that by simp
  have evs: "\<forall>ev \<in> set sched. event_ok ?bd ev"
    using assms(3) by (auto simp: event_ok_def split: race_event.split)
  note b = race_bounds [where bd = ?bd, OF assms(1) jobs old(1) times old(2) evs assms(4)]
  have can: "entitled (flags_of k js) (bd_start ?bd k) t \<Longrightarrow> may_be k sched js es t" for t
    by (auto simp: entitled_def may_be_def split: if_splits)
  show ?thesis
  proof (intro conjI allI impI ballI)
    show "map_of es k = None \<or> Evict k \<in> set sched" if "entry_of m k = None"
      using b(1) [OF _ that] by (auto split: if_splits)
  next
    fix v assume "entry_of m k = Some v"
    with b(2) have "cell_ok ?bd k v" by simp
    with can show "may_be k sched js es (cv_State v)"
        "Some (cv_LastSeen v) = map_option cv_LastSeen (map_of es k) \<or> cv_LastSeen v \<in> times_of k js"
      by (auto simp: cell_ok_def)
  next
    fix j assume "j \<in> set js'" "jb_key j = k \<and> jb_at j = ProbeEnd True"
    with b(3) can show "may_be k sched js es ctStateEstablished" by fastforce
  qed
qed

theorem updates_race_witness:
  "\<exists>js' m. race (map Access [0, 2, 0, 0, 1, 1, 1, 0, 2, 2]) [racing flow_a TCP_ACK 5, racing flow_a TCP_RST 7, racing flow_b TCP_SYN 8]
       [(flow_a, \<lparr>cv_LastSeen = 1, cv_State = ctStateNew\<rparr>)] = (js', m) \<and>
     entry_of m flow_a = Some \<lparr>cv_LastSeen = 7, cv_State = ctStateEstablished\<rparr> \<and>
     justified {TCP_ACK, TCP_RST} (Some ctStateNew) ctStateEstablished"
proof -
  let ?js = "[racing flow_a TCP_ACK 5, racing flow_a TCP_RST 7, racing flow_b TCP_SYN 8]"
  let ?es = "[(flow_a, \<lparr>cv_LastSeen = 1, cv_State = ctStateNew\<rparr>)]"
  let ?sched = "map Access [0, 2, 0, 0, 1, 1, 1, 0, 2, 2]"
  obtain js' m where run: "race ?sched ?js ?es = (js', m)" by fastforce
  have e: "entry_of (snd (race ?sched ?js ?es)) flow_a = Some \<lparr>cv_LastSeen = 7, cv_State = ctStateEstablished\<rparr>"
    by (simp add: race_eval)
  have "flags_of flow_a ?js = {TCP_ACK, TCP_RST}"
    by (auto simp: racing_def flow_a_def flow_b_def)
  with updates_race [OF _ _ _ run, of flow_a] e run
  have "justified {TCP_ACK, TCP_RST} (Some ctStateNew) ctStateEstablished" by (simp add: racing_def may_be_def)
  with run e show ?thesis by auto
qed

end
