(* ===== verification/CounterRace.thy ===== *)
theory CounterRace
  imports Flows Invariant
begin

text \<open>
  The counters on several processors. \<open>incr_counter\<close> of \<open>bpf/firewall.c\<close> adds to the packets and to the
  bytes of an entry by two atomic instructions, and a packet calls it for the total and for its
  verdict: four additions, which packets judged at the same time make in any order. Alone they are
  \<open>count_packet\<close>; together no addition is lost, and at any moment the books differ by the packets
  that are on their way between their additions.
\<close>

section \<open>The additions of one packet\<close>

definition add_packets :: "u32 \<Rightarrow> fw_maps \<Rightarrow> fw_maps" where
  "add_packets idx m =
     (case counters m idx of
        None \<Rightarrow> m
      | Some val \<Rightarrow> m\<lparr>counters := (counters m)(idx \<mapsto> val\<lparr>cnt_Packets := cnt_Packets val + 1\<rparr>)\<rparr>)"

definition add_bytes :: "u32 \<Rightarrow> u64 \<Rightarrow> fw_maps \<Rightarrow> fw_maps" where
  "add_bytes idx n m =
     (case counters m idx of
        None \<Rightarrow> m
      | Some val \<Rightarrow> m\<lparr>counters := (counters m)(idx \<mapsto> val\<lparr>cnt_Bytes := cnt_Bytes val + n\<rparr>)\<rparr>)"

lemma incr_counter_adds: "incr_counter idx n m = add_bytes idx n (add_packets idx m)"
proof (cases "counters m idx")
  case (Some val)
  then show ?thesis by (cases val) (simp add: incr_counter_def add_packets_def add_bytes_def)
qed (simp add: incr_counter_def add_packets_def add_bytes_def)

text \<open>A packet being counted: its verdict, its length, and how many of its additions are done.\<close>

record tally =
  ty_verdict :: xdp_action
  ty_len :: u64
  ty_done :: nat

definition verdict_counter :: "xdp_action \<Rightarrow> u32" where
  "verdict_counter v = (if v = XDP_DROP then counterDrop else counterPass)"

definition tally_add :: "tally \<Rightarrow> fw_maps \<Rightarrow> fw_maps" where
  "tally_add t m =
     (if ty_done t = 0 then add_packets counterTotal m
      else if ty_done t = 1 then add_bytes counterTotal (ty_len t) m
      else if ty_done t = 2 then add_packets (verdict_counter (ty_verdict t)) m
      else if ty_done t = 3 then add_bytes (verdict_counter (ty_verdict t)) (ty_len t) m
      else m)"

text \<open>A schedule names the packet that makes its next addition.\<close>

definition tally_step :: "nat \<Rightarrow> tally list \<times> fw_maps \<Rightarrow> tally list \<times> fw_maps" where
  "tally_step i s =
     (case s of (ts, m) \<Rightarrow>
        if i < length ts then (ts[i := (ts ! i)\<lparr>ty_done := Suc (ty_done (ts ! i))\<rparr>], tally_add (ts ! i) m)
        else (ts, m))"

definition tally_run :: "nat list \<Rightarrow> tally list \<Rightarrow> fw_maps \<Rightarrow> tally list \<times> fw_maps" where
  "tally_run sched ts m = fold tally_step sched (ts, m)"

definition tally_of :: "xdp_action \<Rightarrow> u64 \<Rightarrow> tally" where
  "tally_of v n = \<lparr>ty_verdict = v, ty_len = n, ty_done = 0\<rparr>"

text \<open>One packet alone.\<close>

lemma tally_alone:
  "tally_run [0, 0, 0, 0] [tally_of v n] m = ([(tally_of v n)\<lparr>ty_done := 4\<rparr>], count_packet v n m)"
  by (simp add: tally_run_def tally_step_def tally_add_def tally_of_def count_packet_def
      verdict_counter_def incr_counter_adds)

section \<open>Any number of packets\<close>

text \<open>What packet \<open>t\<close> has added to an entry so far.\<close>

definition added_packets :: "u32 \<Rightarrow> tally \<Rightarrow> u64" where
  "added_packets idx t =
     (if 0 < ty_done t \<and> idx = counterTotal then 1 else 0) +
     (if 2 < ty_done t \<and> idx = verdict_counter (ty_verdict t) then 1 else 0)"

definition added_bytes :: "u32 \<Rightarrow> tally \<Rightarrow> u64" where
  "added_bytes idx t =
     (if 1 < ty_done t \<and> idx = counterTotal then ty_len t else 0) +
     (if 3 < ty_done t \<and> idx = verdict_counter (ty_verdict t) then ty_len t else 0)"

lemma verdict_counter_not_total: "verdict_counter v \<noteq> counterTotal"
  by (simp add: verdict_counter_def counter_idx_defs)

lemma sum_list_update_word:
  fixes f :: "'a \<Rightarrow> 'b :: ab_group_add"
  shows "i < length xs \<Longrightarrow> (\<Sum>x\<leftarrow>xs[i := y]. f x) = (\<Sum>x\<leftarrow>xs. f x) + (f y - f (xs ! i))"
proof (induction xs arbitrary: i)
  case (Cons x xs)
  then show ?case by (cases i) (simp_all add: algebra_simps)
qed simp

lemma slot_adds:
  assumes "idx \<in> dom (counters m)"
  shows "slot j (add_packets idx m) =
      (if j = idx then (slot j m)\<lparr>cnt_Packets := cnt_Packets (slot j m) + 1\<rparr> else slot j m)"
    and "slot j (add_bytes idx n m) =
      (if j = idx then (slot j m)\<lparr>cnt_Bytes := cnt_Bytes (slot j m) + n\<rparr> else slot j m)"
  using assms by (auto simp: slot_def add_packets_def add_bytes_def)

lemma adds_frame:
  "m\<lparr>counters := c\<rparr> = (add_packets idx m)\<lparr>counters := c\<rparr>" "m\<lparr>counters := c\<rparr> = (add_bytes idx n m)\<lparr>counters := c\<rparr>"
  "dom (counters (add_packets idx m)) = dom (counters m)" "dom (counters (add_bytes idx n m)) = dom (counters m)"
  by (auto simp: add_packets_def add_bytes_def split: option.splits)

lemma tally_add_frame:
  "dom (counters (tally_add t m)) = dom (counters m)" "(tally_add t m)\<lparr>counters := c\<rparr> = m\<lparr>counters := c\<rparr>"
  by (simp_all add: tally_add_def adds_frame flip: adds_frame(1,2))

text \<open>The invariant: every entry is the initial one plus what the packets have added to it.\<close>

definition tallied :: "fw_maps \<Rightarrow> tally list \<times> fw_maps \<Rightarrow> bool" where
  "tallied m0 s \<longleftrightarrow>
     dom (counters (snd s)) = dom (counters m0) \<and>
     (\<forall>c. (snd s)\<lparr>counters := c\<rparr> = m0\<lparr>counters := c\<rparr>) \<and>
     (\<forall>j. cnt_Packets (slot j (snd s)) = cnt_Packets (slot j m0) + (\<Sum>t\<leftarrow>fst s. added_packets j t) \<and>
          cnt_Bytes (slot j (snd s)) = cnt_Bytes (slot j m0) + (\<Sum>t\<leftarrow>fst s. added_bytes j t))"

lemma tallied_determined:
  assumes "tallied m0 (ts, m)" "tallied m0 (ts', m')"
    "\<And>j. (\<Sum>t\<leftarrow>ts. added_packets j t) = (\<Sum>t\<leftarrow>ts'. added_packets j t)"
    "\<And>j. (\<Sum>t\<leftarrow>ts. added_bytes j t) = (\<Sum>t\<leftarrow>ts'. added_bytes j t)"
  shows "m = m'"
proof -
  have slots: "slot j m = slot j m'" for j
    using assms by (intro counterValue.equality) (simp_all add: tallied_def)
  have "counters m = counters m'"
  proof
    fix j
    have "j \<in> dom (counters m) \<longleftrightarrow> j \<in> dom (counters m')" using assms(1,2) by (simp add: tallied_def)
    with slots [of j] show "counters m j = counters m' j"
      by (cases "counters m j"; cases "counters m' j") (auto simp: slot_def domIff)
  qed
  moreover have "m\<lparr>counters := counters m\<rparr> = m'\<lparr>counters := counters m\<rparr>"
    using assms(1,2) by (simp add: tallied_def)
  ultimately show ?thesis by (metis (no_types, lifting) fw_maps.surjective fw_maps.update_convs(4))
qed

lemma slot_tally_add:
  assumes "{counterTotal, counterDrop, counterPass} \<subseteq> dom (counters m)"
  shows "cnt_Packets (slot j (tally_add t m)) =
      cnt_Packets (slot j m) + (added_packets j (t\<lparr>ty_done := Suc (ty_done t)\<rparr>) - added_packets j t)"
    and "cnt_Bytes (slot j (tally_add t m)) =
      cnt_Bytes (slot j m) + (added_bytes j (t\<lparr>ty_done := Suc (ty_done t)\<rparr>) - added_bytes j t)"
proof -
  have d: "counterTotal \<in> dom (counters m)" "verdict_counter (ty_verdict t) \<in> dom (counters m)"
    using assms by (auto simp: verdict_counter_def)
  consider "ty_done t = 0" | "ty_done t = 1" | "ty_done t = 2" | "ty_done t = 3" | "4 \<le> ty_done t" by linarith
  note cases5 = this
  show "cnt_Packets (slot j (tally_add t m)) =
      cnt_Packets (slot j m) + (added_packets j (t\<lparr>ty_done := Suc (ty_done t)\<rparr>) - added_packets j t)"
    using cases5 by cases (simp_all add: tally_add_def slot_adds d added_packets_def)
  show "cnt_Bytes (slot j (tally_add t m)) =
      cnt_Bytes (slot j m) + (added_bytes j (t\<lparr>ty_done := Suc (ty_done t)\<rparr>) - added_bytes j t)"
    using cases5 by cases (simp_all add: tally_add_def slot_adds d added_bytes_def)
qed

lemma tallied_step:
  assumes "counters_ready m0" "tallied m0 s"
  shows "tallied m0 (tally_step i s)"
proof (cases "i < length (fst s)")
  case True
  obtain ts m where s: "s = (ts, m)" by fastforce
  have d: "{counterTotal, counterDrop, counterPass} \<subseteq> dom (counters m)"
    using assms s by (simp add: counters_ready_def tallied_def)
  show ?thesis
    using assms(2) True
    by (simp add: s tally_step_def tallied_def tally_add_frame slot_tally_add [OF d] sum_list_update_word algebra_simps)
next
  case False
  then show ?thesis using assms(2) by (cases s) (simp add: tally_step_def)
qed

lemma tallied_fold: "counters_ready m0 \<Longrightarrow> tallied m0 s \<Longrightarrow> tallied m0 (fold tally_step sched s)"
  by (induction sched arbitrary: s) (simp_all add: tallied_step)

lemma tallied_start: "tallied m (map (\<lambda>(v, n). tally_of v n) ps, m)"
  by (induction ps) (auto simp: tallied_def added_packets_def added_bytes_def tally_of_def)

lemma tallied_run:
  "counters_ready m \<Longrightarrow> tallied m (tally_run sched (map (\<lambda>(v, n). tally_of v n) ps) m)"
  unfolding tally_run_def by (rule tallied_fold [OF _ tallied_start])

text \<open>The packets one after the other.\<close>

definition counted_all :: "(xdp_action \<times> u64) list \<Rightarrow> tally list" where
  "counted_all ps = map (\<lambda>(v, n). (tally_of v n)\<lparr>ty_done := 4\<rparr>) ps"

lemma tallied_trans: "tallied m0 (ts, m1) \<Longrightarrow> tallied m1 (us, m2) \<Longrightarrow> tallied m0 (ts @ us, m2)"
  by (simp add: tallied_def algebra_simps)

lemma tallied_sequential:
  "counters_ready m \<Longrightarrow> tallied m (counted_all ps, fold (\<lambda>(v, n). count_packet v n) ps m)"
proof (induction ps arbitrary: m)
  case (Cons p ps)
  obtain v n where p: "p = (v, n)" by fastforce
  have one: "tallied m ([(tally_of v n)\<lparr>ty_done := 4\<rparr>], count_packet v n m)"
    using tallied_run [OF Cons.prems, of "[0, 0, 0, 0]" "[(v, n)]"] by (simp add: tally_alone)
  then have "counters_ready (count_packet v n m)"
    using Cons.prems by (simp add: tallied_def counters_ready_def)
  from tallied_trans [OF one Cons.IH [OF this]] show ?case by (simp add: p counted_all_def)
qed (simp add: counted_all_def tallied_def)

lemma tally_run_packets:
  "map (\<lambda>t. (ty_verdict t, ty_len t)) (fst (tally_run sched ts m)) = map (\<lambda>t. (ty_verdict t, ty_len t)) ts"
proof (induction sched rule: rev_induct)
  case (snoc i sched)
  obtain us m' where u: "tally_run sched ts m = (us, m')" by fastforce
  have "map (\<lambda>t. (ty_verdict t, ty_len t)) (us[i := (us ! i)\<lparr>ty_done := d\<rparr>]) = map (\<lambda>t. (ty_verdict t, ty_len t)) us" for d
    by (cases "i < length us") (simp_all add: map_update list_update_same_conv list_update_beyond)
  with snoc u show ?case by (simp add: tally_run_def tally_step_def)
qed (simp add: tally_run_def)

lemma counted_all_sums:
  assumes "\<forall>t \<in> set ts. 4 \<le> ty_done t" "map (\<lambda>t. (ty_verdict t, ty_len t)) ts = ps"
  shows "(\<Sum>t\<leftarrow>ts. added_packets j t) = (\<Sum>t\<leftarrow>counted_all ps. added_packets j t)"
    and "(\<Sum>t\<leftarrow>ts. added_bytes j t) = (\<Sum>t\<leftarrow>counted_all ps. added_bytes j t)"
  using assms
  by (induction ts arbitrary: ps) (auto simp: counted_all_def added_packets_def added_bytes_def tally_of_def)

text \<open>The packets between their additions to the total and to the verdict's counter.\<close>

definition packets_between :: "tally list \<Rightarrow> u64" where
  "packets_between ts = of_nat (length (filter (\<lambda>t. ty_done t = 1 \<or> ty_done t = 2) ts))"

definition bytes_between :: "tally list \<Rightarrow> u64" where
  "bytes_between ts = (\<Sum>t\<leftarrow>filter (\<lambda>t. ty_done t = 2 \<or> ty_done t = 3) ts. ty_len t)"

lemma between_sums:
  "(\<Sum>t\<leftarrow>ts. added_packets counterTotal t) =
     (\<Sum>t\<leftarrow>ts. added_packets counterDrop t) + (\<Sum>t\<leftarrow>ts. added_packets counterPass t) + packets_between ts"
  "(\<Sum>t\<leftarrow>ts. added_bytes counterTotal t) =
     (\<Sum>t\<leftarrow>ts. added_bytes counterDrop t) + (\<Sum>t\<leftarrow>ts. added_bytes counterPass t) + bytes_between ts"
proof -
  have "added_packets counterTotal t = added_packets counterDrop t + added_packets counterPass t +
      (if ty_done t = 1 \<or> ty_done t = 2 then 1 else 0)" for t
    by (auto simp: added_packets_def verdict_counter_def counter_idx_defs)
  then show "(\<Sum>t\<leftarrow>ts. added_packets counterTotal t) =
      (\<Sum>t\<leftarrow>ts. added_packets counterDrop t) + (\<Sum>t\<leftarrow>ts. added_packets counterPass t) + packets_between ts"
    by (induction ts) (simp_all add: packets_between_def algebra_simps)
  have "added_bytes counterTotal t = added_bytes counterDrop t + added_bytes counterPass t +
      (if ty_done t = 2 \<or> ty_done t = 3 then ty_len t else 0)" for t
    by (auto simp: added_bytes_def verdict_counter_def counter_idx_defs)
  then show "(\<Sum>t\<leftarrow>ts. added_bytes counterTotal t) =
      (\<Sum>t\<leftarrow>ts. added_bytes counterDrop t) + (\<Sum>t\<leftarrow>ts. added_bytes counterPass t) + bytes_between ts"
    by (induction ts) (simp_all add: bytes_between_def algebra_simps)
qed

text \<open>\<open>GetCounters\<close> reads the total, the dropped and the passed packets one after the other, while packets are
  counted. What is counted for a verdict between two moments:\<close>

definition counted_since :: "xdp_action \<Rightarrow> tally list \<Rightarrow> tally list \<Rightarrow> u64" where
  "counted_since v ts ts' =
     of_nat (length (filter (\<lambda>(t, t'). ty_verdict t = v \<and> ty_done t \<le> 2 \<and> 2 < ty_done t') (zip ts ts')))"

definition bytes_since :: "xdp_action \<Rightarrow> tally list \<Rightarrow> tally list \<Rightarrow> u64" where
  "bytes_since v ts ts' =
     (\<Sum>(t, t')\<leftarrow>filter (\<lambda>(t, t'). ty_verdict t = v \<and> ty_done t \<le> 3 \<and> 3 < ty_done t') (zip ts ts'). ty_len t)"

definition later :: "tally \<Rightarrow> tally \<Rightarrow> bool" where
  "later t t' \<longleftrightarrow> ty_verdict t' = ty_verdict t \<and> ty_len t' = ty_len t \<and> ty_done t \<le> ty_done t'"

lemma later_run: "list_all2 later ts (fst (tally_run sched ts m))"
proof (induction sched rule: rev_induct)
  case (snoc i sched)
  obtain us m' where u: "tally_run sched ts m = (us, m')" by fastforce
  have "list_all2 later ts (us[i := (us ! i)\<lparr>ty_done := Suc (ty_done (us ! i))\<rparr>])" if "i < length us"
    using snoc u that by (fastforce simp: list_all2_conv_all_nth nth_list_update later_def)
  with snoc u show ?case by (simp add: tally_run_def tally_step_def)
qed (simp add: tally_run_def later_def list_all2_same)

lemma tally_run_append:
  "tally_run s1 ts m = (ts1, m1) \<Longrightarrow> tally_run (s1 @ s2) ts m = tally_run s2 ts1 m1"
  by (simp add: tally_run_def)

lemma since_sums:
  assumes "list_all2 later ts ts'"
  shows "(\<Sum>t\<leftarrow>ts'. added_packets (verdict_counter v) t) =
      (\<Sum>t\<leftarrow>ts. added_packets (verdict_counter v) t) + counted_since v ts ts'"
    and "(\<Sum>t\<leftarrow>ts'. added_bytes (verdict_counter v) t) =
      (\<Sum>t\<leftarrow>ts. added_bytes (verdict_counter v) t) + bytes_since v ts ts'"
proof -
  have inj: "verdict_counter v = verdict_counter u \<longleftrightarrow> v = u" for u
    by (cases v; cases u) (simp_all add: verdict_counter_def counter_idx_defs)
  note defs = added_packets_def added_bytes_def verdict_counter_not_total inj later_def
  show "(\<Sum>t\<leftarrow>ts'. added_packets (verdict_counter v) t) =
      (\<Sum>t\<leftarrow>ts. added_packets (verdict_counter v) t) + counted_since v ts ts'"
    using assms by (induction rule: list_all2_induct) (auto simp: counted_since_def defs)
  show "(\<Sum>t\<leftarrow>ts'. added_bytes (verdict_counter v) t) =
      (\<Sum>t\<leftarrow>ts. added_bytes (verdict_counter v) t) + bytes_since v ts ts'"
    using assms by (induction rule: list_all2_induct) (auto simp: bytes_since_def defs)
qed

lemma since_same: "counted_since v ts ts = 0" "bytes_since v ts ts = 0"
proof -
  have "filter (\<lambda>(t, t'). ty_verdict t = v \<and> ty_done t \<le> k \<and> k < ty_done t') (zip ts ts) = []" for k
    by (induction ts) auto
  then show "counted_since v ts ts = 0" "bytes_since v ts ts = 0"
    by (simp_all add: counted_since_def bytes_since_def)
qed

lemma verdict_counters: "verdict_counter XDP_DROP = counterDrop" "verdict_counter XDP_PASS = counterPass"
  by (simp_all add: verdict_counter_def)

text \<open>Claim C26: no packet is lost in the counters. Packets judged on any number of processors make
  their additions in any order, while the total, the dropped and the passed packets are read one after the other:
  the two verdicts read, with the packets that were on their way between their additions at the first reading, are the
  total read and the packets that reached their verdict's counter since then, in packets and in bytes modulo 64
  bits; read at one moment, nothing is counted since. And when all additions are done, the maps are what they are
  after counting the packets one after the other.\<close>

theorem counters_race:
  assumes "counters_ready m" "balanced (stats_of m)" "ts = map (\<lambda>(v, n). tally_of v n) ps"
    "tally_run s1 ts m = (ts1, m1)" "tally_run (s1 @ s2) ts m = (ts2, m2)" "tally_run (s1 @ s2 @ s3) ts m = (ts3, m3)"
  shows "st_DropPackets (stats_of m2) + st_PassPackets (stats_of m3) + packets_between ts1 =
      st_TotalPackets (stats_of m1) + counted_since XDP_DROP ts1 ts2 + counted_since XDP_PASS ts1 ts3 \<and>
    st_DropBytes (stats_of m2) + st_PassBytes (stats_of m3) + bytes_between ts1 =
      st_TotalBytes (stats_of m1) + bytes_since XDP_DROP ts1 ts2 + bytes_since XDP_PASS ts1 ts3 \<and>
    counted_since v ts1 ts1 = 0 \<and> bytes_since v ts1 ts1 = 0 \<and>
    ((\<forall>t \<in> set ts3. 4 \<le> ty_done t) \<longrightarrow> m3 = fold (\<lambda>(v, n). count_packet v n) ps m)"
proof -
  have t: "tallied m (ts1, m1)" "tallied m (ts2, m2)" "tallied m (ts3, m3)"
    using tallied_run [OF assms(1), of _ ps] assms(3-6) by metis+
  have l: "list_all2 later ts1 ts2" "list_all2 later ts1 ts3"
    using later_run [of ts1 s2 m1] later_run [of ts1 "s2 @ s3" m1] assms(5,6)
    by (simp_all add: tally_run_append [OF assms(4)])
  note since = since_sums [OF l(1), of XDP_DROP] since_sums [OF l(2), of XDP_PASS]
  have ps: "map (\<lambda>t. (ty_verdict t, ty_len t)) ts3 = ps"
    using tally_run_packets [of "s1 @ s2 @ s3" ts m] assms(3,6)
    by (simp add: tally_of_def comp_def case_prod_unfold)
  have "st_DropPackets (stats_of m2) + st_PassPackets (stats_of m3) + packets_between ts1 =
      st_TotalPackets (stats_of m1) + counted_since XDP_DROP ts1 ts2 + counted_since XDP_PASS ts1 ts3 \<and>
    st_DropBytes (stats_of m2) + st_PassBytes (stats_of m3) + bytes_between ts1 =
      st_TotalBytes (stats_of m1) + bytes_since XDP_DROP ts1 ts2 + bytes_since XDP_PASS ts1 ts3"
    using t assms(2) between_sums [of ts1] since
    by (simp add: stats_of_def tallied_def balanced_def verdict_counters algebra_simps)
  moreover have "counted_since v ts1 ts1 = 0 \<and> bytes_since v ts1 ts1 = 0"
    by (simp add: since_same)
  moreover have "m3 = fold (\<lambda>(v, n). count_packet v n) ps m" if "\<forall>t \<in> set ts3. 4 \<le> ty_done t"
    using tallied_determined [OF t(3) tallied_sequential [OF assms(1), of ps]] counted_all_sums [OF that ps] by blast
  ultimately show ?thesis by blast
qed

text \<open>Two packets, one dropped and one passed; the total is read while both are on their way.\<close>

definition two_tallies :: "tally list" where
  "two_tallies = map (\<lambda>(v, n). tally_of v n) [(XDP_DROP, 60), (XDP_PASS, 100)]"

lemma two_runs:
  "fst (tally_run [0, 1] two_tallies m) = [(tally_of XDP_DROP 60)\<lparr>ty_done := 1\<rparr>, (tally_of XDP_PASS 100)\<lparr>ty_done := 1\<rparr>]"
  "fst (tally_run ([0, 1] @ [1, 0, 1, 0]) two_tallies m) =
     [(tally_of XDP_DROP 60)\<lparr>ty_done := 3\<rparr>, (tally_of XDP_PASS 100)\<lparr>ty_done := 3\<rparr>]"
  "fst (tally_run ([0, 1] @ [1, 0, 1, 0] @ [0, 1]) two_tallies m) =
     [(tally_of XDP_DROP 60)\<lparr>ty_done := 4\<rparr>, (tally_of XDP_PASS 100)\<lparr>ty_done := 4\<rparr>]"
  by (simp_all add: two_tallies_def tally_run_def tally_step_def tally_of_def)

theorem counters_race_witness:
  "snd (tally_run ([0, 1] @ [1, 0, 1, 0] @ [0, 1]) two_tallies fresh_maps) =
     count_packet XDP_PASS 100 (count_packet XDP_DROP 60 fresh_maps)"
proof -
  have "counters_ready fresh_maps" "balanced (stats_of fresh_maps)"
    by (auto simp: counters_ready_def balanced_def stats_of_def slot_def fresh_maps_def counter_idx_defs)
  from counters_race [OF this two_tallies_def prod.collapse [symmetric] prod.collapse [symmetric] prod.collapse [symmetric],
      of "[0, 1]" "[1, 0, 1, 0]" "[0, 1]"]
  show ?thesis unfolding two_runs by (simp add: tally_of_def)
qed

end
