(* ===== verification/Debug.thy ===== *)
theory Debug
  imports Flows Invariant
begin

text \<open>
  The debug build of \<open>bpf/firewall.c\<close>: what the program writes to the trace pipe when
  \<open>FIREWALL_DEBUG\<close> is defined. A call of \<open>bpf_printk\<close> is its format and its arguments. The cursor
  that \<open>parse_packet\<close> moves is handed on to \<open>debug_packet\<close>, so it is kept here.
\<close>

section \<open>The cursor after parsing\<close>

text \<open>\<open>parse_packet\<close> with the position it leaves in \<open>nh\<close>: behind the last header it has parsed.\<close>

definition parse_packet_at :: "u8 list \<Rightarrow> nat \<Rightarrow> (packet_info \<times> nat) option" where
  "parse_packet_at p nh =
     (case parse_ethhdr p nh of
        None \<Rightarrow> None
      | Some (nh, eth_type) \<Rightarrow>
          if eth_type \<noteq> ETH_P_IP_be then None
          else
            (case parse_iphdr p nh of
               None \<Rightarrow> None
             | Some (nh, ip, protocol) \<Rightarrow>
                 (let info = \<lparr>pi_saddr = load32 p (ip + 12), pi_daddr = load32 p (ip + 16),
                     pi_protocol = protocol, pi_dport = 0, pi_sport = 0, pi_tcp_flags = 0\<rparr> in
                  if protocol = IPPROTO_TCP then
                    (case parse_tcphdr p nh of
                       None \<Rightarrow> Some (info, nh)
                     | Some (nh, tcp) \<Rightarrow>
                         Some (info\<lparr>pi_dport := load16 p (tcp + 2), pi_sport := load16 p tcp,
                           pi_tcp_flags := tcp_flag_bits (p ! (tcp + 13))\<rparr>, nh))
                  else if protocol = IPPROTO_UDP then
                    (case parse_udphdr p nh of
                       None \<Rightarrow> Some (info, nh)
                     | Some (nh, udp) \<Rightarrow>
                         Some (info\<lparr>pi_dport := load16 p (udp + 2), pi_sport := load16 p udp\<rparr>, nh))
                  else Some (info, nh))))"

lemma parse_packet_at_info: "parse_packet p = map_option fst (parse_packet_at p 0)"
  by (simp add: parse_packet_def parse_packet_at_def Let_def split: option.split prod.split)

section \<open>The trace\<close>

type_synonym trace_line = "string \<times> u32 list"

definition IPPROTO_ICMP :: u8 where "IPPROTO_ICMP = 1"
definition ICMP_ECHO :: u8 where "ICMP_ECHO = 8"
definition ICMP_ECHOREPLY :: u8 where "ICMP_ECHOREPLY = 0"

definition parse_icmphdr :: "u8 list \<Rightarrow> nat \<Rightarrow> (nat \<times> nat \<times> u8) option" where
  "parse_icmphdr p pos = (if length p < pos + 8 then None else Some (pos + 8, pos, p ! pos))"

text \<open>The byte swaps of \<open>bpf_endian.h\<close> on a little-endian machine.\<close>

definition bpf_ntohs :: "u16 \<Rightarrow> u16" where
  "bpf_ntohs x = be16 (byte_of 0 x) (byte_of 1 x)"

definition bpf_ntohl :: "u32 \<Rightarrow> u32" where
  "bpf_ntohl x = be32 (byte_of 0 x) (byte_of 1 x) (byte_of 2 x) (byte_of 3 x)"

definition quad_args :: "u32 \<Rightarrow> u32 list" where
  "quad_args a = [drop_bit 24 a AND 0xFF, drop_bit 16 a AND 0xFF, drop_bit 8 a AND 0xFF, a AND 0xFF]"

definition bit_arg :: "u8 \<Rightarrow> u8 \<Rightarrow> u32" where
  "bit_arg b flag = (if b AND flag \<noteq> 0 then 1 else 0)"

definition icmp_lines :: "u8 list \<Rightarrow> nat \<Rightarrow> trace_line list" where
  "icmp_lines p icmp =
     (''ICMP type: %d code: %d'', [ucast (p ! icmp), ucast (p ! (icmp + 1))]) #
     (if p ! icmp = ICMP_ECHO \<or> p ! icmp = ICMP_ECHOREPLY then
        [(''ICMP echo id=%d seq=%d'',
          [ucast (bpf_ntohs (load16 p (icmp + 4))), ucast (bpf_ntohs (load16 p (icmp + 6)))])]
      else [])"

definition tcp_lines :: "u8 list \<Rightarrow> nat \<Rightarrow> trace_line list" where
  "tcp_lines p tcp =
     [(''TCP src port: %d dst port: %d'',
       [ucast (bpf_ntohs (load16 p tcp)), ucast (bpf_ntohs (load16 p (tcp + 2)))]),
      (''TCP seq: %u ack: %u'', [bpf_ntohl (load32 p (tcp + 4)), bpf_ntohl (load32 p (tcp + 8))]),
      (''TCP flags: SYN=%d ACK=%d FIN=%d RST=%d'',
       [bit_arg (p ! (tcp + 13)) 0x02, bit_arg (p ! (tcp + 13)) 0x10, bit_arg (p ! (tcp + 13)) 0x01,
        bit_arg (p ! (tcp + 13)) 0x04])]"

definition udp_lines :: "u8 list \<Rightarrow> nat \<Rightarrow> trace_line list" where
  "udp_lines p udp =
     [(''UDP src port: %d dst port: %d'',
       [ucast (bpf_ntohs (load16 p udp)), ucast (bpf_ntohs (load16 p (udp + 2)))])]"

definition debug_packet :: "u8 list \<Rightarrow> packet_info \<Rightarrow> nat \<Rightarrow> trace_line list" where
  "debug_packet p info nh =
     (let src = bpf_ntohl (pi_saddr info); dst = bpf_ntohl (pi_daddr info) in
      [(''IPv4 src: %d.%d.%d.%d'', quad_args src), (''IPv4 dst: %d.%d.%d.%d'', quad_args dst)] @
      (if pi_protocol info = IPPROTO_ICMP then
         (case parse_icmphdr p nh of None \<Rightarrow> [] | Some (_, icmp, _) \<Rightarrow> icmp_lines p icmp)
       else if pi_protocol info = IPPROTO_TCP then
         (case parse_tcphdr p nh of None \<Rightarrow> [] | Some (_, tcp) \<Rightarrow> tcp_lines p tcp)
       else if pi_protocol info = IPPROTO_UDP then
         (case parse_udphdr p nh of None \<Rightarrow> [] | Some (_, udp) \<Rightarrow> udp_lines p udp)
       else []))"

text \<open>What one packet writes: nothing if it is not parsed, one line if it is dropped.\<close>

definition firewall_trace :: "dp_env \<Rightarrow> u8 list \<Rightarrow> fw_maps \<Rightarrow> trace_line list" where
  "firewall_trace env pkt m =
     (case parse_packet_at pkt 0 of
        None \<Rightarrow> []
      | Some (info, nh) \<Rightarrow>
          if snd (firewall_prog env pkt m) = XDP_DROP then [(''packet DROPPED'', [])]
          else debug_packet pkt info nh)"

section \<open>What is printed\<close>

text \<open>The addresses are those of the packet.\<close>

lemma quad_args_be32: "quad_args (be32 a b c d) = [ucast a, ucast b, ucast c, ucast d]"
proof -
  have m: "x AND 0xFF = take_bit 8 x" for x :: u32
    using take_bit_eq_mask [of 8 x] by (simp add: mask_eq_exp_minus_1)
  have "take_bit 8 (drop_bit (8 * i) x) = (ucast (byte_of i x) :: u32)" for i and x :: u32
    unfolding byte_of_def by (rule bit_word_eqI) (auto simp: bit_simps)
  from this [of 0] this [of 1] this [of 2] this [of 3] show ?thesis
    unfolding quad_args_def m be32_def by simp
qed

lemma addr_args: "quad_args (bpf_ntohl a) = map ucast (data_bytes a)"
  by (simp add: bpf_ntohl_def quad_args_be32 data_bytes_def)

text \<open>The bytes of a packet from a position on.\<close>

lemma tcp_lines_drop: "k \<le> length p \<Longrightarrow> tcp_lines p k = tcp_lines (drop k p) 0"
  by (simp add: tcp_lines_def load16_def load32_def ac_simps)

lemma udp_lines_drop: "k \<le> length p \<Longrightarrow> udp_lines p k = udp_lines (drop k p) 0"
  by (simp add: udp_lines_def load16_def ac_simps)

lemma parse_drop:
  "k \<le> length p \<Longrightarrow> parse_tcphdr p k = (if length (drop k p) < 20 then None else Some (k + 20, k))"
  "k \<le> length p \<Longrightarrow> parse_udphdr p k = (if length (drop k p) < 8 then None else Some (k + 8, k))"
  by (auto simp: parse_tcphdr_def parse_udphdr_def)

text \<open>The cursor of a parsed TCP packet is behind the TCP header: what is printed is what follows.\<close>

lemma parse_tcp_frame_at:
  assumes "length mac = 12" "length h1 = 8" "length csum = 2" "length opts = 4 * n" "n \<le> 10"
    "length sa = 8" "6 \<le> length rest"
  shows "parse_packet_at (tcp_frame mac h1 csum src dst opts sport dport sa off flags rest) 0 =
    Some (\<lparr>pi_saddr = src, pi_daddr = dst, pi_protocol = 6, pi_dport = dport, pi_sport = sport,
      pi_tcp_flags = tcp_flag_bits flags\<rparr>, 54 + 4 * n)"
  by (simp add: parse_packet_at_def tcp_frame_headers [OF assms] Let_def IPPROTO_TCP_def)

lemma debug_tcp_payload:
  assumes "pi_protocol info = IPPROTO_TCP" "nh \<le> length p"
  shows "debug_packet p info nh =
    [(''IPv4 src: %d.%d.%d.%d'', map ucast (data_bytes (pi_saddr info))),
     (''IPv4 dst: %d.%d.%d.%d'', map ucast (data_bytes (pi_daddr info)))] @
    (if length (drop nh p) < 20 then [] else tcp_lines (drop nh p) 0)"
  using assms(1)
  by (simp add: debug_packet_def addr_args parse_drop [OF assms(2)] tcp_lines_drop [OF assms(2)]
      IPPROTO_TCP_def IPPROTO_ICMP_def)

text \<open>Claim C38: the debug output of a TCP packet shows its payload. The cursor is behind the TCP header
  already when \<open>debug_packet\<close> parses a TCP header once more: so a passed packet writes its addresses as they
  are, but the ports, the numbers and the flags are the first bytes of the payload, whatever the header
  holds, and nothing of a header is written when the payload has fewer than 20 bytes.\<close>

theorem debug_reads_payload:
  assumes "length mac = 12" "length h1 = 8" "length csum = 2" "length opts = 4 * n" "n \<le> 10"
    "length sa = 8" "length urg = 6"
    "p = tcp_frame mac h1 csum src dst opts sport dport sa off flags (urg @ payload)"
  shows "firewall_trace env p m =
    (if snd (firewall_prog env p m) = XDP_DROP then [(''packet DROPPED'', [])]
     else
       [(''IPv4 src: %d.%d.%d.%d'', map ucast (data_bytes src)),
        (''IPv4 dst: %d.%d.%d.%d'', map ucast (data_bytes dst))] @
       (if length payload < 20 then [] else tcp_lines payload 0))"
proof -
  have at: "parse_packet_at p 0 = Some (\<lparr>pi_saddr = src, pi_daddr = dst, pi_protocol = 6, pi_dport = dport,
      pi_sport = sport, pi_tcp_flags = tcp_flag_bits flags\<rparr>, 54 + 4 * n)"
    unfolding assms(8) by (rule parse_tcp_frame_at) (simp_all add: assms)
  let ?front = "tcp_frame mac h1 csum src dst opts sport dport sa off flags urg"
  have split: "p = ?front @ payload" unfolding assms(8) by (simp add: tcp_frame_def)
  have front: "length ?front = 54 + 4 * n" by (simp add: tcp_frame_def data_bytes_def assms(1-7))
  have len: "54 + 4 * n \<le> length p" unfolding split by (simp add: front)
  have pay: "drop (54 + 4 * n) p = payload" unfolding split by (simp add: front)
  show ?thesis
    by (simp add: firewall_trace_def at debug_tcp_payload [OF _ len] pay IPPROTO_TCP_def)
qed

text \<open>A request for a page, from port 40000 to port 80: the trace says 18245 to 21536, the letters of GET.\<close>

definition get_payload :: "u8 list" where
  "get_payload = map (\<lambda>c. of_nat (of_char c)) ''GET /index.html HTTP/1.1''"

theorem debug_reads_payload_witness:
  "\<forall>env. take 3 (firewall_trace env
     (tcp_frame (replicate 12 0) (replicate 8 0) [0, 0] (le32 10 1 2 3) (le32 192 168 1 1) []
        (portToWire 40000) (portToWire 80) (replicate 8 0) 0x50 0x18 (replicate 6 0 @ get_payload)) fresh_maps) =
   [(''IPv4 src: %d.%d.%d.%d'', [10, 1, 2, 3]), (''IPv4 dst: %d.%d.%d.%d'', [192, 168, 1, 1]),
    (''TCP src port: %d dst port: %d'', [18245, 21536])]"
proof
  fix env :: dp_env
  let ?p = "tcp_frame (replicate 12 0) (replicate 8 0) [0, 0] (le32 10 1 2 3) (le32 192 168 1 1) []
      (portToWire 40000) (portToWire 80) (replicate 8 0) 0x50 0x18 (replicate 6 0 @ get_payload)"
  have "rule_presence fresh_maps 0 = Some 0" "default_policy fresh_maps = DefaultAllow"
    by (simp_all add: fresh_maps_def default_policy_def presenceMapKey_def configKey_def DefaultAllow_def)
  then have pass: "snd (firewall_prog env ?p fresh_maps) = XDP_PASS"
    by (simp add: firewall_prog_def default_verdict_def Let_def enum_defs split: option.split)
  have t: "firewall_trace env ?p fresh_maps =
      (if snd (firewall_prog env ?p fresh_maps) = XDP_DROP then [(''packet DROPPED'', [])]
       else
         [(''IPv4 src: %d.%d.%d.%d'', map ucast (data_bytes (le32 10 1 2 3))),
          (''IPv4 dst: %d.%d.%d.%d'', map ucast (data_bytes (le32 192 168 1 1)))] @
         (if length get_payload < 20 then [] else tcp_lines get_payload 0))"
    by (rule debug_reads_payload [where n = 0]) simp_all
  have "length get_payload = 24" "tcp_lines get_payload 0 ! 0 = (''TCP src port: %d dst port: %d'', [18245, 21536])"
    by code_simp+
  then show "take 3 (firewall_trace env ?p fresh_maps) =
     [(''IPv4 src: %d.%d.%d.%d'', [10, 1, 2, 3]), (''IPv4 dst: %d.%d.%d.%d'', [192, 168, 1, 1]),
      (''TCP src port: %d dst port: %d'', [18245, 21536])]"
    by (simp add: t pass tcp_lines_def)
qed

end
