(* ===== verification/History.thy ===== *)
theory History
  imports ConcurrencyProps
begin

text \<open>
  What a program of map calls knows when it acts: the worlds it has seen at its earlier calls. The
  conntrack table changes under the reaper and under a listing - packets are tracked and refreshed,
  a request may clear it - so what they remove or report was true at some moment of their run, if
  not at its end. \<open>hist\<close> carries the worlds seen so far along a program, and \<open>ticking\<close> is the part
  of a run in which the reaper is in one tick.
\<close>

section \<open>Programs with their history\<close>

text \<open>Every tracked flow that a call removes satisfies \<open>S\<close> of the worlds seen, this call's included,
  and the result satisfies \<open>Q\<close>; any world may be met at any call.\<close>

primrec hist ::
    "('w \<Rightarrow> fw_maps) \<Rightarrow> ('w set \<Rightarrow> ctKey \<Rightarrow> bool) \<Rightarrow> ('w, 'r) prog \<Rightarrow> ('r \<Rightarrow> 'w set \<Rightarrow> bool) \<Rightarrow> 'w set \<Rightarrow> bool"
where
  "hist view S (Return r) Q H \<longleftrightarrow> Q r H"
| "hist view S (Atom f k) Q H \<longleftrightarrow>
     (\<forall>w. (\<forall>key \<in> dom (conntrack (view w)) - dom (conntrack (view (f w))). S (insert w H) key) \<and>
          hist view S (k w) Q (insert w H))"

lemma hist_mono: "hist view S p Q H \<Longrightarrow> (\<And>r H'. H \<subseteq> H' \<Longrightarrow> Q r H' \<Longrightarrow> R r H') \<Longrightarrow> hist view S p R H"
proof (induction p arbitrary: H)
  case (Atom f k)
  have "hist view S (k w) R (insert w H)" for w
    by (rule Atom.IH [of "k w"]) (use Atom.prems in auto)
  with Atom.prems(1) show ?case by simp
qed simp

lemma hist_andthen: "hist view S p (\<lambda>r. hist view S (g r) Q) H \<Longrightarrow> hist view S (andthen p g) Q H"
  by (induction p arbitrary: H) auto

lemma hist_reading: "(\<And>w. Q (g w) (insert w H)) \<Longrightarrow> hist view S (reading g) Q H"
  by (simp add: reading_def)

lemma hist_call:
  "(\<And>w w' r. c w = (w', r) \<Longrightarrow>
     (\<forall>key \<in> dom (conntrack (view w)) - dom (conntrack (view w')). S (insert w H) key) \<and> Q r (insert w H)) \<Longrightarrow>
   hist view S (call c) Q H"
  by (simp add: call_def) (metis prod.collapse)

lemma hist_mapped: "hist view S p (\<lambda>r. Q (h r)) H \<Longrightarrow> hist view S (mapped h p) Q H"
  unfolding mapped_def by (rule hist_andthen) (erule hist_mono, simp)

section \<open>Scans and deletions\<close>

context bpf_map
begin

definition seen :: "('k \<times> 'v) list \<Rightarrow> 'w set \<Rightarrow> bool" where
  "seen es H \<longleftrightarrow> (\<forall>(k, v) \<in> set es. \<exists>w \<in> H. get (view w) k = Some v)"

lemma seen_mono: "seen es H \<Longrightarrow> H \<subseteq> H' \<Longrightarrow> seen es H'"
  by (fastforce simp: seen_def)

lemma hist_iter: "hist view S (iter_prog M n it) (\<lambda>r H'. H \<subseteq> H' \<and> seen (fst r) H') H"
proof (induction n arbitrary: it H)
  case (Suc n)
  show ?case
    unfolding iter_prog.simps
  proof (intro hist_andthen hist_reading)
    fix w
    show "hist view S
        (case m_next M w it of Done e \<Rightarrow> Return ([], e)
         | Yield k v it' \<Rightarrow> andthen (iter_prog M n it') (\<lambda>(es, e). Return ((k, v) # es, e)))
        (\<lambda>r H'. H \<subseteq> H' \<and> seen (fst r) H') (insert w H)"
    proof (cases "m_next M w it")
      case (Done e)
      then show ?thesis by (auto simp: seen_def)
    next
      case (Yield k v it')
      have "get (view w) k = Some v" using next_entry [OF Yield] by blast
      then show ?thesis
        unfolding Yield next_result.case
        by (intro hist_andthen hist_mono [OF Suc.IH]) (auto simp: seen_def)
    qed
  qed
qed (simp add: seen_def)

lemma hist_scan: "hist view S (scan_prog M) (\<lambda>r H'. H \<subseteq> H' \<and> seen (fst r) H') H"
  unfolding scan_prog_def
  by (intro hist_andthen hist_reading hist_mono [OF hist_iter]) auto

end

context conntrack_env
begin

lemma hist_delete:
  assumes "\<And>H H' k. S H k \<Longrightarrow> H \<subseteq> H' \<Longrightarrow> S H' k" "\<forall>k \<in> set ks. S H k"
  shows "hist view S (delete_prog (ct_conntrack cm) ks) (\<lambda>r H'. H \<subseteq> H') H"
  using assms(2)
proof (induction ks arbitrary: H)
  case (Cons k ks)
  show ?case
    unfolding delete_prog.simps
  proof (intro hist_andthen hist_call)
    fix w w' and e :: "map_err option"
    assume d: "m_delete (ct_conntrack cm) w k = (w', e)"
    let ?rest = "case e of Some err \<Rightarrow> Return (0, Some err)
      | None \<Rightarrow> andthen (delete_prog (ct_conntrack cm) ks) (\<lambda>(n, e). Return (Suc n, e))"
    have gone: "dom (conntrack (view w)) - dom (conntrack (view w')) \<subseteq> {k}"
      using T.delete_ok [of w k w'] T.delete_err [of w k w'] d by (cases e) auto
    have up: "S (insert w H) k" "\<forall>k' \<in> set ks. S (insert w H) k'"
      using Cons.prems assms(1) [of H _ "insert w H"] by auto
    have "hist view S ?rest (\<lambda>r H'. H \<subseteq> H') (insert w H)"
      by (cases e) (auto intro!: hist_andthen hist_mono [OF Cons.IH [OF up(2)]])
    then show "(\<forall>key \<in> dom (conntrack (view w)) - dom (conntrack (view w')). S (insert w H) key) \<and>
        hist view S ?rest (\<lambda>r H'. H \<subseteq> H') (insert w H)"
      using gone up(1) by (intro conjI ballI) auto
  qed
qed simp

end

section \<open>The reaper and the listing of flows\<close>

text \<open>A flow that was seen stale by a clock that was read.\<close>

definition seen_stale :: "('w \<Rightarrow> fw_maps) \<Rightarrow> 'w clock \<Rightarrow> u64 \<Rightarrow> 'w set \<Rightarrow> ctKey \<Rightarrow> bool" where
  "seen_stale view clk idle H key \<longleftrightarrow>
     (\<exists>w1 \<in> H. \<exists>w2 \<in> H. \<exists>now v. monotonicNanos clk w1 = Inr now \<and>
        conntrack (view w2) key = Some v \<and> reap_stale idle now v)"

lemma seen_stale_mono: "seen_stale view clk idle H k \<Longrightarrow> H \<subseteq> H' \<Longrightarrow> seen_stale view clk idle H' k"
  unfolding seen_stale_def by blast

context firewall_env
begin

lemma hist_reap:
  "hist (gh_view G) (seen_stale (gh_view G) (ct_clock (fw_ctMgr fw)) idle) (reap_prog fw idle) (\<lambda>_ _. True) H"
  unfolding reap_prog_def
proof (intro hist_andthen hist_reading)
  fix w
  let ?S = "seen_stale (gh_view G) (ct_clock (fw_ctMgr fw)) idle" and ?M = "ct_conntrack (fw_ctMgr fw)"
  show "hist (gh_view G) ?S
      (case monotonicNanos (ct_clock (fw_ctMgr fw)) w of
         Inl err \<Rightarrow> Return (0, Some err)
       | Inr nowNs \<Rightarrow>
           andthen (scan_prog ?M) (\<lambda>(es, e).
             case e of
               Some err \<Rightarrow> Return (0, Some (MapError err))
             | None \<Rightarrow> mapped (\<lambda>(n, e). (n, map_option MapError e))
                 (delete_prog ?M (map fst (filter (\<lambda>(key, value). reap_stale idle nowNs value) es)))))
      (\<lambda>_ _. True) (insert w H)"
  proof (cases "monotonicNanos (ct_clock (fw_ctMgr fw)) w")
    case (Inr now)
    show ?thesis
      unfolding Inr sum.case
    proof (intro hist_andthen hist_mono [OF Ct.T.hist_scan])
      fix r :: "(ctKey \<times> ctValue) list \<times> map_err option" and H'
      assume H': "insert w H \<subseteq> H'" "insert w H \<subseteq> H' \<and> Ct.T.seen (fst r) H'"
      obtain es e where r: "r = (es, e)" by fastforce
      have stale: "\<forall>k \<in> set (map fst (filter (\<lambda>(key, value). reap_stale idle now value) es)). ?S H' k"
      proof
        fix k assume "k \<in> set (map fst (filter (\<lambda>(key, value). reap_stale idle now value) es))"
        then obtain v where "(k, v) \<in> set es" "reap_stale idle now v" by auto
        moreover from this(1) H'(2) obtain w2 where "w2 \<in> H'" "conntrack (gh_view G w2) k = Some v"
          by (fastforce simp: Ct.T.seen_def r)
        ultimately show "?S H' k" using H'(1) Inr by (auto simp: seen_stale_def)
      qed
      show "hist (gh_view G) ?S
         (case r of (es, e) \<Rightarrow>
            case e of
              Some err \<Rightarrow> Return (0, Some (MapError err))
            | None \<Rightarrow> mapped (\<lambda>(n, e). (n, map_option MapError e))
                (delete_prog ?M (map fst (filter (\<lambda>(key, value). reap_stale idle now value) es))))
         (\<lambda>_ _. True) H'"
        using hist_mono [OF Ct.hist_delete [where S = ?S, OF seen_stale_mono stale]]
        by (cases e) (auto simp: r intro!: hist_mapped)
    qed
  qed simp
qed

text \<open>What a listing of the flows reports was there when it looked.\<close>

lemma hist_list_ct:
  "hist (gh_view G) (\<lambda>_ _. False) (list_ct_prog fw)
     (\<lambda>r H. \<forall>fl \<in> set (case r of Inr flows \<Rightarrow> slice_list flows | Inl err \<Rightarrow> []).
        \<exists>w1 \<in> H. \<exists>w2 \<in> H. \<exists>now k v. monotonicNanos (ct_clock (fw_ctMgr fw)) w1 = Inr now \<and>
          conntrack (gh_view G w2) k = Some v \<and> fl = ctEntry k v now) H"
  unfolding list_ct_prog_def scanned_def
proof (intro hist_andthen hist_reading)
  fix w
  let ?Q = "\<lambda>r H. \<forall>fl \<in> set (case r of Inr flows \<Rightarrow> slice_list flows | Inl err \<Rightarrow> []).
        \<exists>w1 \<in> H. \<exists>w2 \<in> H. \<exists>now k v. monotonicNanos (ct_clock (fw_ctMgr fw)) w1 = Inr now \<and>
          conntrack (gh_view G w2) k = Some v \<and> fl = ctEntry k v now"
  show "hist (gh_view G) (\<lambda>_ _. False)
      (case monotonicNanos (ct_clock (fw_ctMgr fw)) w of
         Inl err \<Rightarrow> Return (Inl err)
       | Inr nowNs \<Rightarrow>
           mapped (\<lambda>(es, e). case e of
               Some err \<Rightarrow> Inl (MapError err)
             | None \<Rightarrow> Inr (Some (map (\<lambda>(key, value). ctEntry key value nowNs) es)))
             (scan_prog (ct_conntrack (fw_ctMgr fw))))
      ?Q (insert w H)"
  proof (cases "monotonicNanos (ct_clock (fw_ctMgr fw)) w")
    case (Inr now)
    show ?thesis
      unfolding Inr sum.case
    proof (intro hist_mapped hist_mono [OF Ct.T.hist_scan] ballI)
      fix r :: "(ctKey \<times> ctValue) list \<times> map_err option" and H' fl
      assume H': "insert w H \<subseteq> H' \<and> Ct.T.seen (fst r) H'"
        and fl: "fl \<in> set (case (case r of (es, e) \<Rightarrow> case e of
               Some err \<Rightarrow> Inl (MapError err)
             | None \<Rightarrow> Inr (Some (map (\<lambda>(key, value). ctEntry key value now) es))) of
             Inr flows \<Rightarrow> slice_list flows | Inl err \<Rightarrow> [])"
      from fl obtain k v where kv: "(k, v) \<in> set (fst r)" "fl = ctEntry k v now"
        by (auto split: prod.splits option.splits)
      from kv(1) H' obtain w2 where "w2 \<in> H'" "conntrack (gh_view G w2) k = Some v"
        by (fastforce simp: Ct.T.seen_def)
      with kv(2) Inr H' show "\<exists>w1 \<in> H'. \<exists>w2 \<in> H'. \<exists>now k v.
          monotonicNanos (ct_clock (fw_ctMgr fw)) w1 = Inr now \<and>
          conntrack (gh_view G w2) k = Some v \<and> fl = ctEntry k v now"
        by blast
    qed
  qed simp
qed

end

section \<open>One tick\<close>

definition ticking ::
    "('w, 'i) fw_ghost \<Rightarrow> ('w, 'i, 'l) Firewall \<Rightarrow> ('w, 'n) Server \<Rightarrow> u64 \<Rightarrow> 'w micro \<Rightarrow> 'w micro \<Rightarrow> bool"
where
  "ticking G fw srv ctTimeout s s' \<longleftrightarrow>
     micro_step G fw srv ctTimeout s s' \<and> mi_reaper s \<noteq> None \<and> mi_reaper s' \<noteq> None"

text \<open>The worlds a program has seen at its calls are worlds of the run, in which nobody else moves it.\<close>

lemma hist_along:
  assumes "R\<^sup>*\<^sup>* s t" "cur s = Some p" "hist view S p Q {}"
    and moves: "\<And>u u'. R u u' \<Longrightarrow> cur u \<noteq> None \<Longrightarrow> cur u' = cur u \<or>
      (\<exists>f k. cur u = Some (Atom f k) \<and> cur u' = Some (k (wld u)))"
  shows "\<exists>q H. cur t = Some q \<and> hist view S q Q H \<and> H \<subseteq> {wld u | u. R\<^sup>*\<^sup>* s u \<and> R\<^sup>*\<^sup>* u t}"
  using assms(1)
proof (induction rule: rtranclp_induct)
  case base
  with assms(2,3) show ?case by blast
next
  case (step t t')
  let ?seen = "\<lambda>t. {wld u | u. R\<^sup>*\<^sup>* s u \<and> R\<^sup>*\<^sup>* u t}"
  from step.IH obtain q H where q: "cur t = Some q" "hist view S q Q H" "H \<subseteq> ?seen t" by blast
  have grow: "?seen t \<subseteq> ?seen t'" using step.hyps(2) by (blast intro: rtranclp.rtrancl_into_rtrancl)
  have here: "wld t \<in> ?seen t'" using step.hyps by blast
  have "cur t \<noteq> None" using q(1) by simp
  from moves [OF step.hyps(2) this] show ?case
  proof
    assume "cur t' = cur t"
    with q(1,2) subset_trans [OF q(3) grow] show ?thesis by (intro exI [of _ q] exI [of _ H]) simp
  next
    assume "\<exists>f k. cur t = Some (Atom f k) \<and> cur t' = Some (k (wld t))"
    then obtain f k where fk: "cur t = Some (Atom f k)" "cur t' = Some (k (wld t))" by blast
    from fk(1) q(1) have "q = Atom f k" by simp
    with q(2) have "hist view S (k (wld t)) Q (insert (wld t) H)" by simp
    moreover have "insert (wld t) H \<subseteq> ?seen t'" using q(3) grow here by blast
    ultimately show ?thesis using fk(2) by blast
  qed
qed

lemma ticking_moves:
  "ticking G fw srv c u u' \<Longrightarrow> mi_reaper u \<noteq> None \<Longrightarrow> mi_reaper u' = mi_reaper u \<or>
     (\<exists>f k. mi_reaper u = Some (Atom f k) \<and> mi_reaper u' = Some (k (mi_world u)))"
  unfolding ticking_def by (auto elim!: micro_stepE)

lemma serving_moves:
  "serving G fw srv c u u' \<Longrightarrow> mi_request u \<noteq> None \<Longrightarrow> mi_request u' = mi_request u \<or>
     (\<exists>f k. mi_request u = Some (Atom f k) \<and> mi_request u' = Some (k (mi_world u)))"
  unfolding serving_def by (auto elim!: micro_stepE)

text \<open>A reply that lists the tracked flows, given among packets and reaper ticks, need not be a table that
  ever was; but every flow in it was tracked, as it is listed, while the request was served.\<close>

lemma listed_was_tracked:
  assumes "firewall_env G fw" "rq_Command req = CmdConntrack" "mi_request s = Some (handle_prog srv fw req)"
    "(serving G fw srv c)\<^sup>*\<^sup>* s t" "mi_request t = Some (Return r)" "fl \<in> set (slice_list (rs_Conntrack r))"
  shows "\<exists>a b now k v.
    (serving G fw srv c)\<^sup>*\<^sup>* s a \<and> (serving G fw srv c)\<^sup>*\<^sup>* a t \<and>
    (serving G fw srv c)\<^sup>*\<^sup>* s b \<and> (serving G fw srv c)\<^sup>*\<^sup>* b t \<and>
    monotonicNanos (ct_clock (fw_ctMgr fw)) (mi_world a) = Inr now \<and>
    conntrack (gh_view G (mi_world b)) k = Some v \<and> fl = ctEntry k v now"
proof -
  let ?in = "\<lambda>u. (serving G fw srv c)\<^sup>*\<^sup>* s u \<and> (serving G fw srv c)\<^sup>*\<^sup>* u t"
  let ?P = "\<lambda>fl H. \<exists>w1 \<in> H. \<exists>w2 \<in> H. \<exists>now k v. monotonicNanos (ct_clock (fw_ctMgr fw)) w1 = Inr now \<and>
      conntrack (gh_view G w2) k = Some v \<and> fl = ctEntry k v now"
  have "hist (gh_view G) (\<lambda>_ _. False) (handle_prog srv fw req)
      (\<lambda>r H. \<forall>fl \<in> set (slice_list (rs_Conntrack r)). ?P fl H) {}"
    by (simp add: handle_prog_def assms(2) cmd_defs, rule hist_mapped,
      rule hist_mono [OF firewall_env.hist_list_ct [OF assms(1)]])
      (auto simp: replying_def errResponse_def okResponse_def split: sum.splits)
  from hist_along [where R = "serving G fw srv c" and cur = mi_request and wld = mi_world, OF assms(4,3) this serving_moves [of G fw srv c]] assms(5)
  obtain H where "\<forall>fl \<in> set (slice_list (rs_Conntrack r)). ?P fl H" "H \<subseteq> {mi_world u | u. ?in u}" by auto
  then have "?P fl {mi_world u | u. ?in u}" using assms(6) by (meson subsetD)
  then obtain w1 w2 now k v where w: "w1 \<in> {mi_world u | u. ?in u}" "w2 \<in> {mi_world u | u. ?in u}"
      "monotonicNanos (ct_clock (fw_ctMgr fw)) w1 = Inr now" "conntrack (gh_view G w2) k = Some v" "fl = ctEntry k v now"
    by (elim bexE exE conjE)
  obtain a where "?in a" "mi_world a = w1" using w(1) by blast
  moreover obtain b where "?in b" "mi_world b = w2" using w(2) by blast
  ultimately show ?thesis using w(3-5)
    by (intro exI [of _ a] exI [of _ b] exI [of _ now] exI [of _ k] exI [of _ v]) simp
qed

text \<open>Claim C27: what the reaper removes was idle. Among requests, packets and everything else, a tick removes a
  tracked flow at one of its calls only if that flow was stale when the same tick looked at it: by the
  clock read in this tick and the entry found in the table during it. So a flow that is refreshed in time before
  every look, or that is new since, is never reaped.\<close>

theorem reaped_was_idle:
  assumes "firewall_env G fw" "mi_reaper s = Some (reap_prog fw ctTimeout)"
    "(ticking G fw srv ctTimeout)\<^sup>*\<^sup>* s t" "mi_reaper t = Some (Atom f k)"
    "key \<in> dom (conntrack (gh_view G (mi_world t)))" "key \<notin> dom (conntrack (gh_view G (f (mi_world t))))"
  shows "\<exists>a b now v.
    (ticking G fw srv ctTimeout)\<^sup>*\<^sup>* s a \<and> (ticking G fw srv ctTimeout)\<^sup>*\<^sup>* a t \<and>
    (ticking G fw srv ctTimeout)\<^sup>*\<^sup>* s b \<and> (ticking G fw srv ctTimeout)\<^sup>*\<^sup>* b t \<and>
    monotonicNanos (ct_clock (fw_ctMgr fw)) (mi_world a) = Inr now \<and>
    conntrack (gh_view G (mi_world b)) key = Some v \<and> reap_stale ctTimeout now v"
proof -
  let ?S = "seen_stale (gh_view G) (ct_clock (fw_ctMgr fw)) ctTimeout"
  obtain H where h: "hist (gh_view G) ?S (Atom f k) (\<lambda>_ _. True) H"
      "H \<subseteq> {mi_world u | u. (ticking G fw srv ctTimeout)\<^sup>*\<^sup>* s u \<and> (ticking G fw srv ctTimeout)\<^sup>*\<^sup>* u t}"
    using hist_along [where R = "ticking G fw srv ctTimeout" and cur = mi_reaper and wld = mi_world, OF assms(3,2)
        firewall_env.hist_reap [OF assms(1)] ticking_moves [of G fw srv ctTimeout]] assms(4) by auto
  let ?in = "\<lambda>u. (ticking G fw srv ctTimeout)\<^sup>*\<^sup>* s u \<and> (ticking G fw srv ctTimeout)\<^sup>*\<^sup>* u t"
  from h(1) assms(5,6) have "?S (insert (mi_world t) H) key" by simp
  then obtain w1 w2 now v where w: "w1 \<in> insert (mi_world t) H" "w2 \<in> insert (mi_world t) H"
      "monotonicNanos (ct_clock (fw_ctMgr fw)) w1 = Inr now" "conntrack (gh_view G w2) key = Some v"
      "reap_stale ctTimeout now v"
    unfolding seen_stale_def by (elim bexE exE conjE)
  have "\<exists>u. ?in u \<and> mi_world u = w'" if "w' \<in> insert (mi_world t) H" for w'
    using that h(2) assms(3) by auto
  note met = this
  obtain a where a: "?in a" "mi_world a = w1" using met [OF w(1)] by blast
  obtain b where b: "?in b" "mi_world b = w2" using met [OF w(2)] by blast
  from a b w(3-5) show ?thesis by (intro exI [of _ a] exI [of _ b] exI [of _ now] exI [of _ v]) simp
qed

lemma ticking_run:
  "mi_reaper s = Some p \<Longrightarrow> advance n p (mi_world s) = (w', p') \<Longrightarrow>
     (ticking G fw srv c)\<^sup>*\<^sup>* s (s\<lparr>mi_world := w', mi_reaper := Some p'\<rparr>)"
proof (induction n p "mi_world s" arbitrary: s rule: advance.induct)
  case (1 n f k)
  let ?t = "s\<lparr>mi_world := f (mi_world s), mi_reaper := Some (k (mi_world s))\<rparr>"
  have "ticking G fw srv c s ?t" using micro_step.reap [OF 1(2)] 1(2) by (simp add: ticking_def)
  moreover have "(ticking G fw srv c)\<^sup>*\<^sup>* ?t (s\<lparr>mi_world := w', mi_reaper := Some p'\<rparr>)"
    using 1(1) [of ?t] 1(3) by simp
  ultimately show ?case by (rule converse_rtranclp_into_rtranclp)
qed (simp_all, (metis (mono_tags) micro.surjective micro.update_convs old.unit.exhaust rtranclp.rtrancl_refl)+)

definition tick_start :: "kernel micro" where
  "tick_start = (idle_state (flow_kernel 1000000000))\<lparr>mi_reaper := Some (reap_prog ref_fw 300000000000)\<rparr>"

theorem reaped_was_idle_witness:
  "\<exists>b now v. (ticking ref_ghost ref_fw demo_server 300000000000)\<^sup>*\<^sup>* tick_start b \<and>
     conntrack (kernel_maps (mi_world b)) demo_flow = Some v \<and> reap_stale 300000000000 now v"
proof -
  let ?w = "flow_kernel 1000000000"
  obtain p' where p': "advance 4 (reap_prog ref_fw 300000000000) ?w = (?w, p')"
      "\<And>w. map_of (k_ct w) demo_flow \<noteq> None \<Longrightarrow> fst (advance 1 p' w) = w\<lparr>k_ct := AList.delete demo_flow (k_ct w)\<rparr>"
    using scan_demo by blast
  have flow: "map_of (k_ct ?w) demo_flow \<noteq> None" by (simp add: flow_kernel_def)
  obtain f k where a: "p' = Atom f k"
    using p'(2) [OF flow] by (cases p') (auto simp: flow_kernel_def dest!: arg_cong [of _ _ k_ct])
  have gone: "f ?w = ?w\<lparr>k_ct := AList.delete demo_flow (k_ct ?w)\<rparr>"
    using p'(2) [OF flow] by (simp add: a)
  let ?t = "tick_start\<lparr>mi_world := ?w, mi_reaper := Some p'\<rparr>"
  have run: "(ticking ref_ghost ref_fw demo_server 300000000000)\<^sup>*\<^sup>* tick_start ?t"
    by (rule ticking_run [of _ "reap_prog ref_fw 300000000000" 4]) (simp_all add: tick_start_def idle_state_def p'(1))
  have "demo_flow \<in> dom (conntrack (gh_view ref_ghost (mi_world ?t)))"
      "demo_flow \<notin> dom (conntrack (gh_view ref_ghost (f (mi_world ?t))))"
    using flow by (simp_all add: gone kernel_maps_def delete_conv' domIff)
  from reaped_was_idle [where f = f and k = k and key = demo_flow, OF ref_firewall_env _ run _ this]
  have "\<exists>x b now v. (ticking ref_ghost ref_fw demo_server 300000000000)\<^sup>*\<^sup>* tick_start x \<and>
      (ticking ref_ghost ref_fw demo_server 300000000000)\<^sup>*\<^sup>* tick_start b \<and>
      conntrack (kernel_maps (mi_world b)) demo_flow = Some v \<and> reap_stale 300000000000 now v"
    by (auto simp: a) (auto simp: tick_start_def)
  then show ?thesis by blast
qed

end
