(* ===== verification/HttpCalls.thy ===== *)
theory HttpCalls
  imports Micro Api
begin

text \<open>
  The HTTP endpoints of \<open>control/api/api.go\<close> as programs of map calls. They run beside the server,
  outside its mutex, so a request may change the tables between two of their calls. Alone they are the
  handlers of \<open>Api\<close>; none of their calls changes anything, so whatever holds of the runs of \<open>Micro\<close>
  holds with HTTP requests in them; and they make a bounded number of calls.
\<close>

definition writing :: "('r \<Rightarrow> http_body) \<Rightarrow> fw_error + 'r \<Rightarrow> http_reply" where
  "writing g x = (case x of Inl err \<Rightarrow> writeErr err | Inr r \<Rightarrow> writeJSON 200 (g r))"

definition http_status_prog :: "('w, 'i, 'l) Firewall \<Rightarrow> ('w, http_reply) prog" where
  "http_status_prog fw =
     andthen (reading (Firewall_DefaultPolicy fw)) (\<lambda>d.
       case d of
         Inl err \<Rightarrow> Return (writeErr err)
       | Inr def \<Rightarrow> andthen (list_rules_prog fw) (\<lambda>r.
           case r of
             Inl err \<Rightarrow> Return (writeErr err)
           | Inr blocked \<Rightarrow> mapped (writing (\<lambda>ports. StatusBody
               \<lparr>sr_Interface = Firewall_Interface fw, sr_AttachMode = Firewall_AttachMode fw,
                sr_DefaultPolicy = def, sr_IPRuleCount = slice_len blocked,
                sr_PortRuleCount = slice_len ports\<rparr>)) (list_ports_prog fw)))"

definition http_rules_prog :: "('w, 'i, 'l) Firewall \<Rightarrow> ('w, http_reply) prog" where
  "http_rules_prog fw =
     andthen (list_rules_prog fw) (\<lambda>r.
       case r of
         Inl err \<Rightarrow> Return (writeErr err)
       | Inr blocked \<Rightarrow>
           mapped (writing (\<lambda>ports. RulesBody (nonNil blocked) (nonNil ports))) (list_ports_prog fw))"

definition http_get_prog :: "('w, http_reply) prog \<Rightarrow> string \<Rightarrow> ('w, http_reply) prog" where
  "http_get_prog h meth =
     (if meth \<noteq> MethodGet then Return ((writeJSON 405 MethodNotAllowedBody)\<lparr>hr_Allow := Some MethodGet\<rparr>)
      else h)"

definition http_prog :: "('w, 'i, 'l) Firewall \<Rightarrow> string \<Rightarrow> string \<Rightarrow> ('w, http_reply) prog" where
  "http_prog fw meth path =
     (if path = ''/health'' then http_get_prog (Return (writeJSON 200 (HealthBody True))) meth
      else if path = ''/status'' then http_get_prog (http_status_prog fw) meth
      else if path = ''/stats'' then
        http_get_prog (mapped (writing StatsBody) (slots_prog (fw_counterMgr fw) counterMax 0 zeroStats)) meth
      else if path = ''/rules'' then http_get_prog (http_rules_prog fw) meth
      else if path = ''/conntrack'' then
        http_get_prog (mapped (writing (\<lambda>flows. FlowsBody (nonNil flows))) (list_ct_prog fw)) meth
      else Return NotFound)"

text \<open>Alone.\<close>

lemma run_http_get: "run p w = (w, h w) \<Longrightarrow> run (http_get_prog p meth) w = (w, api_get h meth w)"
  by (simp add: http_get_prog_def api_get_def)

lemma run_http_handlers:
  "run (http_status_prog fw) w = (w, handleStatus (firewall_policy fw) w)"
  "run (http_rules_prog fw) w = (w, handleRules (firewall_policy fw) w)"
  "run (mapped (writing StatsBody) (slots_prog (fw_counterMgr fw) counterMax 0 zeroStats)) w =
     (w, handleStats (firewall_policy fw) w)"
  "run (mapped (writing (\<lambda>flows. FlowsBody (nonNil flows))) (list_ct_prog fw)) w =
     (w, handleConntrack (firewall_policy fw) w)"
  by (simp_all add: http_status_prog_def http_rules_prog_def writing_def run_list_progs run_slots
      api_handlers Firewall_ListBlockedRules_def Firewall_ListPortRules_def Firewall_ListConntrack_def
      Firewall_Stats_def CounterManager_GetCounters_def split: sum.split)

lemma run_http:
  "run (http_prog fw meth path) w = (w, API_ServeHTTP (firewall_policy fw) meth path w)"
proof -
  note get = run_http_get [OF run_http_handlers(1)] run_http_get [OF run_http_handlers(2)]
    run_http_get [OF run_http_handlers(3)] run_http_get [OF run_http_handlers(4)]
    run_http_get [of "Return (writeJSON 200 (HealthBody True))" w "handleHealth (firewall_policy fw)" meth]
  show ?thesis
    unfolding http_prog_def API_ServeHTTP_def run_if if_distrib [of "Pair w"]
    by (intro if_cong refl get) (simp_all add: handleHealth_def)
qed

text \<open>Only reading.\<close>

primrec readonly :: "('w, 'r) prog \<Rightarrow> bool" where
  "readonly (Return r) \<longleftrightarrow> True"
| "readonly (Atom f k) \<longleftrightarrow> (\<forall>w. f w = w \<and> readonly (k w))"

lemma readonly_andthen: "readonly p \<Longrightarrow> (\<And>r. readonly (g r)) \<Longrightarrow> readonly (andthen p g)"
  by (induction p) auto

lemma readonly_mapped: "readonly p \<Longrightarrow> readonly (mapped h p)"
  by (simp add: mapped_def readonly_andthen)

lemma readonly_reading [simp]: "readonly (reading g)"
  by (simp add: reading_def)

lemma readonly_iter: "readonly (iter_prog M n it)"
  by (induction n arbitrary: it) (auto intro!: readonly_andthen split: next_result.split)

lemma readonly_scanned: "readonly (scanned g M)"
  unfolding scanned_def scan_prog_def by (intro readonly_mapped readonly_andthen readonly_reading readonly_iter)

lemma readonly_slots: "readonly (slots_prog cm n i s)"
  by (induction n arbitrary: i s) (auto intro!: readonly_andthen split: sum.split)

lemma readonly_lists: "readonly (list_rules_prog fw)" "readonly (list_ports_prog fw)" "readonly (list_ct_prog fw)"
  by (auto simp: list_rules_prog_def list_ports_prog_def list_ct_prog_def
      intro!: readonly_andthen readonly_scanned split: sum.split)

lemma readonly_if: "readonly p \<Longrightarrow> readonly q \<Longrightarrow> readonly (if c then p else q)"
  by simp

lemma readonly_http: "readonly (http_prog fw meth path)"
  unfolding http_prog_def http_get_prog_def http_status_prog_def http_rules_prog_def
  by (intro readonly_if) (auto intro!: readonly_andthen readonly_mapped readonly_lists readonly_slots split: sum.split)

text \<open>The number of calls, with the sizes of the tables.\<close>

lemma http_calls: "calls (2 * request_calls fw + 1) (http_prog fw meth path)"
proof -
  have l: "calls (request_calls fw) (list_rules_prog fw)" "calls (request_calls fw) (list_ports_prog fw)"
      "calls (request_calls fw) (list_ct_prog fw)"
    by (rule calls_reads)+
  have rules: "calls (request_calls fw + request_calls fw) (andthen (list_rules_prog fw) g)"
    if "\<And>r. calls (request_calls fw) (g r)" for g :: "_ \<Rightarrow> ('a, http_reply) prog"
    by (rule bounded_then [OF l(1) that]) simp
  have two: "calls (request_calls fw + request_calls fw) (http_rules_prog fw)"
    unfolding http_rules_prog_def
    by (rule rules) (auto intro: calls_mapped l split: sum.split)
  have "calls (Suc (request_calls fw + request_calls fw)) (http_status_prog fw)"
    unfolding http_status_prog_def
    by (rule bounded_step) (auto intro!: rules calls_mapped l split: sum.split)
  then have status: "calls (2 * request_calls fw + 1) (http_status_prog fw)" by (simp add: mult_2)
  have up: "calls n p \<Longrightarrow> n \<le> 2 * request_calls fw + 1 \<Longrightarrow> calls (2 * request_calls fw + 1) p"
    for n and p :: "('a, http_reply) prog"
    by (rule bounded_mono) simp_all
  have "calls (2 * request_calls fw + 1) (mapped h (slots_prog (fw_counterMgr fw) counterMax 0 zeroStats))"
    for h :: "_ \<Rightarrow> http_reply"
    by (rule up [OF calls_mapped [OF calls_slots]]) (simp add: counterMax_def request_calls_def)
  moreover have "calls (2 * request_calls fw + 1) (http_rules_prog fw)" by (rule up [OF two]) simp
  moreover have "calls (2 * request_calls fw + 1) (mapped h (list_ct_prog fw))" for h :: "_ \<Rightarrow> http_reply"
    by (rule up [OF calls_mapped [OF l(3)]]) simp
  moreover have "calls (2 * request_calls fw + 1) (Return r)" for r :: http_reply by simp
  ultimately show ?thesis
    using status unfolding http_prog_def http_get_prog_def by (intro calls_if)
qed

end
