(* ===== verification/Listing.thy ===== *)
theory Listing
  imports History HttpCalls SessionProps
begin

text \<open>
  Listings while the world goes on. Packets and the reaper do not write the rules and the policy, and a map
  that nobody writes is iterated the same way at any moment: so what the listing commands of the server
  answer among them is what they answer alone. \<open>steady\<close> says of a program that it only reads, and
  reads the same in worlds between which these maps were not written; \<open>tidy\<close> says that it does not
  write them.
\<close>

section \<open>Programs that read what stays\<close>

primrec steady :: "('w \<Rightarrow> 'w \<Rightarrow> bool) \<Rightarrow> ('w, 'r) prog \<Rightarrow> bool" where
  "steady R (Return r) \<longleftrightarrow> True"
| "steady R (Atom f k) \<longleftrightarrow> (\<forall>w. f w = w \<and> steady R (k w) \<and> (\<forall>w'. R w w' \<longrightarrow> k w' = k w))"

primrec tidy :: "('w \<Rightarrow> 'w \<Rightarrow> bool) \<Rightarrow> ('w, 'r) prog \<Rightarrow> bool" where
  "tidy R (Return r) \<longleftrightarrow> True"
| "tidy R (Atom f k) \<longleftrightarrow> (\<forall>w. R w (f w) \<and> tidy R (k w))"

lemma steady_andthen: "steady R p \<Longrightarrow> (\<And>r. steady R (g r)) \<Longrightarrow> steady R (andthen p g)"
  by (induction p) auto

lemma steady_mapped: "steady R p \<Longrightarrow> steady R (mapped h p)"
  by (simp add: mapped_def steady_andthen)

lemma steady_reading: "(\<And>w w'. R w w' \<Longrightarrow> g w' = g w) \<Longrightarrow> steady R (reading g)"
  by (simp add: reading_def)

lemma steady_scan:
  assumes "\<And>w w' it. R w w' \<Longrightarrow> m_iterate M w' = m_iterate M w \<and> m_next M w' it = m_next M w it"
  shows "steady R (scan_prog M)"
proof -
  have "steady R (iter_prog M n it)" for n it
    using assms by (induction n arbitrary: it) (auto intro!: steady_andthen steady_reading split: next_result.split)
  moreover have "steady R (reading (m_iterate M))" using assms by (intro steady_reading) blast
  ultimately show ?thesis unfolding scan_prog_def by (rule steady_andthen [rotated])
qed

lemma steady_scanned:
  assumes "\<And>w w' it. R w w' \<Longrightarrow> m_iterate M w' = m_iterate M w \<and> m_next M w' it = m_next M w it"
  shows "steady R (scanned g M)"
  unfolding scanned_def by (rule steady_mapped [OF steady_scan [OF assms]])

lemma tidy_andthen: "tidy R p \<Longrightarrow> (\<And>r. tidy R (g r)) \<Longrightarrow> tidy R (andthen p g)"
  by (induction p) auto

lemma tidy_mapped: "tidy R p \<Longrightarrow> tidy R (mapped h p)"
  by (simp add: mapped_def tidy_andthen)

lemma tidy_call: "(\<And>w w' r. c w = (w', r) \<Longrightarrow> R w w') \<Longrightarrow> tidy R (call c)"
  by (simp add: call_def) (metis prod.collapse)

lemma readonly_tidy: "(\<And>w. R w w) \<Longrightarrow> readonly p \<Longrightarrow> tidy R p"
  by (induction p) auto

lemma steady_result: "steady R p \<Longrightarrow> R w w' \<Longrightarrow> run p w' = (w', snd (run p w)) \<and> fst (run p w) = w"
  by (induction p) auto

text \<open>A steady program that runs among others who keep \<open>R\<close> ends with the result it has alone.\<close>

lemma steady_along:
  assumes "S\<^sup>*\<^sup>* s t" "cur s = Some p" "steady R p" "I s"
    and R: "\<And>w. R w w" "\<And>w w' w''. R w w' \<Longrightarrow> R w' w'' \<Longrightarrow> R w w''"
    and moves: "\<And>u u' q. S u u' \<Longrightarrow> I u \<Longrightarrow> cur u = Some q \<Longrightarrow> steady R q \<Longrightarrow> I u' \<and> R (wld u) (wld u') \<and>
      (cur u' = cur u \<or> (\<exists>f k. q = Atom f k \<and> cur u' = Some (k (wld u))))"
  shows "\<exists>q. cur t = Some q \<and> steady R q \<and> I t \<and> R (wld s) (wld t) \<and> snd (run q (wld s)) = snd (run p (wld s))"
  using assms(1)
proof (induction rule: rtranclp_induct)
  case base
  with assms(2-4) R(1) show ?case by blast
next
  case (step t t')
  then obtain q where q: "cur t = Some q" "steady R q" "I t" "R (wld s) (wld t)"
      "snd (run q (wld s)) = snd (run p (wld s))" by blast
  note m = moves [OF step.hyps(2) q(3,1,2)]
  then have w: "R (wld s) (wld t')" "I t'" using R(2) [OF q(4)] by simp_all
  from m consider "cur t' = cur t" | f k where "q = Atom f k" "cur t' = Some (k (wld t))" by blast
  then show ?case
  proof cases
    case 1
    with q w show ?thesis by simp
  next
    case 2
    with q(2,4) have "f (wld s) = wld s" "k (wld t) = k (wld s)" "steady R (k (wld t))" by simp_all
    with 2 q(5) w show ?thesis by simp
  qed
qed

section \<open>What the listings rely on\<close>

text \<open>
  What the clients of the iterators and of the lookup rely on when they are called several times: in two worlds
  between which the maps of the rules and the policy have not been written, they give the same answers; and
  a deletion from the conntrack map does not write those maps.
\<close>

locale steady_env = firewall_env G fw
  for G :: "('w, 'i) fw_ghost" and fw :: "('w, 'i, 'l) Firewall" +
  assumes steady_refl: "gh_steady G w w"
    and steady_trans: "gh_steady G w w' \<Longrightarrow> gh_steady G w' w'' \<Longrightarrow> gh_steady G w w''"
    and flows_steady: "m_delete (ct_conntrack (fw_ctMgr fw)) w k = (w', e) \<Longrightarrow> gh_steady G w w'"
    and ips_steady: "gh_steady G w w' \<Longrightarrow>
      m_iterate (mm_blockedIps (fw_mgr fw)) w' = m_iterate (mm_blockedIps (fw_mgr fw)) w \<and>
      m_next (mm_blockedIps (fw_mgr fw)) w' it = m_next (mm_blockedIps (fw_mgr fw)) w it"
    and ports_steady: "gh_steady G w w' \<Longrightarrow>
      m_iterate (pp_portPolicy (fw_portPolicyMgr fw)) w' = m_iterate (pp_portPolicy (fw_portPolicyMgr fw)) w \<and>
      m_next (pp_portPolicy (fw_portPolicyMgr fw)) w' it = m_next (pp_portPolicy (fw_portPolicyMgr fw)) w it"
    and policy_steady: "gh_steady G w w' \<Longrightarrow>
      m_lookup (cf_config (fw_configMgr fw)) w' key = m_lookup (cf_config (fw_configMgr fw)) w key"
begin

lemma steady_lists:
  "steady (gh_steady G) (list_rules_prog fw)" "steady (gh_steady G) (list_ports_prog fw)"
  unfolding list_rules_prog_def list_ports_prog_def
  by (rule steady_scanned, erule ips_steady, rule steady_scanned, erule ports_steady)

lemma steady_policy: "steady (gh_steady G) (reading (Firewall_DefaultPolicy fw))"
  by (rule steady_reading) (simp add: Firewall_DefaultPolicy_def ConfigManager_DefaultPolicy_def policy_steady)

lemma steady_handle:
  assumes "rq_Command req \<in> {CmdList, CmdListPorts, CmdStatus}"
  shows "steady (gh_steady G) (handle_prog srv fw req)"
proof -
  have "steady (gh_steady G) (status_prog srv fw)"
    unfolding status_prog_def
    by (intro steady_andthen steady_lists) (auto intro!: steady_mapped steady_policy split: sum.split)
  then show ?thesis
    using assms by (auto simp: handle_prog_def Let_def cmd_defs intro: steady_mapped steady_lists)
qed

lemma steady_http:
  assumes "path \<in> {''/rules'', ''/status'', ''/health''}"
  shows "steady (gh_steady G) (http_prog fw meth path)"
proof -
  have "steady (gh_steady G) (http_rules_prog fw)"
    unfolding http_rules_prog_def
    by (intro steady_andthen steady_lists) (auto intro!: steady_mapped steady_lists split: sum.split)
  moreover have "steady (gh_steady G) (http_status_prog fw)"
    unfolding http_status_prog_def
    by (intro steady_andthen steady_policy)
      (auto intro!: steady_andthen steady_mapped steady_lists split: sum.split)
  ultimately show ?thesis
    using assms by (auto simp: http_prog_def http_get_prog_def)
qed

lemma tidy_reap: "tidy (gh_steady G) (reap_prog fw idle)"
proof -
  have "tidy (gh_steady G) (delete_prog (ct_conntrack (fw_ctMgr fw)) ks)" for ks
    by (induction ks) (auto intro!: tidy_andthen tidy_call flows_steady split: option.split)
  moreover have "tidy (gh_steady G) (scan_prog (ct_conntrack (fw_ctMgr fw)))"
    unfolding scan_prog_def
    by (intro readonly_tidy steady_refl readonly_andthen readonly_reading readonly_iter)
  moreover have "tidy (gh_steady G) (reading g)" for g :: "'w \<Rightarrow> 'r"
    by (simp add: readonly_tidy steady_refl)
  ultimately show ?thesis
    unfolding reap_prog_def by (intro tidy_andthen) (auto intro!: tidy_andthen tidy_mapped split: sum.split option.split)
qed

text \<open>What is left of the reaper's tick never writes the rules.\<close>

definition reaper_tidy :: "'w micro \<Rightarrow> bool" where
  "reaper_tidy s \<longleftrightarrow> (\<forall>p. mi_reaper s = Some p \<longrightarrow> tidy (gh_steady G) p)"

lemma micro_step_tidy: "micro_step G fw srv c s s' \<Longrightarrow> reaper_tidy s \<Longrightarrow> reaper_tidy s'"
  by (auto simp: reaper_tidy_def tidy_reap elim!: micro_stepE)

lemma micro_steps_tidy: "(micro_step G fw srv c)\<^sup>*\<^sup>* (idle_state w0) s \<Longrightarrow> reaper_tidy s"
proof (induction rule: rtranclp_induct)
  case base
  show ?case by (simp add: reaper_tidy_def idle_state_def)
qed (rule micro_step_tidy)

lemma aside_steady: "aside G fw srv c s s' \<Longrightarrow> reaper_tidy s \<Longrightarrow> gh_steady G (mi_world s) (mi_world s')"
  by (auto simp: aside_def reaper_tidy_def steady_refl elim!: micro_stepE)

lemma serving_steady:
  assumes "serving G fw srv c u u'" "reaper_tidy u" "mi_request u = Some q" "steady (gh_steady G) q"
  shows "reaper_tidy u' \<and> gh_steady G (mi_world u) (mi_world u') \<and>
    (mi_request u' = mi_request u \<or> (\<exists>f k. q = Atom f k \<and> mi_request u' = Some (k (mi_world u))))"
proof -
  have st: "micro_step G fw srv c u u'" using assms(1) by (simp add: serving_def)
  from st show ?thesis
    using assms micro_step_tidy [OF st assms(2)]
    by cases (auto simp: serving_def steady_refl reaper_tidy_def)
qed

end

section \<open>The listing commands\<close>

interpretation ref_steady: steady_env ref_ghost ref_fw
proof (intro steady_env.intro steady_env_axioms.intro ref_firewall_env)
  show "m_delete (ct_conntrack (fw_ctMgr ref_fw)) w k = (w', e) \<Longrightarrow> gh_steady ref_ghost w w'" for w k w' e
    by (auto simp: handle_eval split: if_splits)
qed (auto simp: handle_eval lpm_handle_eval ref_next_def)

text \<open>The listing commands use nothing of the request but the command.\<close>

lemma handle_listing:
  "rq_Command req \<in> {CmdList, CmdListPorts, CmdStatus} \<Longrightarrow>
     Server_handle srv req w = Server_handle srv (plain_request (rq_Command req)) w"
  by (auto simp: Server_handle_def plain_request_def Let_def cmd_defs)

lemma response_lists:
  "slice_list (rs_BlockedRules (okResponse\<lparr>rs_Blocked := b, rs_BlockedRules := append_all xs, rs_Count := n\<rparr>)) = xs"
  "slice_list (rs_PortRules (okResponse\<lparr>rs_PortRules := Some ps, rs_Count := n\<rparr>)) = ps"
  by simp_all

context steady_env
begin

lemma steady_serving:
  assumes "(serving G fw srv c)\<^sup>*\<^sup>* s t" "mi_request s = Some p" "steady (gh_steady G) p" "reaper_tidy s"
    "mi_request t = Some (Return r)"
  shows "gh_steady G (mi_world s) (mi_world t) \<and> r = snd (run p (mi_world s)) \<and> r = snd (run p (mi_world t))"
proof -
  have "\<exists>q. mi_request t = Some q \<and> steady (gh_steady G) q \<and> reaper_tidy t \<and> gh_steady G (mi_world s) (mi_world t) \<and>
      snd (run q (mi_world s)) = snd (run p (mi_world s))"
    by (rule steady_along [where cur = mi_request and wld = mi_world and I = reaper_tidy, OF assms(1-4)])
      (fact steady_refl, erule (1) steady_trans, rule serving_steady)
  with assms(5) have "gh_steady G (mi_world s) (mi_world t)" "r = snd (run p (mi_world s))" by auto
  with steady_result [OF assms(3)] show ?thesis by simp
qed

end

text \<open>Claim C7: a listing of the rules is exact, whatever packets and the reaper do while it is made. The reply to
  \<open>list\<close>, \<open>list-ports\<close> or \<open>status\<close>, made call by call with any steps of the others in between, is
  the reply the server gives alone in the world at its beginning, and also in that at its end; an OK lists each
  entry of the table exactly once.\<close>

theorem list_among_packets:
  assumes "steady_env G fw" "sv_policy srv = firewall_policy fw"
    "(micro_step G fw srv ctTimeout)\<^sup>*\<^sup>* (idle_state w0) s" "mi_request s = Some (handle_prog srv fw req)"
    "rq_Command req \<in> {CmdList, CmdListPorts, CmdStatus}"
    "(serving G fw srv ctTimeout)\<^sup>*\<^sup>* s t" "mi_request t = Some (Return r)"
  shows "r = snd (Server_handle srv req (mi_world s)) \<and> r = snd (Server_handle srv req (mi_world t)) \<and>
    (rs_OK r \<and> rq_Command req = CmdList \<longrightarrow> (\<exists>es. entries_of es (blocked_ips (gh_view G (mi_world t))) \<and>
        slice_list (rs_BlockedRules r) = map blockedRuleOf es)) \<and>
    (rs_OK r \<and> rq_Command req = CmdListPorts \<longrightarrow> (\<exists>es. entries_of es (port_policy (gh_view G (mi_world t))) \<and>
        slice_list (rs_PortRules r) = map portRuleOf es))"
proof -
  have fe: "firewall_env G fw" using assms(1) by (simp add: steady_env_def)
  note run = steady_env.steady_serving [OF assms(1,6,4) steady_env.steady_handle [OF assms(1,5)]
      steady_env.micro_steps_tidy [OF assms(1,3)] assms(7), unfolded run_handle [OF assms(2)]]
  obtain w' where h: "Server_handle srv (plain_request (rq_Command req)) (mi_world t) = (w', r)"
    using run handle_listing [OF assms(5), of srv "mi_world t"] by (metis prod.collapse)
  have "\<exists>es. entries_of es (blocked_ips (gh_view G (mi_world t))) \<and> slice_list (rs_BlockedRules r) = map blockedRuleOf es"
    if "rs_OK r" "rq_Command req = CmdList"
    using firewall_env.list_reply [OF fe assms(2) h [unfolded that(2)] that(1)] by (metis (no_types) response_lists(1))
  moreover have "\<exists>es. entries_of es (port_policy (gh_view G (mi_world t))) \<and> slice_list (rs_PortRules r) = map portRuleOf es"
    if "rs_OK r" "rq_Command req = CmdListPorts"
    using firewall_env.listports_reply [OF fe assms(2) h [unfolded that(2)] that(1)] by (metis (no_types) response_lists(2))
  ultimately show ?thesis using run by blast
qed

text \<open>A packet is dropped while the rule that drops it is listed.\<close>

theorem list_among_packets_witness:
  "\<exists>es. entries_of es (blocked_ips (kernel_maps dropped_kernel)) \<and>
     [\<lparr>br_Cidr = ''10.0.0.0/8'', br_Action = ''drop'', br_Priority = 5\<rparr>] = map blockedRuleOf es"
proof -
  let ?req = "plain_request CmdList"
  let ?p = "handle_prog demo_server ref_fw ?req"
  let ?s = "(idle_state blocked_kernel)\<lparr>mi_request := Some ?p\<rparr>" and ?u = "(idle_state dropped_kernel)\<lparr>mi_request := Some ?p\<rparr>"
  have "micro_step ref_ghost ref_fw demo_server 0 (idle_state blocked_kernel) ?s"
    by (rule micro_step.receive) (simp add: idle_state_def)
  moreover have "serving ref_ghost ref_fw demo_server 0 ?s ?u"
    using micro_step.packet [of demo_env ref_ghost dropped_kernel syn_frame ?s ref_fw demo_server 0] demo_env_ok syn_dropped
    by (simp add: serving_def idle_state_def demo_env_def) (simp add: dropped_kernel_def)
  moreover obtain w' r where r: "run ?p dropped_kernel = (w', r)" by fastforce
  then have "(serving ref_ghost ref_fw demo_server 0)\<^sup>*\<^sup>* ?u ((idle_state w')\<lparr>mi_request := Some (Return r)\<rparr>)"
    using serving_run [of ?u ?p w' r ref_ghost ref_fw demo_server 0] by (simp add: idle_state_def)
  ultimately have run: "(micro_step ref_ghost ref_fw demo_server 0)\<^sup>*\<^sup>* (idle_state blocked_kernel) ?s"
      "(serving ref_ghost ref_fw demo_server 0)\<^sup>*\<^sup>* ?s ((idle_state w')\<lparr>mi_request := Some (Return r)\<rparr>)"
    by (auto intro: converse_rtranclp_into_rtranclp)
  have w': "w' = dropped_kernel"
    using steady_result [OF ref_steady.steady_handle [of ?req demo_server], of dropped_kernel dropped_kernel] r
    by (simp add: plain_request_def)
  have cmd: "rq_Command ?req = CmdList" by (simp add: plain_request_def)
  have "r = snd (Server_handle demo_server ?req blocked_kernel) \<and>
      (rs_OK r \<longrightarrow> (\<exists>es. entries_of es (blocked_ips (kernel_maps dropped_kernel)) \<and>
        slice_list (rs_BlockedRules r) = map blockedRuleOf es))"
    using list_among_packets [OF ref_steady.steady_env_axioms demo_server_policy run(1) _ _ run(2), of ?req r]
    unfolding cmd ref_ghost_simps by (auto simp: idle_state_def w')
  moreover have "snd (Server_handle demo_server ?req blocked_kernel) = okResponse\<lparr>rs_Blocked := Some [''10.0.0.0/8''],
      rs_BlockedRules := Some [\<lparr>br_Cidr = ''10.0.0.0/8'', br_Action = ''drop'', br_Priority = 5\<rparr>], rs_Count := 1\<rparr>"
    unfolding CmdList_def handle_list_demo by simp
  ultimately show ?thesis by (auto simp: okResponse_def)
qed

end
