(* ===== verification/HttpLive.thy ===== *)
theory HttpLive
  imports Listing
begin

text \<open>
  The HTTP view beside the running daemon. Every connection of the HTTP server has a goroutine of its own
  and takes no mutex, so any number of HTTP requests make their calls between those of the server, the
  reaper and the packets (\<open>live_step\<close>). They disturb nobody; what they report was so at some moment while they
  were answered; and it is exact as long as the server makes no call in between.
\<close>

section \<open>The system with its HTTP requests\<close>

record 'w live =
  lv_micro :: "'w micro"
  lv_http :: "('w, http_reply) prog list"

inductive live_step ::
    "('w, 'i) fw_ghost \<Rightarrow> ('w, 'i, 'l) Firewall \<Rightarrow> ('w, 'n) Server \<Rightarrow> u64 \<Rightarrow> 'w live \<Rightarrow> 'w live \<Rightarrow> bool"
  for G fw srv ctTimeout where
  daemon: "micro_step G fw srv ctTimeout (lv_micro s) m' \<Longrightarrow>
    live_step G fw srv ctTimeout s (s\<lparr>lv_micro := m'\<rparr>)"
| get: "live_step G fw srv ctTimeout s (s\<lparr>lv_http := lv_http s @ [http_prog fw meth path]\<rparr>)"
| look: "i < length (lv_http s) \<Longrightarrow> lv_http s ! i = Atom f k \<Longrightarrow>
    live_step G fw srv ctTimeout s
      (s\<lparr>lv_micro := (lv_micro s)\<lparr>mi_world := f (mi_world (lv_micro s))\<rparr>,
         lv_http := (lv_http s)[i := k (mi_world (lv_micro s))]\<rparr>)"

inductive_cases live_stepE: "live_step G fw srv ctTimeout s s'"

definition live_from :: "'w \<Rightarrow> 'w live" where
  "live_from w = \<lparr>lv_micro = idle_state w, lv_http = []\<rparr>"

abbreviation lv_world :: "'w live \<Rightarrow> 'w" where
  "lv_world s \<equiv> mi_world (lv_micro s)"

text \<open>The \<open>i\<close>-th HTTP request, once it has arrived.\<close>

definition http_at :: "nat \<Rightarrow> 'w live \<Rightarrow> ('w, http_reply) prog option" where
  "http_at i s = (if i < length (lv_http s) then Some (lv_http s ! i) else None)"

section \<open>Nobody is disturbed\<close>

definition http_harmless :: "('w, 'i, 'l) Firewall \<Rightarrow> 'w live \<Rightarrow> bool" where
  "http_harmless fw s \<longleftrightarrow> (\<forall>p \<in> set (lv_http s). readonly p \<and> calls (2 * request_calls fw + 1) p)"

lemma calls_look: "calls n (Atom f k) \<Longrightarrow> calls n (k w)"
  by (cases n) (auto intro: bounded_mono)

lemma live_step_harmless:
  assumes "live_step G fw srv c s s'" "http_harmless fw s"
  shows "http_harmless fw s' \<and>
    (lv_micro s' = lv_micro s \<or> micro_step G fw srv c (lv_micro s) (lv_micro s') \<and> lv_http s' = lv_http s)"
  using assms(1)
proof cases
  case (get meth path)
  with assms(2) http_calls [of fw meth path] show ?thesis by (simp add: http_harmless_def readonly_http)
next
  case (look i f k)
  have "Atom f k \<in> set (lv_http s)" using look(2,3) by (metis nth_mem)
  with assms(2) have a: "readonly (Atom f k)" "calls (2 * request_calls fw + 1) (Atom f k)"
    by (auto simp: http_harmless_def)
  then have "readonly (k (lv_world s)) \<and> calls (2 * request_calls fw + 1) (k (lv_world s))" "f (lv_world s) = lv_world s"
    using calls_look [OF a(2)] by simp_all
  with assms(2) look(1) show ?thesis
    using set_update_subset_insert [of "lv_http s" i "k (lv_world s)"] by (auto simp: http_harmless_def)
qed (use assms(2) in \<open>simp add: http_harmless_def\<close>)

lemma live_steps_harmless:
  "(live_step G fw srv c)\<^sup>*\<^sup>* (live_from w0) s \<Longrightarrow> http_harmless fw s"
proof (induction rule: rtranclp_induct)
  case base
  show ?case by (simp add: http_harmless_def live_from_def)
qed (simp add: live_step_harmless)

lemma live_steps_micro:
  "(live_step G fw srv c)\<^sup>*\<^sup>* (live_from w0) s \<Longrightarrow> (micro_step G fw srv c)\<^sup>*\<^sup>* (idle_state w0) (lv_micro s)"
proof (induction rule: rtranclp_induct)
  case base
  show ?case by (simp add: live_from_def)
next
  case (step s t)
  with live_step_harmless [OF step.hyps(2) live_steps_harmless [OF step.hyps(1)]] show ?case
    by (auto intro: rtranclp.rtrancl_into_rtrancl)
qed

lemma http_moves:
  "live_step G fw srv c u u' \<Longrightarrow> http_at i u \<noteq> None \<Longrightarrow> http_at i u' = http_at i u \<or>
     (\<exists>f k. http_at i u = Some (Atom f k) \<and> http_at i u' = Some (k (lv_world u)))"
  by (auto elim!: live_stepE simp: http_at_def nth_append nth_list_update split: if_splits)

section \<open>What is shown was so\<close>

definition was_rule :: "('w \<Rightarrow> fw_maps) \<Rightarrow> 'w set \<Rightarrow> BlockedRule \<Rightarrow> bool" where
  "was_rule view H x \<longleftrightarrow> (\<exists>w \<in> H. \<exists>k v. blocked_ips (view w) k = Some v \<and> x = blockedRuleOf (k, v))"

definition was_port :: "('w \<Rightarrow> fw_maps) \<Rightarrow> 'w set \<Rightarrow> PortRule \<Rightarrow> bool" where
  "was_port view H x \<longleftrightarrow> (\<exists>w \<in> H. \<exists>k v. port_policy (view w) k = Some v \<and> x = portRuleOf (k, v))"

definition was_flow :: "('w \<Rightarrow> fw_maps) \<Rightarrow> 'w clock \<Rightarrow> 'w set \<Rightarrow> ConntrackEntry \<Rightarrow> bool" where
  "was_flow view clk H x \<longleftrightarrow> (\<exists>w1 \<in> H. \<exists>w2 \<in> H. \<exists>now k v. monotonicNanos clk w1 = Inr now \<and>
     conntrack (view w2) k = Some v \<and> x = ctEntry k v now)"

fun shown :: "('w, 'i) fw_ghost \<Rightarrow> ('w, 'i, 'l) Firewall \<Rightarrow> 'w set \<Rightarrow> http_body \<Rightarrow> bool" where
  "shown G fw H (RulesBody rules ports) \<longleftrightarrow>
     (\<forall>x \<in> set (slice_list rules). was_rule (gh_view G) H x) \<and>
     (\<forall>x \<in> set (slice_list ports). was_port (gh_view G) H x)"
| "shown G fw H (FlowsBody flows) \<longleftrightarrow>
     (\<forall>x \<in> set (slice_list flows). was_flow (gh_view G) (ct_clock (fw_ctMgr fw)) H x)"
| "shown G fw H (StatusBody r) \<longleftrightarrow> (\<exists>w \<in> H. Firewall_DefaultPolicy fw w = Inr (sr_DefaultPolicy r))"
| "shown G fw H b \<longleftrightarrow> True"

lemma was_mono:
  assumes "H \<subseteq> H'"
  shows "was_rule view H x \<Longrightarrow> was_rule view H' x" "was_port view H y \<Longrightarrow> was_port view H' y"
    "was_flow view clk H z \<Longrightarrow> was_flow view clk H' z"
  using assms unfolding was_rule_def was_port_def was_flow_def by blast+

lemma shown_mono: "shown G fw H b \<Longrightarrow> H \<subseteq> H' \<Longrightarrow> shown G fw H' b"
  by (cases b) (auto intro: was_mono)

context firewall_env
begin

abbreviation remembers :: "('w, 'r) prog \<Rightarrow> ('r \<Rightarrow> 'w set \<Rightarrow> bool) \<Rightarrow> 'w set \<Rightarrow> bool" where
  "remembers \<equiv> hist (gh_view G) (\<lambda>_ _. False)"

lemma hist_rules:
  "remembers (list_rules_prog fw) (\<lambda>r H'. H \<subseteq> H' \<and>
     (\<forall>x \<in> set (case r of Inr rules \<Rightarrow> slice_list rules | Inl err \<Rightarrow> []). was_rule (gh_view G) H' x)) H"
  unfolding list_rules_prog_def scanned_def
  by (rule hist_mapped, rule hist_mono [OF B.T.hist_scan])
    (fastforce simp: B.T.seen_def was_rule_def split: option.splits)

lemma hist_ports:
  "remembers (list_ports_prog fw) (\<lambda>r H'. H \<subseteq> H' \<and>
     (\<forall>x \<in> set (case r of Inr ports \<Rightarrow> slice_list ports | Inl err \<Rightarrow> []). was_port (gh_view G) H' x)) H"
  unfolding list_ports_prog_def scanned_def
  by (rule hist_mapped, rule hist_mono [OF Po.T.hist_scan])
    (fastforce simp: Po.T.seen_def was_port_def split: option.splits)

lemma hist_http_rules: "remembers (http_rules_prog fw) (\<lambda>r H'. shown G fw H' (hr_body r)) H"
  unfolding http_rules_prog_def
proof (intro hist_andthen hist_mono [OF hist_rules])
  fix r :: "fw_error + BlockedRule slice" and H'
  assume r: "H \<subseteq> H' \<and> (\<forall>x \<in> set (case r of Inr rules \<Rightarrow> slice_list rules | Inl err \<Rightarrow> []). was_rule (gh_view G) H' x)"
  show "remembers (case r of Inl err \<Rightarrow> Return (writeErr err)
      | Inr blocked \<Rightarrow> mapped (writing (\<lambda>ports. RulesBody (nonNil blocked) (nonNil ports))) (list_ports_prog fw))
      (\<lambda>r H'. shown G fw H' (hr_body r)) H'"
  proof (cases r)
    case (Inl err)
    then show ?thesis by (simp add: writeErr_def writeJSON_def)
  next
    case (Inr rules)
    with r show ?thesis
      by (auto simp: writing_def writeErr_def writeJSON_def was_mono intro!: hist_mapped hist_mono [OF hist_ports] split: sum.split)
  qed
qed

lemma hist_http_status: "remembers (http_status_prog fw) (\<lambda>r H'. shown G fw H' (hr_body r)) H"
  unfolding http_status_prog_def
proof (intro hist_andthen hist_reading)
  fix w
  show "remembers (case Firewall_DefaultPolicy fw w of
        Inl err \<Rightarrow> Return (writeErr err)
      | Inr def \<Rightarrow> andthen (list_rules_prog fw) (\<lambda>r.
          case r of
            Inl err \<Rightarrow> Return (writeErr err)
          | Inr blocked \<Rightarrow> mapped (writing (\<lambda>ports. StatusBody
              \<lparr>sr_Interface = Firewall_Interface fw, sr_AttachMode = Firewall_AttachMode fw,
               sr_DefaultPolicy = def, sr_IPRuleCount = slice_len blocked,
               sr_PortRuleCount = slice_len ports\<rparr>)) (list_ports_prog fw)))
      (\<lambda>r H'. shown G fw H' (hr_body r)) (insert w H)"
  proof (cases "Firewall_DefaultPolicy fw w")
    case (Inl err)
    then show ?thesis by (simp add: writeErr_def writeJSON_def)
  next
    case (Inr def)
    show ?thesis
      unfolding Inr sum.case
    proof (intro hist_andthen hist_mono [OF hist_rules])
      fix r :: "fw_error + BlockedRule slice" and H'
  assume "insert w H \<subseteq> H' \<and> (\<forall>x \<in> set (case r of Inr rules \<Rightarrow> slice_list rules | Inl err \<Rightarrow> []). was_rule (gh_view G) H' x)"
      then have "w \<in> H'" by blast
      with Inr have "shown G fw H'' (StatusBody \<lparr>sr_Interface = i, sr_AttachMode = a, sr_DefaultPolicy = def,
          sr_IPRuleCount = n, sr_PortRuleCount = m\<rparr>)" if "H' \<subseteq> H''" for H'' i a n m
        using that by auto
      then show "remembers (case r of
            Inl err \<Rightarrow> Return (writeErr err)
          | Inr blocked \<Rightarrow> mapped (writing (\<lambda>ports. StatusBody
              \<lparr>sr_Interface = Firewall_Interface fw, sr_AttachMode = Firewall_AttachMode fw,
               sr_DefaultPolicy = def, sr_IPRuleCount = slice_len blocked,
               sr_PortRuleCount = slice_len ports\<rparr>)) (list_ports_prog fw)) (\<lambda>r H'. shown G fw H' (hr_body r)) H'"
        by (cases r) (auto simp del: shown.simps(3) simp: writing_def writeErr_def writeJSON_def
            intro!: hist_mapped hist_mono [OF hist_ports] split: sum.split)
    qed
  qed
qed

lemma readonly_remembers: "readonly p \<Longrightarrow> (\<And>r H'. Q r H') \<Longrightarrow> remembers p Q H"
  by (induction p arbitrary: H) auto

lemma hist_http: "remembers (http_prog fw meth path) (\<lambda>r H'. shown G fw H' (hr_body r)) {}"
proof -
  have stats: "remembers (mapped (writing StatsBody) (slots_prog (fw_counterMgr fw) counterMax 0 zeroStats))
      (\<lambda>r H'. shown G fw H' (hr_body r)) {}"
    by (rule hist_mapped, rule readonly_remembers [OF readonly_slots])
      (simp add: writing_def writeErr_def writeJSON_def split: sum.split)
  have flows: "remembers (mapped (writing (\<lambda>flows. FlowsBody (nonNil flows))) (list_ct_prog fw))
      (\<lambda>r H'. shown G fw H' (hr_body r)) {}"
    by (rule hist_mapped, rule hist_mono [OF hist_list_ct])
      (auto simp: writing_def writeErr_def writeJSON_def was_flow_def split: sum.splits)
  have if_rem: "(c \<Longrightarrow> remembers p Q H) \<Longrightarrow> (\<not> c \<Longrightarrow> remembers q Q H) \<Longrightarrow> remembers (if c then p else q) Q H"
    for c and p q :: "('w, http_reply) prog" and Q H
    by simp
  show ?thesis
    unfolding http_prog_def http_get_prog_def
    by (intro if_rem hist_http_rules hist_http_status stats flows)
      (simp_all add: writeJSON_def NotFound_def)
qed

end

section \<open>The properties\<close>

text \<open>Claim C10: HTTP requests disturb nobody. A run of the daemon with any number of HTTP requests, arriving and making their
  calls at any moment, is for the maps, the server and the reaper a run without them, so that everything shown of
  the running daemon holds in their presence; and no matter what happens between its calls, an HTTP request only
  reads and makes at most \<open>2 * request_calls + 1\<close> of them.\<close>

theorem http_disturbs_nobody:
  assumes "(live_step G fw srv ctTimeout)\<^sup>*\<^sup>* (live_from w0) s"
  shows "(micro_step G fw srv ctTimeout)\<^sup>*\<^sup>* (idle_state w0) (lv_micro s) \<and>
    (\<forall>p \<in> set (lv_http s). readonly p \<and> bounded p (2 * request_calls fw + 1) (\<lambda>_. True))"
  using live_steps_micro [OF assms] live_steps_harmless [OF assms] by (simp add: http_harmless_def)

text \<open>Claim C9: what an HTTP reply shows was so. While the request was answered - with requests that change the rules, packets, reaper
  ticks and other HTTP requests between its calls - every rule that \<open>/rules\<close> lists was in its table, the policy that
  \<open>/status\<close> names was the policy, and every flow that \<open>/conntrack\<close> lists was tracked as it is listed, each at some moment.\<close>

theorem http_shows_what_was:
  assumes "firewall_env G fw" "http_at i s = Some (http_prog fw meth path)"
    "(live_step G fw srv ctTimeout)\<^sup>*\<^sup>* s t" "http_at i t = Some (Return r)"
  shows "shown G fw {lv_world u | u. (live_step G fw srv ctTimeout)\<^sup>*\<^sup>* s u \<and> (live_step G fw srv ctTimeout)\<^sup>*\<^sup>* u t} (hr_body r)"
proof -
  let ?seen = "{lv_world u | u. (live_step G fw srv ctTimeout)\<^sup>*\<^sup>* s u \<and> (live_step G fw srv ctTimeout)\<^sup>*\<^sup>* u t}"
  obtain H where "shown G fw H (hr_body r)" "H \<subseteq> ?seen"
    using hist_along [where R = "live_step G fw srv ctTimeout" and cur = "http_at i" and wld = lv_world, OF assms(3,2)
        firewall_env.hist_http [OF assms(1), of meth path] http_moves [of G fw srv ctTimeout]] assms(4) by auto
  then show ?thesis by (rule shown_mono)
qed

text \<open>Steps in which the server makes no call.\<close>

definition calm ::
    "('w, 'i) fw_ghost \<Rightarrow> ('w, 'i, 'l) Firewall \<Rightarrow> ('w, 'n) Server \<Rightarrow> u64 \<Rightarrow> 'w live \<Rightarrow> 'w live \<Rightarrow> bool"
where
  "calm G fw srv ctTimeout s s' \<longleftrightarrow> live_step G fw srv ctTimeout s s' \<and>
     (lv_micro s' = lv_micro s \<or> aside G fw srv ctTimeout (lv_micro s) (lv_micro s'))"

context steady_env
begin

lemma calm_moves:
  assumes "calm G fw srv c u u'" "reaper_tidy (lv_micro u)" "http_at i u = Some q" "steady (gh_steady G) q"
  shows "reaper_tidy (lv_micro u') \<and> gh_steady G (lv_world u) (lv_world u') \<and>
    (http_at i u' = http_at i u \<or> (\<exists>f k. q = Atom f k \<and> http_at i u' = Some (k (lv_world u))))"
proof -
  have st: "live_step G fw srv c u u'" using assms(1) by (simp add: calm_def)
  have "reaper_tidy (lv_micro u') \<and> gh_steady G (lv_world u) (lv_world u')"
  proof (cases "lv_micro u' = lv_micro u")
    case True
    with assms(2) steady_refl show ?thesis by simp
  next
    case False
    with assms(1) have "aside G fw srv c (lv_micro u) (lv_micro u')" by (simp add: calm_def)
    with assms(2) show ?thesis
      using aside_steady micro_step_tidy by (auto simp: aside_def)
  qed
  with http_moves [OF st, of i] assms(3) show ?thesis by auto
qed

lemma calm_http:
  assumes "(calm G fw srv c)\<^sup>*\<^sup>* s t" "http_at i s = Some p" "steady (gh_steady G) p" "reaper_tidy (lv_micro s)"
    "http_at i t = Some (Return r)"
  shows "gh_steady G (lv_world s) (lv_world t) \<and> r = snd (run p (lv_world s)) \<and> r = snd (run p (lv_world t))"
proof -
  have "\<exists>q. http_at i t = Some q \<and> steady (gh_steady G) q \<and> reaper_tidy (lv_micro t) \<and>
      gh_steady G (lv_world s) (lv_world t) \<and> snd (run q (lv_world s)) = snd (run p (lv_world s))"
    by (rule steady_along [where cur = "http_at i" and wld = lv_world and I = "\<lambda>u. reaper_tidy (lv_micro u)", OF assms(1-4)])
      (fact steady_refl, erule (1) steady_trans, rule calm_moves)
  with assms(5) have "gh_steady G (lv_world s) (lv_world t)" "r = snd (run p (lv_world s))" by auto
  with steady_result [OF assms(3)] show ?thesis by simp
qed

end

text \<open>Claim C8: an HTTP reply is exact while the server makes no call. Beside packets, reaper ticks and other HTTP
  requests, and whatever requests are received and answered, the reply to \<open>/rules\<close> and \<open>/status\<close> is the one
  the API gives at once in the world in which the request has arrived, and in the world in which it is answered. When
  \<open>/rules\<close> answers with 200, the text on the wire is one JSON document with two arrays, never null, whose elements
  are the entries of the two tables, each once; when \<open>/status\<close> does, it names the policy and the sizes of the tables.\<close>

theorem http_exact:
  assumes "steady_env G fw" "(live_step G fw srv ctTimeout)\<^sup>*\<^sup>* (live_from w0) s"
    "http_at i s = Some (http_prog fw meth path)" "path \<in> {''/rules'', ''/status''}"
    "(calm G fw srv ctTimeout)\<^sup>*\<^sup>* s t" "http_at i t = Some (Return r)"
  shows "r = API_ServeHTTP (firewall_policy fw) meth path (lv_world s) \<and>
    r = API_ServeHTTP (firewall_policy fw) meth path (lv_world t) \<and>
    (hr_status r = 200 \<and> path = ''/rules'' \<longrightarrow>
      (\<exists>es ps. entries_of es (blocked_ips (gh_view G (lv_world t))) \<and> entries_of ps (port_policy (gh_view G (lv_world t))) \<and>
        parse_document (http_text cod (hr_body r)) = Some (rules_json es ps))) \<and>
    (hr_status r = 200 \<and> path = ''/status'' \<longrightarrow>
      (\<exists>st. hr_body r = StatusBody st \<and> Firewall_DefaultPolicy fw (lv_world t) = Inr (sr_DefaultPolicy st) \<and>
        sr_IPRuleCount st = card (dom (blocked_ips (gh_view G (lv_world t)))) \<and>
        sr_PortRuleCount st = card (dom (port_policy (gh_view G (lv_world t))))))"
proof -
  have path: "path \<in> {''/rules'', ''/status'', ''/health''}" using assms(4) by blast
  have fe: "firewall_env G fw" using assms(1) by (simp add: steady_env_def)
  have r: "r = API_ServeHTTP (firewall_policy fw) meth path (lv_world s) \<and>
      r = API_ServeHTTP (firewall_policy fw) meth path (lv_world t)"
    using steady_env.calm_http [OF assms(1,5,3) steady_env.steady_http [OF assms(1) path]
        steady_env.micro_steps_tidy [OF assms(1) live_steps_micro [OF assms(2)]] assms(6)]
    unfolding run_http snd_conv by blast
  then show ?thesis
    using firewall_env.api_rules_shown [OF fe, of meth "lv_world t" cod]
      firewall_env.api_status_shown [OF fe, of meth "lv_world t"] by metis
qed

section \<open>On the reference kernel\<close>

lemma readonly_advance: "readonly p \<Longrightarrow> advance n p w = (w', p') \<Longrightarrow> readonly p'"
  by (induction n p w rule: advance.induct) auto

lemma http_same: "http_at i s = Some p \<Longrightarrow> s\<lparr>lv_http := (lv_http s)[i := p]\<rparr> = s"
  by (cases s) (auto simp: http_at_def list_update_same_conv split: if_splits)

lemma http_reads:
  "http_at i s = Some p \<Longrightarrow> readonly p \<Longrightarrow> advance n p (lv_world s) = (w', p') \<Longrightarrow>
     (calm G fw srv c)\<^sup>*\<^sup>* s (s\<lparr>lv_http := (lv_http s)[i := p']\<rparr>)"
proof (induction n p "lv_world s" arbitrary: s rule: advance.induct)
  case (1 n f k)
  let ?t = "s\<lparr>lv_http := (lv_http s)[i := k (lv_world s)]\<rparr>"
  have f: "f (lv_world s) = lv_world s" "readonly (k (lv_world s))" using 1(3) by simp_all
  have i: "i < length (lv_http s)" "lv_http s ! i = Atom f k"
    using 1(2) by (auto simp: http_at_def split: if_splits)
  have "calm G fw srv c s ?t"
    using live_step.look [OF i, of G fw srv c] f(1) by (simp add: calm_def)
  moreover have "(calm G fw srv c)\<^sup>*\<^sup>* ?t (?t\<lparr>lv_http := (lv_http ?t)[i := p']\<rparr>)"
    using 1(1) [of ?t] f 1(4) i(1) by (simp add: http_at_def)
  ultimately show ?case by (simp add: converse_rtranclp_into_rtranclp)
qed (simp_all add: http_same)

lemma http_running:
  "http_at i s = Some p \<Longrightarrow> readonly p \<Longrightarrow> run p (lv_world s) = (w', r) \<Longrightarrow>
     (calm G fw srv c)\<^sup>*\<^sup>* s (s\<lparr>lv_http := (lv_http s)[i := Return r]\<rparr>)"
proof (induction p arbitrary: s)
  case (Return x)
  then show ?case by (simp add: http_same)
next
  case (Atom f k)
  let ?t = "s\<lparr>lv_http := (lv_http s)[i := k (lv_world s)]\<rparr>"
  have f: "f (lv_world s) = lv_world s" "readonly (k (lv_world s))" using Atom.prems(2) by simp_all
  have i: "i < length (lv_http s)" "lv_http s ! i = Atom f k"
    using Atom.prems(1) by (auto simp: http_at_def split: if_splits)
  have "calm G fw srv c s ?t"
    using live_step.look [OF i, of G fw srv c] f(1) by (simp add: calm_def)
  moreover have "(calm G fw srv c)\<^sup>*\<^sup>* ?t (?t\<lparr>lv_http := (lv_http ?t)[i := Return r]\<rparr>)"
    using Atom.IH [of "k (lv_world s)" ?t] f Atom.prems(3) i(1) by (simp add: http_at_def)
  ultimately show ?case by (simp add: converse_rtranclp_into_rtranclp)
qed

lemma calm_live: "(calm G fw srv c)\<^sup>*\<^sup>* s t \<Longrightarrow> (live_step G fw srv c)\<^sup>*\<^sup>* s t"
  by (erule rtranclp_mono [THEN predicate2D, rotated]) (auto simp: calm_def)

lemma daemon_live:
  "(micro_step G fw srv c)\<^sup>*\<^sup>* m m' \<Longrightarrow> (live_step G fw srv c)\<^sup>*\<^sup>* \<lparr>lv_micro = m, lv_http = hs\<rparr> \<lparr>lv_micro = m', lv_http = hs\<rparr>"
proof (induction rule: rtranclp_induct)
  case (step m1 m2)
  from live_step.daemon [of G fw srv c "\<lparr>lv_micro = m1, lv_http = hs\<rparr>" m2] step.hyps(2)
  have "live_step G fw srv c \<lparr>lv_micro = m1, lv_http = hs\<rparr> \<lparr>lv_micro = m2, lv_http = hs\<rparr>" by simp
  with step.IH show ?case by (rule rtranclp.rtrancl_into_rtrancl)
qed simp

abbreviation rules_get :: "(kernel, http_reply) prog" where
  "rules_get \<equiv> http_prog ref_fw MethodGet ''/rules''"

lemma get_live:
  "live_step ref_ghost ref_fw demo_server 0 (live_from w) \<lparr>lv_micro = idle_state w, lv_http = [rules_get]\<rparr>"
  using live_step.get [of ref_ghost ref_fw demo_server 0 "live_from w" MethodGet "''/rules''"] by (simp add: live_from_def)

text \<open>The rules are asked for, a prefix is blocked, and then they are read.\<close>

definition asked :: "kernel live" where
  "asked = \<lparr>lv_micro = idle_state boot_kernel, lv_http = [rules_get]\<rparr>"

definition told :: "kernel live" where
  "told = \<lparr>lv_micro = (idle_state blocked_kernel)\<lparr>mi_request := Some (Return okResponse)\<rparr>,
     lv_http = [Return (API_ServeHTTP (firewall_policy ref_fw) MethodGet ''/rules'' blocked_kernel)]\<rparr>"

lemma asked_told:
  "live_step ref_ghost ref_fw demo_server 0 (live_from boot_kernel) asked"
  "(live_step ref_ghost ref_fw demo_server 0)\<^sup>*\<^sup>* asked told"
proof -
  let ?m = "(idle_state blocked_kernel)\<lparr>mi_request := Some (Return okResponse)\<rparr>"
  show "live_step ref_ghost ref_fw demo_server 0 (live_from boot_kernel) asked"
    unfolding asked_def by (rule get_live)
  have "(micro_step ref_ghost ref_fw demo_server 0)\<^sup>*\<^sup>* (idle_state boot_kernel) ?m"
    using receive_demo serving_steps [OF serve_demo] by (rule converse_rtranclp_into_rtranclp)
  then have "(live_step ref_ghost ref_fw demo_server 0)\<^sup>*\<^sup>* asked \<lparr>lv_micro = ?m, lv_http = [rules_get]\<rparr>"
    unfolding asked_def by (rule daemon_live)
  moreover have "(live_step ref_ghost ref_fw demo_server 0)\<^sup>*\<^sup>* \<lparr>lv_micro = ?m, lv_http = [rules_get]\<rparr> told"
    using calm_live [OF http_running [of 0 "\<lparr>lv_micro = ?m, lv_http = [rules_get]\<rparr>" rules_get, OF _ readonly_http],
        of blocked_kernel "API_ServeHTTP (firewall_policy ref_fw) MethodGet ''/rules'' blocked_kernel"]
    by (simp add: http_at_def run_http told_def idle_state_def)
  ultimately show "(live_step ref_ghost ref_fw demo_server 0)\<^sup>*\<^sup>* asked told" by (rule rtranclp_trans)
qed

theorem http_disturbs_nobody_witness:
  "(micro_step ref_ghost ref_fw demo_server 0)\<^sup>*\<^sup>* (idle_state boot_kernel) (lv_micro told)"
  using http_disturbs_nobody [OF converse_rtranclp_into_rtranclp [OF asked_told]] by blast

lemma told_rules:
  "hr_body (API_ServeHTTP (firewall_policy ref_fw) MethodGet ''/rules'' blocked_kernel) =
     RulesBody (Some [\<lparr>br_Cidr = ''10.0.0.0/8'', br_Action = ''drop'', br_Priority = 5\<rparr>]) (Some [])"
proof -
  have p: "PortPolicyManager_List (fw_portPolicyMgr ref_fw) blocked_kernel = Inr (Some [])"
    by (simp add: PortPolicyManager_List_def loop_eval blocked_kernel_def)
  show ?thesis
    by (simp add: API_ServeHTTP_def api_get_def handleRules_def writeJSON_def firewall_policy_def
        Firewall_ListBlockedRules_def Firewall_ListPortRules_def list_blocked p nonNil_def)
qed

theorem http_shows_what_was_witness:
  "\<exists>u k v. (live_step ref_ghost ref_fw demo_server 0)\<^sup>*\<^sup>* asked u \<and> blocked_ips (kernel_maps (lv_world u)) k = Some v \<and>
     blockedRuleOf (k, v) = \<lparr>br_Cidr = ''10.0.0.0/8'', br_Action = ''drop'', br_Priority = 5\<rparr>"
proof -
  have "http_at 0 asked = Some rules_get"
      "http_at 0 told = Some (Return (API_ServeHTTP (firewall_policy ref_fw) MethodGet ''/rules'' blocked_kernel))"
    by (simp_all add: http_at_def asked_def told_def)
  from http_shows_what_was [OF ref_firewall_env this(1) asked_told(2) this(2), unfolded told_rules] show ?thesis
    by (auto simp: was_rule_def) metis
qed

text \<open>The rules are asked for, a packet is dropped, and then they are read.\<close>

theorem http_exact_witness:
  "\<exists>t. (calm ref_ghost ref_fw demo_server 0)\<^sup>*\<^sup>* \<lparr>lv_micro = idle_state blocked_kernel, lv_http = [rules_get]\<rparr> t \<and>
     lv_world t = dropped_kernel \<and>
     (\<exists>es ps. entries_of es (blocked_ips (kernel_maps dropped_kernel)) \<and>
       parse_document (http_text ref_codec (hr_body (API_ServeHTTP (firewall_policy ref_fw) MethodGet ''/rules'' blocked_kernel))) =
         Some (rules_json es ps)) \<and>
     http_at 0 t = Some (Return (API_ServeHTTP (firewall_policy ref_fw) MethodGet ''/rules'' blocked_kernel))"
proof -
  let ?R = "calm ref_ghost ref_fw demo_server 0"
  let ?s = "\<lparr>lv_micro = idle_state blocked_kernel, lv_http = [rules_get]\<rparr>"
  let ?u = "\<lparr>lv_micro = idle_state dropped_kernel, lv_http = [rules_get]\<rparr>"
  have m: "micro_step ref_ghost ref_fw demo_server 0 (idle_state blocked_kernel) (idle_state dropped_kernel)"
    using micro_step.packet [of demo_env ref_ghost dropped_kernel syn_frame "idle_state blocked_kernel" ref_fw demo_server 0]
      demo_env_ok syn_dropped
    by (simp add: idle_state_def demo_env_def) (simp add: dropped_kernel_def)
  have "?R ?s ?u"
    using live_step.daemon [of ref_ghost ref_fw demo_server 0 ?s "idle_state dropped_kernel"] m
    by (simp add: calm_def aside_def) (simp add: idle_state_def)
  moreover obtain w' r where run: "run rules_get dropped_kernel = (w', r)" by fastforce
  then have "?R\<^sup>*\<^sup>* ?u (?u\<lparr>lv_http := [Return r]\<rparr>)"
    using http_running [of 0 ?u rules_get w' r ref_ghost ref_fw demo_server 0, OF _ readonly_http]
    by (simp add: http_at_def idle_state_def)
  ultimately have steps: "?R\<^sup>*\<^sup>* ?s (?u\<lparr>lv_http := [Return r]\<rparr>)" by (rule converse_rtranclp_into_rtranclp)
  have status: "hr_status (API_ServeHTTP (firewall_policy ref_fw) MethodGet ''/rules'' blocked_kernel) = 200"
    using ServeHTTP_http_ok [of "firewall_policy ref_fw" MethodGet "''/rules''" blocked_kernel]
    by (simp add: http_ok_def told_rules)
  have "r = API_ServeHTTP (firewall_policy ref_fw) MethodGet ''/rules'' blocked_kernel \<and>
      (hr_status r = 200 \<longrightarrow> (\<exists>es ps. entries_of es (blocked_ips (kernel_maps dropped_kernel)) \<and>
        parse_document (http_text ref_codec (hr_body r)) = Some (rules_json es ps)))"
    using http_exact [OF ref_steady.steady_env_axioms r_into_rtranclp [of "live_step ref_ghost ref_fw demo_server 0", OF get_live [of blocked_kernel]] _ _ steps,
        of 0 MethodGet "''/rules''" r ref_codec]
    unfolding ref_ghost_simps by (auto simp: http_at_def idle_state_def)
  with status have "r = API_ServeHTTP (firewall_policy ref_fw) MethodGet ''/rules'' blocked_kernel"
      "\<exists>es ps. entries_of es (blocked_ips (kernel_maps dropped_kernel)) \<and>
        parse_document (http_text ref_codec (hr_body (API_ServeHTTP (firewall_policy ref_fw) MethodGet ''/rules'' blocked_kernel))) =
          Some (rules_json es ps)"
    by auto
  with steps show ?thesis
    by (intro exI [of _ "?u\<lparr>lv_http := [Return r]\<rparr>"]) (simp add: http_at_def idle_state_def)
qed

section \<open>A reply that lists an entry twice\<close>

text \<open>A listing can show an entry twice: the server holds its mutex for its own requests only, and the iterator starts over when
  the key it stands on is removed between two of its calls.\<close>

definition host_one :: firewallIpv4LpmKey where "host_one = \<lparr>lk_Prefixlen = 32, lk_Data = 0x01010101\<rparr>"

definition two_kernel :: kernel where
  "two_kernel = boot_kernel\<lparr>k_ip := [(host_one, drop5), (k10, drop5)], k_pres := [(0, 1)]\<rparr>"

definition one_kernel :: kernel where
  "one_kernel = boot_kernel\<lparr>k_ip := [(host_one, drop5)], k_pres := [(0, 1)]\<rparr>"

lemma host_one_not_k10: "host_one \<noteq> k10" "k10 \<noteq> host_one"
  by (simp_all add: host_one_def k10_def)

lemma unblock_two:
  "Server_handle demo_server ((plain_request ''unblock'')\<lparr>rq_Value := ''10.0.0.0/8''\<rparr>) two_kernel = (one_kernel, okResponse)"
  by (simp add: Server_handle_def demo_server_policy plain_request_def cmd_defs handle_unblock_def reply_unit_def
      Firewall_UnblockIP_def MapManager_Unblock_eq rule_key_k10 op_eval fits_k10 lpm_norm_k10 two_kernel_def one_kernel_def
      host_one_not_k10 wrap_err_def)

lemma twice_demo:
  "\<exists>p'. advance 3 rules_get two_kernel = (two_kernel, p') \<and>
     hr_body (snd (run p' one_kernel)) = RulesBody (Some (map blockedRuleOf [(host_one, drop5), (k10, drop5), (host_one, drop5)])) (Some [])"
  unfolding numeral_eq_Suc One_nat_def pred_numeral_simps arith_special numeral_One BitM.simps
  by (simp add: http_prog_def http_get_prog_def http_rules_prog_def list_rules_prog_def scanned_def scan_prog_def iter_prog_numeral ref_eval
    two_kernel_def one_kernel_def boot_kernel_def mapped_def andthen_assoc host_one_not_k10
    advance_reading advance_call Let_def domIff run_list_progs PortPolicyManager_List_def loop_eval writing_def writeJSON_def append_all_def nonNil_def del: andthen.simps(2) cong: andthen_cong)

lemma listed_twice:
  "\<exists>t r p. (live_step ref_ghost ref_fw demo_server 0)\<^sup>*\<^sup>* (live_from two_kernel) t \<and> http_at 0 t = Some (Return r) \<and>
     hr_body r = RulesBody (Some [blockedRuleOf (host_one, drop5), p, blockedRuleOf (host_one, drop5)]) (Some [])"
proof -
  let ?L = "(live_step ref_ghost ref_fw demo_server 0)\<^sup>*\<^sup>*"
  let ?req = "(plain_request ''unblock'')\<lparr>rq_Value := ''10.0.0.0/8''\<rparr>"
  let ?m = "(idle_state one_kernel)\<lparr>mi_request := Some (Return okResponse)\<rparr>"
  obtain p' where p': "advance 3 rules_get two_kernel = (two_kernel, p')"
      "hr_body (snd (run p' one_kernel)) = RulesBody (Some (map blockedRuleOf [(host_one, drop5), (k10, drop5), (host_one, drop5)])) (Some [])"
    using twice_demo by blast
  have ro: "readonly p'"
    using readonly_http [of ref_fw MethodGet "''/rules''"] p'(1)
    by (metis readonly_advance)
  have 1: "?L (live_from two_kernel) \<lparr>lv_micro = idle_state two_kernel, lv_http = [p']\<rparr>"
    using converse_rtranclp_into_rtranclp [OF get_live
        calm_live [OF http_reads [of 0 "\<lparr>lv_micro = idle_state two_kernel, lv_http = [rules_get]\<rparr>" rules_get 3 two_kernel p', OF _ readonly_http]]]
      p'(1) by (simp add: http_at_def idle_state_def)
  have "(micro_step ref_ghost ref_fw demo_server 0) (idle_state two_kernel)
      ((idle_state two_kernel)\<lparr>mi_request := Some (handle_prog demo_server ref_fw ?req)\<rparr>)"
    by (rule micro_step.receive) (simp add: idle_state_def)
  moreover have serve: "(serving ref_ghost ref_fw demo_server 0)\<^sup>*\<^sup>*
      ((idle_state two_kernel)\<lparr>mi_request := Some (handle_prog demo_server ref_fw ?req)\<rparr>) ?m"
    using serving_run [of "(idle_state two_kernel)\<lparr>mi_request := Some (handle_prog demo_server ref_fw ?req)\<rparr>"
        _ one_kernel okResponse ref_ghost ref_fw demo_server 0]
    by (simp add: run_handle [OF demo_server_policy] unblock_two idle_state_def)
  ultimately have "(micro_step ref_ghost ref_fw demo_server 0)\<^sup>*\<^sup>* (idle_state two_kernel) ?m"
    using serving_steps [OF serve] by (blast intro: converse_rtranclp_into_rtranclp)
  then have 2: "?L \<lparr>lv_micro = idle_state two_kernel, lv_http = [p']\<rparr> \<lparr>lv_micro = ?m, lv_http = [p']\<rparr>"
    by (rule daemon_live)
  obtain w' r where r: "run p' one_kernel = (w', r)" by fastforce
  then have "?L \<lparr>lv_micro = ?m, lv_http = [p']\<rparr> \<lparr>lv_micro = ?m, lv_http = [Return r]\<rparr>"
    using calm_live [OF http_running [of 0 "\<lparr>lv_micro = ?m, lv_http = [p']\<rparr>" p' w' r, OF _ ro]]
    by (simp add: http_at_def idle_state_def)
  with 1 2 have "?L (live_from two_kernel) \<lparr>lv_micro = ?m, lv_http = [Return r]\<rparr>" by (meson rtranclp_trans)
  moreover have "hr_body r = RulesBody (Some [blockedRuleOf (host_one, drop5), blockedRuleOf (k10, drop5), blockedRuleOf (host_one, drop5)]) (Some [])"
    using p'(2) r by simp
  moreover have "http_at 0 \<lparr>lv_micro = ?m, lv_http = [Return r]\<rparr> = Some (Return r)" by (simp add: http_at_def)
  ultimately show ?thesis by blast
qed

end
