(* ===== verification/EndToEnd.thy ===== *)
theory EndToEnd
  imports ConcurrencyProps ControlProps SessionProps
begin

text \<open>
  From the exit code of the command line client to the verdict on a packet: the chain of
  \<open>cmd/firewallctl/main.go\<close>, \<open>control/server/server.go\<close>, \<open>control/ebpf\<close> and \<open>bpf/firewall.c\<close>.
\<close>

section \<open>What an exit code says\<close>

lemma wired_OK [simp]: "rs_OK (wired_Response env r) = rs_OK r"
  by (simp add: wired_Response_def)

lemma block_count: "rs_Count (snd (handle_block P req w)) = 0"
  by (simp add: handle_block_def reply_unit_def okResponse_def errResponse_def split: prod.split option.split)

context unix_socket
begin

text \<open>The client ends with 0 only if the server has handled its request, as it arrives, and granted it: every failure on
  the way - no socket, a broken write, a request too long for the scanner, an unreadable or an error reply -
  has another code.\<close>

lemma no_response: "decode_Response cod [] = None"
  by (simp add: decode_Response_def parse_first_def parse_value.simps)

lemma exit0_arrived:
  assumes plan: "ctl_main raw = CtlSend path req"
    and run: "firewallctl net env raw x = (x', res)" "exit_code res = 0"
    and count: "int_ok (rs_Count (snd (Server_handle s (wired_Request req) (daemon x))))"
  shows "\<exists>r. Server_handle s (wired_Request req) (daemon x) = (daemon x', r) \<and> rs_OK r"
proof -
  let ?text = "marshal_Request req @ [CHR 0x0A]"
  obtain w' r where h: "Server_handle s (wired_Request req) (daemon x) = (w', r)" by fastforce
  obtain resp where trip: "roundTrip net env path req x = (x', Inr resp)" "rs_OK resp"
    using run plan by (auto simp: firewallctl_def printResponse_def split: prod.splits sum.splits if_splits)
  then obtain x1 c x2 x3 out where d: "de_Dial net path x = (x1, Inr c)" "de_Write net c ?text x1 = (x2, None)"
      "de_Read net c x2 = (x3, out)" "x' = de_Close net c x3" "decode_Response env out = Some resp"
    by (auto simp: roundTrip_def split: prod.splits sum.splits option.splits)
  have "length (marshal_Request req) < scan_buffer"
  proof (rule ccontr)
    assume long: "\<not> length (marshal_Request req) < scan_buffer"
    have "CHR 0x0A \<notin> set (marshal_Request req)"
      using request_printed [of req] by (auto simp: printed_def byte_def)
    with long have "scan_line ?text = None" by (simp add: scan_line_def cut_at_append)
    then have "Server_handleConn env s ?text (daemon x) = (daemon x, None)" by (simp add: Server_handleConn_def)
    with answered [OF d(1-3)] d(5) no_response show False by (auto split: if_splits)
  qed
  then have "Server_handleConn env s ?text (daemon x) = (w', Some (writeResponse env r))"
    using handleConn_request [of req env s "[]" "daemon x"] h by simp
  with answered [OF d(1-3)] have "daemon x3 = w'" "out = writeResponse env r" by (auto split: if_splits)
  moreover from this d(5) trip(2) response_readable [OF codec, of r] count h have "rs_OK r" by auto
  ultimately show ?thesis using h d(4) closed by simp
qed

lemma exit0_granted:
  assumes "ctl_main raw = CtlSend path req" "ascii_request req"
    "firewallctl net env raw x = (x', res)" "exit_code res = 0"
    "int_ok (rs_Count (snd (Server_handle s req (daemon x))))"
  shows "\<exists>r. Server_handle s req (daemon x) = (daemon x', r) \<and> rs_OK r"
  using exit0_arrived [OF assms(1,3,4)] assms(5) by (simp add: wired_ascii_request [OF assms(2) sent_command [OF assms(1)]])

end

section \<open>Every command\<close>

text \<open>A program run alone has the result its precondition promises.\<close>

lemma wp_run: "wp view I p Q (ctl (view w)) \<Longrightarrow> run p w = (w', r) \<Longrightarrow> I (ctl (view w')) \<and> Q r (ctl (view w'))"
  by (induction p arbitrary: w) auto

lemma handled_done:
  assumes "firewall_env G fw" "sv_policy srv = firewall_policy fw" "maps_ok (gh_view G w)"
    "Server_handle srv req w = (w', r)" "rs_OK r"
  shows "maps_ok (gh_view G w') \<and> request_done req (ctl (gh_view G w)) (ctl (gh_view G w'))"
proof -
  have "maps_ok (ctl (gh_view G w))" using assms(3) by simp
  note firewall_env.awp_handle [OF assms(1) this, of srv req]
  from wp_run [OF this, of w' r] assms(4,5) show ?thesis by (simp add: run_handle [OF assms(2)])
qed

text \<open>Claim C1: exit code 0 means done. Whatever command line \<open>firewallctl\<close> is given, if it ends with 0 after sending a
  request, then the daemon has carried out the request as it arrived - the one of the command line, its
  texts in valid UTF-8, and if they are ASCII that very request (the count of a listing fits a Go int): a block has stored its rule, an unblock has
  removed a rule that was there, a clear has emptied the tables, a policy is the one named; the presence flags fit; a
  command that reads has changed nothing; and the maps are well formed. A block without an action is stored as DROP at
  priority 0, so what is done is what was asked for except, and always except, when a block gives a priority and no action.\<close>

theorem exit0_done:
  assumes "unix_socket net cod srv path daemon" "firewall_env G fw" "sv_policy srv = firewall_policy fw"
    "maps_ok (gh_view G (daemon x))" "ctl_main raw = CtlSend path req"
    "firewallctl net cod raw x = (x', res)" "exit_code res = 0"
    "int_ok (rs_Count (snd (Server_handle srv (wired_Request req) (daemon x))))"
  defines "m \<equiv> ctl (gh_view G (daemon x))" and "m' \<equiv> ctl (gh_view G (daemon x'))" and "arrived \<equiv> wired_Request req"
  shows "maps_ok (gh_view G (daemon x')) \<and> request_done arrived m m' \<and>
    (request_asked arrived m m' \<longleftrightarrow> \<not> priority_lost arrived) \<and> (ascii_request req \<longrightarrow> arrived = req)"
proof -
  obtain r where "Server_handle srv arrived (daemon x) = (daemon x', r)" "rs_OK r"
    using unix_socket.exit0_arrived [OF assms(1,5-8)] unfolding arrived_def by blast
  from handled_done [OF assms(2-4) this] request_done_asked show ?thesis
    using wired_ascii_request [OF _ sent_command [OF assms(5)]] unfolding m_def m'_def arrived_def by blast
qed

lemma demo_session:
  "\<exists>x' res. firewallctl (loopback ref_codec demo_server ''/var/run/ebpf-firewall.sock'') ref_codec
     [''block'', ''10.0.0.0/8'', ''-action'', ''drop'', ''-priority'', ''5''] (boot_kernel, '''') = (x', res) \<and>
     exit_code res = 0 \<and> fst x' = blocked_kernel"
proof -
  have a: "ascii_request block_request" by (simp add: ascii_request_def byte_def)
  have l: "length (rq_Value block_request) + length (rq_Protocol block_request) +
      length (rq_Action block_request) \<le> 10000"
    by (simp add: block_request_def plain_request_def)
  have "exit_code (Answered (printResponse (wired_Response ref_codec okResponse))) = 0"
    by (simp add: printResponse_def okResponse_def)
  with firewallctl_answer [OF loopback.unix_socket_axioms demo_command loopback_calls(1) loopback_calls(2) a l
      _ encode_okResponse okResponse_count, of demo_server "(boot_kernel, '''')" blocked_kernel]
  show ?thesis by (force simp: handle_block_demo)
qed

theorem exit0_done_witness:
  "request_asked block_request (ctl (kernel_maps boot_kernel)) (ctl (kernel_maps blocked_kernel))"
proof -
  have "ascii_request block_request" by (simp add: ascii_request_def byte_def)
  then have w: "wired_Request block_request = block_request"
    by (rule wired_ascii_request [OF _ sent_command [OF demo_command]])
  obtain x' res where run: "firewallctl (loopback ref_codec demo_server ''/var/run/ebpf-firewall.sock'') ref_codec
      [''block'', ''10.0.0.0/8'', ''-action'', ''drop'', ''-priority'', ''5''] (boot_kernel, []) = (x', res)"
      "exit_code res = 0" "fst x' = blocked_kernel"
    using demo_session by blast
  have i: "int_ok (rs_Count (snd (Server_handle demo_server (wired_Request block_request) (fst (boot_kernel, [])))))"
    by (simp add: w handle_block_demo okResponse_count)
  from exit0_done [OF loopback.unix_socket_axioms ref_firewall_env demo_server_policy _ demo_command run(1,2) i]
  show ?thesis using boot_maps_ok run(3) by (simp add: w priority_lost_def)
qed

section \<open>A blocked prefix\<close>

text \<open>Claim C2: exit code 0 means dropped. If \<open>firewallctl\<close>, told in ASCII to block a prefix, ends with exit code 0, then
  from there on and until the next request, among any packets and reaper ticks and even between the
  lookups of the packet, every packet whose source the prefix covers is dropped, if no more specific entry
  covers the source and no port rule of higher priority matches the packet.\<close>

theorem exit0_drops:
  assumes sock: "unix_socket net cod srv path daemon" "firewall_env G fw" "sv_policy srv = firewall_policy fw"
    and start: "maps_ok (gh_view G (daemon x))" "dp_env_ok env"
    and cmd: "ctl_main raw = CtlSend path req" "rq_Command req = CmdBlock" "\<not> port_request req" "ascii_request req" "rule_key (rq_Value req) = Inr k"
      "granted_rule req = Inr v" "rv_Action v = ActionDrop"
    and exit: "firewallctl net cod raw x = (x', res)" "exit_code res = 0"
    and later: "\<And>i. (quiet G fw srv ctTimeout)\<^sup>*\<^sup>* (idle_state (daemon x')) (st i)"
    and pkt: "parse_packet pkt = Some info" "covers k (pi_saddr info)"
      "\<forall>k' \<in> dom (blocked_ips (gh_view G (daemon x))). covers k' (pi_saddr info) \<longrightarrow>
        unat (lk_Prefixlen k') \<le> unat (lk_Prefixlen k)"
      "\<forall>p. port_rule_action (gh_view G (daemon x)) info = Some p \<longrightarrow> rv_Priority p \<le> rv_Priority v"
  shows "packet_at env pkt (\<lambda>i. gh_view G (mi_world (st i))) = XDP_DROP"
proof -
  let ?m0 = "gh_view G (daemon x)" and ?m1 = "gh_view G (daemon x')"
  have count: "int_ok (rs_Count (snd (Server_handle srv req (daemon x))))"
    by (simp add: Server_handle_def cmd(2) block_count int_ok_def cmd_defs Let_def)
  obtain r where r: "Server_handle srv req (daemon x) = (daemon x', r)" "rs_OK r"
    using unix_socket.exit0_granted [OF sock(1) cmd(1,4) exit count] by blast
  note did = handled_done [OF sock(2,3) start(1) r]
  then have ins: "ctl ?m1 = ip_inserted k v (ctl ?m0)"
    using cmd(2,3,5,6) by (simp add: request_done_def')
  have "ctl (gh_view G (mi_world (st i))) = ctl ?m1" for i
    using firewall_env.quiets_ctl [OF sock(2) later firewall_env.micro_ok_idle [OF sock(2)]] did
    by (simp add: answered_def idle_state_def)
  from inserted_drops [OF start(2) conjunct1 [OF did] ins this cmd(7)] pkt show ?thesis by simp
qed

theorem exit0_drops_witness:
  "\<exists>x' res. firewallctl (loopback ref_codec demo_server ''/var/run/ebpf-firewall.sock'') ref_codec
      [''block'', ''10.0.0.0/8'', ''-action'', ''drop'', ''-priority'', ''5''] (boot_kernel, '''') = (x', res) \<and>
    exit_code res = 0 \<and> packet_at demo_env syn_frame (\<lambda>_. kernel_maps (fst x')) = XDP_DROP"
proof -
  have e: "blocked_ips (kernel_maps boot_kernel) = Map.empty" "port_policy (kernel_maps boot_kernel) = Map.empty"
    by (simp_all add: kernel_maps_def boot_kernel_def)
  have g: "granted_rule block_request = Inr drop5"
    by (simp add: granted_rule_def ParseAction_def drop5_def enum_defs)
  have a: "ascii_request block_request" by (simp add: ascii_request_def byte_def)
  obtain x' res where run: "firewallctl (loopback ref_codec demo_server ''/var/run/ebpf-firewall.sock'') ref_codec
      [''block'', ''10.0.0.0/8'', ''-action'', ''drop'', ''-priority'', ''5''] (boot_kernel, '''') = (x', res)"
      "exit_code res = 0"
    using demo_session by blast
  from exit0_drops [OF loopback.unix_socket_axioms ref_firewall_env demo_server_policy _ demo_env_ok demo_command
      _ _ a _ g _ run rtranclp.rtrancl_refl parse_frames(1), of k10]
  have "packet_at demo_env syn_frame (\<lambda>i. gh_view ref_ghost (mi_world (idle_state (fst x')))) = XDP_DROP"
    using boot_maps_ok
    by (simp add: e rule_key_k10 covers_host10 port_rule_action_empty drop5_def port_request_def block_request_def plain_request_def cmd_defs)
  with run show ?thesis by (auto simp: idle_state_def)
qed

section \<open>A rule for any protocol\<close>

text \<open>Claim C18: a port rule for any protocol is granted and stored, and filters nothing. After a block request that names a
  port and no protocol has been answered OK, the rule is in the table under protocol 0; and the
  program's verdict on every packet, but those of IP protocol 0 itself, is what it was before.\<close>

theorem any_protocol_no_effect:
  assumes "firewall_env G fw" "sv_policy srv = firewall_policy fw" "maps_ok (gh_view G w)" "dp_env_ok env"
    "rq_Command req = CmdBlock" "port_request req" "protoToCode (rq_Protocol req) = Inr portAnyProtocol"
    "Server_handle srv req w = (w', r)" "rs_OK r"
    "\<forall>info. parse_packet pkt = Some info \<longrightarrow> pi_protocol info \<noteq> portAnyProtocol"
  shows "(\<exists>k v. request_port_key req = Inr k \<and> granted_rule req = Inr v \<and> port_policy (gh_view G w') k = Some v) \<and>
    snd (firewall_prog env pkt (gh_view G w')) = snd (firewall_prog env pkt (gh_view G w))"
proof -
  have "maps_ok (gh_view G w')" using firewall_env.request_effect(2) [OF assms(1,8,2,3)] .
  moreover obtain k v where k: "port_key (rq_Value req) (rq_Protocol req) (rq_Port req) (rq_SPort req) = Inr k"
      "gh_view G w' = port_inserted k v (gh_view G w)" "granted_rule req = Inr v"
    using firewall_env.block_request_port [OF assms(1,8,2,5) _ assms(9)] assms(6) by (auto simp: port_request_def)
  moreover from k(1) assms(7) have "pk_Protocol k = portAnyProtocol"
    by (auto simp: port_key_def PortPolicyManager_newPortKey_def split: sum.splits option.splits list.splits)
  ultimately show ?thesis
    using any_protocol_ignored [of k pkt env v "gh_view G w"] assms(3,4,10)
    by (simp add: prog_refines maps_ok_presence request_port_key_def) (simp add: port_inserted_def)
qed

definition any_request :: Request where
  "any_request = (plain_request ''block'')\<lparr>rq_Value := ''192.168.1.1'', rq_Port := 22\<rparr>"

lemma any_request_simps [simp]:
  "rq_Command any_request = CmdBlock" "rq_Value any_request = ''192.168.1.1''" "rq_Protocol any_request = ''''"
  "rq_Port any_request = 22" "rq_SPort any_request = 0" "rq_Action any_request = ''''"
  by (simp_all add: any_request_def plain_request_def cmd_defs)

lemma any_request_key: "port_key ''192.168.1.1'' '''' 22 0 = Inr (web_key\<lparr>pk_Protocol := 0\<rparr>)"
  using newPortKey_str [of "le32 192 168 1 1" portAnyProtocol 22 0]
  unfolding le_ip_web by (simp add: port_key_def web_key_def portAnyProtocol_def)

lemma any_request_granted: "\<exists>w'. Server_handle demo_server any_request boot_kernel = (w', okResponse)"
  by (simp add: Server_handle_def demo_server_policy handle_block_def reply_unit_def Firewall_BlockPortRule_def
      PortPolicyManager_BlockWithAction_def PortPolicyManager_Block_eq any_request_key op_eval wrap_err_def cmd_defs)

text \<open>Port 22 of the web host is blocked; a SYN for it still passes.\<close>

theorem any_protocol_no_effect_witness:
  "\<exists>w'. Server_handle demo_server any_request boot_kernel = (w', okResponse) \<and>
     snd (firewall_prog demo_env syn_frame (kernel_maps w')) = XDP_PASS"
proof -
  have any: "protoToCode [] = Inr portAnyProtocol" "portAnyProtocol \<noteq> 6" by code_simp+
  obtain w' where w': "Server_handle demo_server any_request boot_kernel = (w', okResponse)"
    using any_request_granted by blast
  have e: "blocked_ips (kernel_maps boot_kernel) = Map.empty" "port_policy (kernel_maps boot_kernel) = Map.empty"
      "default_policy (kernel_maps boot_kernel) = DefaultAllow"
    by (simp_all add: kernel_maps_def boot_kernel_def default_policy_def array_entries_def enum_defs)
  have "matched_rules demo_env (kernel_maps boot_kernel) (demo_info TCP_SYN) = {}"
    using demo_env_ok by (simp add: matched_rules_def ip_block_action_empty port_rule_action_empty e dp_env_ok_def)
  then have "snd (firewall_prog demo_env syn_frame (kernel_maps boot_kernel)) = XDP_PASS"
    by (simp add: prog_refines maps_ok_presence boot_maps_ok demo_env_ok verdict_of_def parse_frames packet_verdict_def
        stateful_pass_def default_verdict_def e enum_defs)
  with any_protocol_no_effect [OF ref_firewall_env demo_server_policy _ demo_env_ok _ _ _ w', of syn_frame] w' show ?thesis
    using boot_maps_ok
    by (auto simp: port_request_def any parse_frames okResponse_def)
qed

end
