(* ===== verification/Shutdown.thy ===== *)
theory Shutdown
  imports Lifecycle ConcurrencyProps
begin

text \<open>
  The shutdown beside the requests in flight: the goroutines of Lifecycle and the map calls of Micro
  in one system. A handler whose line has come takes the server's mutex, makes the calls of its
  request one by one, and gives it up with the reply; accept loop, other handlers, \<open>Close\<close>, the
  context, packets and the reaper go on in between.
\<close>

section \<open>The composed system\<close>

text \<open>The connection whose handler holds the mutex, if any. \<open>Close\<close> needs the mutex to clear \<open>live\<close>.\<close>

record 'w running =
  rn_life :: life
  rn_micro :: "'w micro"
  rn_holder :: "nat option"

inductive run_step ::
    "('w, 'i) fw_ghost \<Rightarrow> ('w, 'i, 'l) Firewall \<Rightarrow> ('w, 'n) Server \<Rightarrow> u64 \<Rightarrow> 'w running \<Rightarrow> 'w running \<Rightarrow> bool"
  for G fw srv ctTimeout where
  lock: "rn_holder s = None \<Longrightarrow> c < length (lc_conns (rn_life s)) \<Longrightarrow> lc_conns (rn_life s) ! c = Serving \<Longrightarrow>
    run_step G fw srv ctTimeout s
      (s\<lparr>rn_holder := Some c, rn_micro := (rn_micro s)\<lparr>mi_request := Some (handle_prog srv fw req)\<rparr>\<rparr>)"
| calls: "micro_step G fw srv ctTimeout (rn_micro s) m' \<Longrightarrow>
    (mi_request m' = None \<longleftrightarrow> mi_request (rn_micro s) = None) \<Longrightarrow>
    run_step G fw srv ctTimeout s (s\<lparr>rn_micro := m'\<rparr>)"
| unlock: "rn_holder s = Some c \<Longrightarrow> mi_request (rn_micro s) = Some (Return r) \<Longrightarrow>
    life_next (Apply c) (rn_life s) = Some l' \<Longrightarrow>
    run_step G fw srv ctTimeout s
      \<lparr>rn_life = l', rn_micro = (rn_micro s)\<lparr>mi_request := None\<rparr>, rn_holder = None\<rparr>"
| other: "life_next l (rn_life s) = Some l' \<Longrightarrow> (\<forall>c. l \<noteq> Apply c) \<Longrightarrow> (\<forall>c. rn_holder s = Some c \<longrightarrow> l \<notin> {GiveUp c, ClearLive}) \<Longrightarrow>
    run_step G fw srv ctTimeout s (s\<lparr>rn_life := l'\<rparr>)"

definition running_from :: "'w \<Rightarrow> 'w running" where
  "running_from w = \<lparr>rn_life = started, rn_micro = idle_state w, rn_holder = None\<rparr>"

section \<open>The invariant\<close>

text \<open>A connection that holds the mutex stays in service while others move.\<close>

lemma serving_kept:
  assumes "life_next l s = Some s'" "l \<noteq> Apply c" "l \<noteq> GiveUp c" "c < length (lc_conns s)" "lc_conns s ! c = Serving"
  shows "c < length (lc_conns s') \<and> lc_conns s' ! c = Serving"
  using assms
  by (auto simp: next_defs Let_def nth_append nth_list_update
      split: life_label.splits loop_at.splits close_at.splits if_splits)

context firewall_env
begin

definition run_ok :: "'w running \<Rightarrow> bool" where
  "run_ok s \<longleftrightarrow> life_ok (rn_life s) \<and> micro_ok (rn_micro s) \<and>
     (rn_holder s = None \<longleftrightarrow> mi_request (rn_micro s) = None) \<and>
     (\<forall>c. rn_holder s = Some c \<longrightarrow> c < length (lc_conns (rn_life s)) \<and> lc_conns (rn_life s) ! c = Serving)"

lemma run_step_ok:
  assumes "run_step G fw srv ct s s'" "run_ok s"
  shows "run_ok s'"
  using assms(1)
proof cases
  case (lock c req)
  have "micro_step G fw srv ct (rn_micro s) ((rn_micro s)\<lparr>mi_request := Some (handle_prog srv fw req)\<rparr>)"
    using assms(2) lock(2) by (intro micro_step.receive) (simp add: run_ok_def)
  with assms(2) lock show ?thesis by (auto simp: run_ok_def intro: micro_step_ok)
next
  case (calls m')
  with assms(2) show ?thesis by (auto simp: run_ok_def intro: micro_step_ok)
next
  case (unlock c r l')
  have "micro_step G fw srv ct (rn_micro s) ((rn_micro s)\<lparr>mi_request := None\<rparr>)"
    by (rule micro_step.reply [OF unlock(3)])
  with assms(2) unlock show ?thesis by (auto simp: run_ok_def intro: micro_step_ok life_next_ok)
next
  case (other l l')
  with assms(2) serving_kept [OF other(2)] show ?thesis by (auto simp: run_ok_def intro: life_next_ok)
qed

lemma run_steps_ok: "(run_step G fw srv ct)\<^sup>*\<^sup>* s s' \<Longrightarrow> run_ok s \<Longrightarrow> run_ok s'"
  by (induction rule: rtranclp_induct) (auto intro: run_step_ok)

lemma running_from_ok: "maps_ok (gh_view G w) \<Longrightarrow> run_ok (running_from w)"
  by (simp add: run_ok_def running_from_def started_ok micro_ok_idle) (simp add: idle_state_def)

text \<open>Once nothing is in service and nothing can come, the mutex stays free and the rules stay.\<close>

lemma quiet_free:
  assumes "run_ok s" "quiet_life (rn_life s)"
  shows "rn_holder s = None" "mi_request (rn_micro s) = None"
proof -
  show "rn_holder s = None"
  proof (rule ccontr)
    assume "rn_holder s \<noteq> None"
    then obtain c where "c < length (lc_conns (rn_life s))" "lc_conns (rn_life s) ! c = Serving"
      using assms(1) by (auto simp: run_ok_def)
    with assms(2) show False by (auto simp: quiet_life_def all_set_conv_all_nth)
  qed
  with assms(1) show "mi_request (rn_micro s) = None" by (simp add: run_ok_def)
qed

lemma quiet_run_step:
  assumes "run_step G fw srv ct s s'" "run_ok s" "quiet_life (rn_life s)"
  shows "quiet_life (rn_life s') \<and> ctl (gh_view G (mi_world (rn_micro s'))) = ctl (gh_view G (mi_world (rn_micro s)))"
proof -
  have free: "rn_holder s = None" "mi_request (rn_micro s) = None"
    by (rule quiet_free [OF assms(2,3)])+
  from assms(1) show ?thesis
  proof cases
    case (lock c req)
    with assms(3) show ?thesis by (auto simp: quiet_life_def)
  next
    case (calls m')
    have "quiet G fw srv ct (rn_micro s) m'" using calls free by (simp add: quiet_def)
    moreover have "micro_ok (rn_micro s)" "answered (rn_micro s)"
      using assms(2) free by (simp_all add: run_ok_def answered_def)
    ultimately show ?thesis using quiet_ctl [of srv ct "rn_micro s" m'] assms(3) calls(1) by simp
  next
    case (unlock c r l')
    with free show ?thesis by simp
  next
    case (other l l')
    with quiet_next [OF assms(3) other(2)] show ?thesis by simp
  qed
qed

lemma quiet_run_steps:
  assumes "(run_step G fw srv ct)\<^sup>*\<^sup>* s s'" "run_ok s" "quiet_life (rn_life s)"
  shows "run_ok s' \<and> quiet_life (rn_life s') \<and>
    ctl (gh_view G (mi_world (rn_micro s'))) = ctl (gh_view G (mi_world (rn_micro s)))"
  using assms by (induction rule: rtranclp_induct) (auto dest: quiet_run_step intro: run_step_ok)

end

section \<open>The shutdown\<close>

text \<open>Claim C39: a shutdown waits for the requests in flight and freezes the rules. At the level of single map
  calls: when the wait of \<open>Close\<close> returns, unless the accept loop has a connection in hand that it has not counted,
  no request is between two of its calls; and whatever connections, packets and reaper ticks do from then on, no
  request touches the maps any more, which stay well formed: the rules, the flags and the policy that the program
  enforces until it is detached are those the last request has left.\<close>

theorem shutdown_freezes_rules:
  assumes "firewall_env G fw" "maps_ok (gh_view G w0)"
    "(run_step G fw srv ctTimeout)\<^sup>*\<^sup>* (running_from w0) s"
    "life_next WaitReturns (rn_life s) = Some l'" "\<forall>c. lc_loop (rn_life s) \<noteq> Got c"
    "(run_step G fw srv ctTimeout)\<^sup>*\<^sup>* (s\<lparr>rn_life := l'\<rparr>) t"
  shows "mi_request (rn_micro s) = None \<and> mi_request (rn_micro t) = None \<and>
    (\<forall>c \<in> set (lc_conns (rn_life t)). c = Finished) \<and> maps_ok (gh_view G (mi_world (rn_micro t))) \<and>
    ctl (gh_view G (mi_world (rn_micro t))) = ctl (gh_view G (mi_world (rn_micro s)))"
proof -
  note env = firewall_env.run_steps_ok [OF assms(1)] firewall_env.quiet_run_steps [OF assms(1)]
    firewall_env.quiet_free [OF assms(1)]
  have ok: "firewall_env.run_ok G s"
    by (rule env(1) [OF assms(3) firewall_env.running_from_ok [OF assms(1,2)]])
  then have w: "\<forall>c \<in> set (lc_conns (rn_life s)). c = Finished" "\<not> lc_listening (rn_life s)"
      "l' = (rn_life s)\<lparr>lc_close := Waited\<rparr>" "\<forall>c. lc_loop (rn_life s) \<noteq> Added c"
    using wait_returns [OF _ assms(4)] by (simp_all add: firewall_env.run_ok_def [OF assms(1)])
  have quiet: "quiet_life l'"
    using w assms(5) by (cases "lc_loop (rn_life s)") (simp_all add: quiet_life_def)
  have ok': "firewall_env.run_ok G (s\<lparr>rn_life := l'\<rparr>)"
    using ok life_next_ok [OF assms(4)] w(3) by (simp add: firewall_env.run_ok_def [OF assms(1)])
  have t: "firewall_env.run_ok G t" "quiet_life (rn_life t)"
    "ctl (gh_view G (mi_world (rn_micro t))) = ctl (gh_view G (mi_world (rn_micro s)))"
    using env(2) [OF assms(6) ok'] quiet by simp_all
  have "mi_request (rn_micro s) = None" using env(4) [OF ok'] quiet by simp
  moreover have "mi_request (rn_micro t) = None" by (rule env(4) [OF t(1,2)])
  moreover have "maps_ok (gh_view G (mi_world (rn_micro t)))"
    using t(1) by (simp add: firewall_env.run_ok_def [OF assms(1)] firewall_env.micro_ok_def [OF assms(1)])
  moreover have "\<forall>c \<in> set (lc_conns (rn_life t)). c = Finished" using t(2) by (simp add: quiet_life_def)
  ultimately show ?thesis using t(3) by blast
qed

text \<open>A client has connected and blocks a prefix; while its request makes its calls, the server is closed.\<close>

lemma served_run:
  assumes "(serving G fw srv c)\<^sup>*\<^sup>* m m'"
  shows "(run_step G fw srv c)\<^sup>*\<^sup>* (s\<lparr>rn_micro := m\<rparr>) (s\<lparr>rn_micro := m'\<rparr>)"
  using assms
proof (induction rule: rtranclp_induct)
  case (step m1 m2)
  then have "run_step G fw srv c (s\<lparr>rn_micro := m1\<rparr>) (s\<lparr>rn_micro := m1\<rparr>\<lparr>rn_micro := m2\<rparr>)"
    by (intro run_step.calls) (auto simp: serving_def)
  with step.IH show ?case by (simp add: rtranclp.rtrancl_into_rtrancl)
qed simp

definition closing_life :: "conn_at \<Rightarrow> life" where
  "closing_life at =
     \<lparr>lc_listening = False, lc_live = True, lc_wg = (if at = Finished then 0 else 1), lc_loop = Accepting,
      lc_conns = [at], lc_close = ListenerClosed\<rparr>"

lemma connect_run:
  "(run_step G fw srv c)\<^sup>*\<^sup>* (running_from w)
     \<lparr>rn_life = closing_life Serving, rn_micro = idle_state w, rn_holder = None\<rparr>"
proof -
  have run: "(run_step G fw srv c)\<^sup>*\<^sup>* \<lparr>rn_life = l, rn_micro = idle_state w, rn_holder = None\<rparr>
      \<lparr>rn_life = l', rn_micro = idle_state w, rn_holder = None\<rparr>"
    if "life_run ls l = Some l'" "\<forall>c. Apply c \<notin> set ls" for ls l l'
    using that
  proof (induction ls arbitrary: l)
    case (Cons x ls)
    then obtain l1 where l1: "life_next x l = Some l1" "life_run ls l1 = Some l'" by (auto split: option.splits)
    have "run_step G fw srv c \<lparr>rn_life = l, rn_micro = idle_state w, rn_holder = None\<rparr>
        (\<lparr>rn_life = l, rn_micro = idle_state w, rn_holder = None\<rparr>\<lparr>rn_life := l1\<rparr>)"
      using l1(1) Cons.prems(2) by (intro run_step.other) auto
    with Cons.IH [OF l1(2)] Cons.prems(2) show ?case by (auto intro: converse_rtranclp_into_rtranclp)
  qed simp
  have "life_run [AcceptConn, WgAdd, GoHandle, CloseListener] started = Some (closing_life Serving)"
    by (simp add: next_defs started_def closing_life_def)
  from run [OF this] show ?thesis by (simp add: running_from_def)
qed

definition drained :: "kernel \<Rightarrow> kernel running" where
  "drained w = \<lparr>rn_life = (closing_life Finished)\<lparr>lc_live := False, lc_close := LiveCleared\<rparr>,
     rn_micro = idle_state w, rn_holder = None\<rparr>"

lemma drained_run: "(run_step ref_ghost ref_fw demo_server 0)\<^sup>*\<^sup>* (running_from boot_kernel) (drained blocked_kernel)"
proof -
  let ?R = "run_step ref_ghost ref_fw demo_server 0"
  let ?s = "\<lambda>at m h. \<lparr>rn_life = closing_life at, rn_micro = m, rn_holder = h\<rparr>"
  let ?m0 = "(idle_state boot_kernel)\<lparr>mi_request := Some (handle_prog demo_server ref_fw block_request)\<rparr>"
  let ?m1 = "(idle_state blocked_kernel)\<lparr>mi_request := Some (Return okResponse)\<rparr>"
  have "?R (?s Serving (idle_state boot_kernel) None) (?s Serving ?m0 (Some 0))"
    using run_step.lock [of "?s Serving (idle_state boot_kernel) None" 0 ref_ghost ref_fw demo_server 0 block_request]
    by (simp add: closing_life_def)
  moreover have "?R\<^sup>*\<^sup>* (?s Serving ?m0 (Some 0)) (?s Serving ?m1 (Some 0))"
    using served_run [OF serve_demo, of 0 "?s Serving ?m0 (Some 0)"] by simp
  moreover have "?R (?s Serving ?m1 (Some 0)) (?s Answering (idle_state blocked_kernel) None)"
    using run_step.unlock [of "?s Serving ?m1 (Some 0)" 0 okResponse "closing_life Answering" ref_ghost ref_fw demo_server 0]
    by (simp add: closing_life_def next_defs idle_state_def)
  moreover have "?R (?s Answering (idle_state blocked_kernel) None) (?s Finished (idle_state blocked_kernel) None)"
    using run_step.other [of "WgDone 0" "?s Answering (idle_state blocked_kernel) None" "closing_life Finished"]
    by (simp add: closing_life_def next_defs)
  moreover have "?R (?s Finished (idle_state blocked_kernel) None) (drained blocked_kernel)"
    using run_step.other [of ClearLive "?s Finished (idle_state blocked_kernel) None"
        "(closing_life Finished)\<lparr>lc_live := False, lc_close := LiveCleared\<rparr>"]
    by (simp add: closing_life_def next_defs drained_def)
  ultimately show ?thesis using connect_run [of ref_ghost ref_fw demo_server 0 boot_kernel]
    by (meson rtranclp.rtrancl_into_rtrancl rtranclp_trans)
qed

theorem shutdown_freezes_rules_witness:
  "maps_ok (kernel_maps blocked_kernel) \<and> mi_request (rn_micro (drained blocked_kernel)) = None"
proof -
  have "life_next WaitReturns (rn_life (drained blocked_kernel)) =
      Some ((closing_life Finished)\<lparr>lc_live := False, lc_close := Waited\<rparr>)"
    by (simp add: drained_def closing_life_def next_defs)
  from shutdown_freezes_rules [OF ref_firewall_env _ drained_run this _ rtranclp.rtrancl_refl] boot_maps_ok
  show ?thesis by (simp add: drained_def closing_life_def idle_state_def)
qed

end
