(* ===== verification/Spec2Isabelle.thy ===== *)
theory Spec2Isabelle
  imports DatapathProps ManagerProps ControlProps ConcurrencyProps SessionProps Layout MapDecls CtRace CounterRace Debug History Listing HttpLive EndToEnd Shutdown
begin

text \<open>
  A verification library for the eBPF network firewall: an XDP program that filters IPv4 packets by
  rules in eBPF maps, a Go daemon that owns these maps, a control server on a Unix socket, a
  read-only HTTP view, and a command-line client.

  \<^bold>\<open>The program and its model.\<close> The daemon (\<open>cmd/firewall/main.go\<close>) loads the program of
  \<open>bpf/firewall.c\<close>, attaches it, and serves requests (\<open>control/server\<close>) on a facade
  (\<open>control/ebpf/facade.go\<close>) over five managers, each of which owns one map. The two rule
  managers also keep the flags of a sixth map, \<open>rule_presence\<close>, with which the program skips
  the lookups in empty tables. Kernel and daemon meet only in the six maps, the record \<open>fw_maps\<close>.

  \<^item> \<open>Prelude\<close>: word types, error values, lemma collections. \<open>GoStrings\<close>, \<open>GoNet\<close>: what is used
    of Go's strings, strconv and net packages. \<open>Json\<close>: encoding/json - UTF-8, the printer, the parser,
    and that the parser reads back what the printer wrote.
  \<^item> \<open>Rules\<close>: \<open>control/rules/parser.go\<close>. \<open>Values\<close>: \<open>action.go\<close>, \<open>values.go\<close>, the enumerations of
    \<open>config.go\<close>, the keys of the maps, and what a key covers. \<open>Layout\<close>: the bytes of the keys and
    values on both sides, the C structs of \<open>maps.h\<close> with their padding and the Go structs. \<open>MapDecls\<close>: the declarations of
    the six maps, the names under which the generated Go structs ask for them, and their sizes.
  \<^item> \<open>BpfMaps\<close>: the interface of the eBPF library, the locale \<open>bpf_map\<close>. A map is a record of
    operations on an abstract world \<open>'w\<close>; \<open>view\<close> shows the contents of the six maps in a world.
  \<^item> \<open>Presence\<close>: \<open>presence.go\<close>, and the locale \<open>rule_table\<close>: a table with its flag.
  \<^item> \<open>Bindings\<close>: \<open>firewall_bpf.go\<close>, the generated loader and the closers.
  \<^item> \<open>Protocol\<close>: \<open>control/server/protocol.go\<close>. \<open>Wire\<close>: the JSON texts of its types by their struct tags.
  \<^item> \<open>Blocklist\<close>, \<open>PortPolicy\<close>, \<open>Counters\<close>, \<open>Conntrack\<close>: the managers of \<open>blocklist.go\<close>,
    \<open>portpolicy.go\<close>, \<open>counters.go\<close> with \<open>config.go\<close>, and \<open>conntrack.go\<close>, each with a locale that
    states what the manager relies on and proves the effect of every operation on every outcome.
  \<^item> \<open>Datapath\<close>: \<open>bpf/firewall.c\<close>, \<open>helpers.h\<close>. \<open>Decision\<close>: its specification \<open>prog_spec\<close>, which
    always looks both rule tables up, and the refinement. \<open>Flows\<close>: counters and the automaton of a
    tracked flow, over runs of packets. \<open>CtRace\<close>: \<open>ct_update\<close> and \<open>ct_is_established\<close>
    access by access, with any number of packets of any flows at once, deletions in between, and the reuse of their memory. \<open>CounterRace\<close>: the atomic additions to the counters, of
    any number of packets at once. \<open>Debug\<close>: the trace of the build with \<open>FIREWALL_DEBUG\<close>.
  \<^item> \<open>Xdp\<close>, \<open>Facade\<close>: \<open>xdp.go\<close>, \<open>facade.go\<close>. \<open>Invariant\<close>: the invariant \<open>maps_ok\<close>.
    \<open>FirewallEnv\<close>: \<open>mgr_step\<close>, the abstract step of the control plane, the locale \<open>firewall_env\<close>
    in which every operation of the facade is such a step, and the locale \<open>loaded_objs\<close> from which
    \<open>NewFirewall\<close> establishes it.
  \<^item> \<open>Server\<close>: \<open>control/server/server.go\<close>, with the locale \<open>policy_contract\<close> of the \<open>Policy\<close>
    interface, which the facade provides by a sublocale. \<open>Lifecycle\<close>: its goroutines - accept loop,
    handlers, wait group, \<open>Close\<close> - as an executable transition system. \<open>Api\<close>: \<open>control/api/api.go\<close>.
    \<open>Ctl\<close>: the options, requests and output of \<open>cmd/firewallctl/main.go\<close>. \<open>Session\<close>: one connection from
    both ends, on bytes: the scanner, \<open>handleConn\<close>, the client's round trip, with the locale
    \<open>unix_socket\<close> for the socket between them. \<open>Daemon\<close>: \<open>cmd/firewall/main.go\<close>, with the locale \<open>boot_env\<close>.
  \<^item> \<open>System\<close>: requests, packets and reaper ticks in any order (\<open>sys_step\<close>), each as one step.
  \<^item> \<open>Interleave\<close>, \<open>Concurrent\<close>, \<open>Micro\<close>: the same at the level of single map calls. A request or a tick is a
    program (\<open>prog\<close>) of calls; run alone it is the function of the other theories. \<open>micro_step\<close> lets the
    server make one call, the reaper one call, or the kernel judge a packet. The datapath and the
    reaper never write the rules, the flags and the policy (\<open>ctl\<close>), so the preconditions \<open>wp\<close> of a
    request are computed on that part alone and hold among all the others. \<open>Lookups\<close>: a packet lookup by
    lookup (\<open>packet_at\<close>) beside such calls, each of which changes one entry of one map. \<open>HttpCalls\<close>: the HTTP
    endpoints as such programs, which only read. \<open>Shutdown\<close>: the goroutines of \<open>Lifecycle\<close> and the calls of
    \<open>Micro\<close> in one system (\<open>run_step\<close>). \<open>History\<close>: programs with the worlds they have seen (\<open>hist\<close>), for what the
    reaper removes and a listing shows while the flows change. \<open>Listing\<close>: programs that read only what packets and reaper leave
    alone (\<open>steady\<close>), with the locale \<open>steady_env\<close> of what several calls of an iterator rely on. \<open>HttpLive\<close>: the running
    daemon with any number of HTTP requests (\<open>live_step\<close>), and a reply that lists an entry twice, since no mutex
    keeps the server from removing the key an iterator stands on (\<open>listed_twice\<close>). \<open>EndToEnd\<close>: from the client's exit code to a packet's verdict.
  \<^item> \<open>KernelRef\<close>: an executable kernel on which all locales are interpreted for the firewall the
    code wires; \<open>Examples\<close>: concrete states and packets on it.
  \<^item> \<open>DatapathProps\<close>, \<open>ManagerProps\<close>, \<open>ControlProps\<close>, \<open>ConcurrencyProps\<close>, \<open>SessionProps\<close> and this theory: the
    properties.

  \<^bold>\<open>Correspondence.\<close> A Go method is a function of its receiver and the world that returns the new
  world and the error; \<open>error\<close> is \<open>fw_error option\<close>, a value with an error the sum
  \<open>fw_error + 'a\<close>. Unsigned integers are words of their width, a \<open>time.Duration\<close> a signed 64-bit
  word, a slice that may be nil a list option. Names follow the code: \<open>MapManager_Clear\<close> is the
  method \<open>Clear\<close> of \<open>MapManager\<close>.

  \<^bold>\<open>What is shown.\<close> The program's verdict is the decision table's, with the longest-prefix, the
  specificity and the priority rules spelt out, and the skipped lookups never change it in any
  state reachable from a successful start; the control plane's operations do to the maps what they
  say, and a failure half-way leaves at worst a flag set or some entries removed; listings can be
  replayed; a dropped handshake never creates a flow and a spoofed packet never establishes one; an established flow
  passes without a rule until it is closed or removed, in its own direction only; a port rule for any protocol
  filters nothing; a granted request to block a prefix drops its packets. The
  skipped lookups are harmless at every single call of a request as well, a request among packets and
  ticks has the effect it has alone, and every request of a scheduled server is answered within the bounds below. What a
  granted request has done (\<open>request_done\<close>) is what it asks for (\<open>request_asked\<close>) but for one kind: a block with a
  priority and no action is stored at priority 0 (\<open>priority_lost\<close>). What \<open>firewallctl\<close> prints is the
  server's reply to its command line, through both JSON codecs, and its listings show the tables; every
  line on the socket gets one readable answer; what \<open>Close\<close> waits for, and the one request it misses.
  Beside one map call a packet is judged as before it or after it, though beside two it can pass
  between two rules (\<open>two_calls_slip\<close>). Kernel and control plane agree on the bytes of every key; packets
  racing on the conntrack entries, even while these are deleted, leave each in a state that a packet of its own flow is entitled to, though
  a close or a refresh can be lost, and though an entry whose memory is reused can be written by another flow's packet; no packet is lost in the counters, whatever is counted while they are read.
  Exit code 0 of \<open>firewallctl\<close> means that the command is carried out, in the same sense, and of a block that the packets are dropped; after the wait of \<open>Close\<close> the
  rules stay as they are until the program is detached. The reaper removes only flows it has seen idle, and what a
  listing of the flows shows was tracked while it was made. A listing of the
  rules is exact among packets and reaper ticks, on the socket and over HTTP; HTTP requests disturb nobody, and beside requests that
  change the rules they show only what was so while they were answered. The debug build prints payload bytes for ports.

  \<^bold>\<open>Bounds.\<close> A loop over a map takes at most \<open>MaxEntries\<close> turns and then fails with the library's
  own \<open>ErrIterationAborted\<close>; the bound is the library's. So the calls of a request are bounded by the
  sizes of the tables (\<open>request_calls\<close>, \<open>reap_calls\<close>): 393233 and 131078 for the declared maps. The scanner takes lines below 64 KiB, which
  arguments of up to 10000 bytes never exceed; the JSON parser nests at most 10000 levels, as the
  library's does. All other recursion is structural or terminates by a measure.

  \<^bold>\<open>Assumed.\<close> The laws of \<open>bpf_map\<close> (documented behaviour of bpf(2) and of the cilium library), the
  longest-prefix lookup of the LPM trie (\<open>longest_prefix\<close>), that an update of the conntrack map by the
  program inserts the entry or leaves the map alone (\<open>dp_env_ok\<close>), that a Unix socket delivers the bytes
  written (\<open>unix_socket\<close>), and that the text of a float is a number literal in range (\<open>codec_ok\<close>).

  \<^bold>\<open>Not modelled.\<close> The texts of errors beyond what is compared, and the rounding of printed decimals:
  they are parameters or stay symbolic. Log lines, signals and flag parsing keep no state of the program.
  The lookups of a packet meet the calls of the daemon in \<open>Lookups\<close>, its accesses to the conntrack entry those of
  other packets in \<open>CtRace\<close>, and its additions to the counters theirs in \<open>CounterRace\<close>; elsewhere a packet is one
  step. Beside changes to its table a listing need not be a snapshot, and the library does not
  promise that it meets every entry that stays: nothing is claimed about what is missing from it. The HTTP listener and the multiplexer's path cleaning are the library's, as is
  the text \<open>bpf_printk\<close> makes of its format. Tests, benchmarks and scripts carry no logic of the program.
\<close>

section \<open>The running system\<close>

text \<open>Claim C33: a daemon that has started runs on a wired firewall: every manager has what it relies on
  in the loaded maps, the program is attached, the server serves that firewall, the maps are well
  formed, no flow is tracked yet and the books balance. From there on, at every single step of any
  history of requests, packets and reaper ticks, the program's verdict and effect are those of its specification.\<close>

theorem daemon_boots:
  assumes "boot_env G xenv senv" "daemon_start rm xenv senv flags w = (w', Inr d)"
  shows "firewall_env G (dm_fw d) \<and> xdp_attached (fw_prog (dm_fw d)) \<and>
    sv_policy (dm_srv d) = firewall_policy (dm_fw d) \<and> maps_ok (gh_view G w') \<and>
    conntrack (gh_view G w') = Map.empty \<and>
    counters_ready (gh_view G w') \<and> balanced (stats_of (gh_view G w')) \<and>
    (\<forall>s env pkt. (micro_step G (dm_fw d) (dm_srv d) (df_ctTimeout flags))\<^sup>*\<^sup>* (idle_state w') s \<longrightarrow> dp_env_ok env \<longrightarrow>
       firewall_prog env pkt (gh_view G (mi_world s)) = prog_spec env pkt (gh_view G (mi_world s)))"
proof -
  note st = boot_env.started [OF assms]
  then have m: "mgr_step\<^sup>*\<^sup>* fresh_maps (gh_view G w')" by blast
  from mgr_steps_flows [OF m] have c: "conntrack (gh_view G w') = Map.empty"
      "counters (gh_view G w') = counters fresh_maps"
    by (simp_all add: fresh_maps_def)
  then have "counters_ready (gh_view G w')" "balanced (stats_of (gh_view G w'))"
    by (simp_all add: counters_ready_def balanced_def stats_of_def slot_def fresh_maps_def counter_idx_defs)
  moreover have ok: "maps_ok (gh_view G w')" by (rule mgr_steps_maps_ok [OF m maps_ok_fresh])
  moreover have "firewall_prog env pkt (gh_view G (mi_world s)) = prog_spec env pkt (gh_view G (mi_world s))"
    if "(micro_step G (dm_fw d) (dm_srv d) (df_ctTimeout flags))\<^sup>*\<^sup>* (idle_state w') s" "dp_env_ok env" for s env pkt
    using prog_refines [OF maps_ok_presence that(2)] firewall_env.micro_reachable_ok(2) [OF _ that(1) ok] st by blast
  ultimately show ?thesis using st c by blast
qed

definition demo_flags :: daemon_flags where
  "demo_flags = \<lparr>df_ifname = ''eth0'', df_blockList = '''', df_sockPath = ''/run/fw.sock'',
     df_ctTimeout = 300000000000, df_httpAddr = ''0''\<rparr>"

lemma daemon_demo:
  "\<exists>d. daemon_start (\<lambda>w. (w, None)) ref_env ref_senv demo_flags boot_kernel =
     (boot_kernel\<lparr>k_links := [(2, XDPGenericMode)]\<rparr>, Inr d)"
proof -
  have p: "fw_prog ref_fw = ref_program" by (simp add: ref_program_def)
  show ?thesis
    by (simp add: daemon_start_def demo_flags_def NewFirewall_ref fresh_kernel_boot Firewall_Start_def
        p ref_life Let_def populate_def)
      (simp add: Server_Start_def ref_senv_def)
qed

theorem daemon_boots_witness:
  "\<exists>d :: (kernel, ref_iter, nat, nat) daemon. firewall_env ref_ghost (dm_fw d) \<and> xdp_attached (fw_prog (dm_fw d))"
proof -
  obtain d where "daemon_start (\<lambda>w. (w, None)) ref_env ref_senv demo_flags boot_kernel =
      (boot_kernel\<lparr>k_links := [(2, XDPGenericMode)]\<rparr>, Inr d)"
    using daemon_demo by blast
  from daemon_boots [OF ref_boot.boot_env_axioms this] show ?thesis by blast
qed

text \<open>With every packet, request and reading as one step the books balance whenever the counters are read. Beside
  packets on their way a reading is off by exactly what \<open>counters_race\<close> says.\<close>

lemma reachable_balanced_stats:
  assumes "firewall_env G fw" "sv_policy srv = firewall_policy fw" "maps_ok (gh_view G w0)"
    "counters_ready (gh_view G w0)" "balanced (stats_of (gh_view G w0))"
    "(sys_step G fw srv)\<^sup>*\<^sup>* w0 w" "Firewall_Stats fw w = Inr s"
  shows "balanced s"
proof -
  have "counter_env (gh_view G) (gh_cur_idx G) (fw_counterMgr fw)"
    using assms(1) by (simp add: firewall_env_def)
  from counter_env.GetCounters_effect [OF this] assms(7) have "s = stats_of (gh_view G w)"
    by (auto simp: Firewall_Stats_def)
  with firewall_env.reachable_balanced [OF assms(1,6,2,3,4,5)] show ?thesis by simp
qed

end
